(* ===== verification/Xm_Prelude.thy ===== *)
theory Xm_Prelude
  imports Main "HOL-Library.Word"
begin

text \<open>
  Prelude of the xmMessaging development: the machine-integer types of the sources, the
  named theorem collections the component theories feed, and the generic lemmas on
  first-match scans, pointer tables, words and decimal rendering that several components share.
\<close>

unbundle bit_operations_syntax

section \<open>Machine integers and collections\<close>

type_synonym u8 = "8 word"
type_synonym u32 = "32 word"
type_synonym u64 = "64 word"

text \<open>Time points and durations of \<^verbatim>\<open>xmbase/types/time.hpp\<close> are nanosecond counts. Signed
  overflow is undefined in C++, so the model uses the mathematical value.\<close>

type_synonym nanos = int

named_theorems xm_defs "definitions unfolded by the functional lemmas"
named_theorems wf_intros "preservation of well-formedness invariants"
named_theorems frame_simps "fields an operation leaves alone"

section \<open>First-match scans\<close>

text \<open>The sources search their fixed tables with a counting loop that stops at the first
  index satisfying a test. \<open>scan n P\<close> is that loop.\<close>

definition scan :: "nat \<Rightarrow> (nat \<Rightarrow> bool) \<Rightarrow> nat option" where
  "scan n P = find P [0..<n]"

lemma scan_Some_iff: "scan n P = Some i \<longleftrightarrow> i < n \<and> P i \<and> (\<forall>j<i. \<not> P j)"
  unfolding scan_def by (auto simp: find_Some_iff)

lemma scan_None_iff: "scan n P = None \<longleftrightarrow> (\<forall>i<n. \<not> P i)"
  unfolding scan_def by (auto simp: find_None_iff)

lemma scan_SomeD: "scan n P = Some i \<Longrightarrow> i < n \<and> P i"
  by (simp add: scan_Some_iff)

lemma scan_total: "(\<exists>i<n. P i) \<Longrightarrow> \<exists>i. scan n P = Some i"
  using scan_None_iff [of n P] by (cases "scan n P") auto

lemma scan_cong: "(\<And>i. i < n \<Longrightarrow> P i = Q i) \<Longrightarrow> scan n P = scan n Q"
  unfolding scan_def by (auto intro: find_cong)

lemma nth_list_update_if: "xs[i := v] ! j = (if i = j \<and> j < length xs then v else xs ! j)"
  by (cases "i = j") (auto simp: list_update_beyond not_less)

section \<open>Exclusive ownership\<close>

text \<open>\<open>owns own H\<close>: the resources in use are exactly \<open>H\<close>, each held by exactly one party of the
  table \<open>own\<close>. Claiming, dropping and handing over keep it; loan cells, call slots and subscriber
  slots are all instances.\<close>

definition owns :: "('h \<Rightarrow> 'k option) \<Rightarrow> 'k set \<Rightarrow> bool" where
  "owns own H \<longleftrightarrow> H = ran own \<and> (\<forall>h g k. own h = Some k \<longrightarrow> own g = Some k \<longrightarrow> h = g)"

lemma owns_mem: "owns own H \<Longrightarrow> own h = Some k \<Longrightarrow> k \<in> H"
  by (auto simp: owns_def ran_def)

lemma owns_unique: "owns own H \<Longrightarrow> own h = Some k \<Longrightarrow> own g = Some k \<Longrightarrow> h = g"
  by (auto simp: owns_def)

lemma owns_empty [simp]: "owns (\<lambda>_. None) H \<longleftrightarrow> H = {}"
  by (auto simp: owns_def)

lemma owns_claim:
  assumes "owns own H" "own h = None" "k \<notin> H"
  shows "owns (own(h := Some k)) (insert k H)"
  using assms by (auto simp: owns_def ran_def split: if_splits) (metis option.distinct(1))+

lemma owns_drop:
  assumes "owns own H" "own h = Some k"
  shows "owns (own(h := None)) (H - {k})"
  using assms by (auto simp: owns_def ran_def split: if_splits) (metis option.inject)+

lemma owns_move:
  assumes "owns own H" "own h = None" "h \<noteq> g"
  shows "owns (own(h := own g, g := None)) H"
proof (cases "own g")
  case None
  with assms show ?thesis by (simp add: fun_upd_idem)
next
  case (Some k)
  from owns_drop [OF assms(1) Some] have "owns (own(g := None)) (H - {k})" .
  from owns_claim [OF this, of h k] assms Some show ?thesis
    using owns_mem [OF assms(1) Some] by (simp add: fun_upd_twist insert_absorb)
qed

lemma owns_same: "owns own H \<Longrightarrow> own h = v \<Longrightarrow> owns (own(h := v)) H"
  by (simp add: fun_upd_idem)


section \<open>Words\<close>

lemma of_nat_Suc_minus_1 [simp]: "(of_nat (Suc n) :: 'a::len word) - 1 = of_nat n"
  by simp

lemma unat_plus_one_less:
  fixes w :: "'a::len word"
  assumes "unat w + 1 < 2 ^ LENGTH('a)"
  shows "unat (w + 1) = unat w + 1"
  using assms by (simp add: unat_word_ariths(1))

lemma unat_max_word_u64: "unat (- 1 :: u64) = 2 ^ 64 - 1"
  by (simp add: unsigned_minus_1_eq_mask mask_eq_exp_minus_1)

section \<open>Little-endian bytes\<close>

primrec le_bytes :: "nat \<Rightarrow> nat \<Rightarrow> u8 list" where
  "le_bytes 0 n = []"
| "le_bytes (Suc k) n = of_nat n # le_bytes k (n div 256)"

fun le_nat :: "u8 list \<Rightarrow> nat" where
  "le_nat [] = 0"
| "le_nat (b # bs) = unat b + 256 * le_nat bs"

lemma length_le_bytes [simp]: "length (le_bytes k n) = k"
  by (induction k arbitrary: n) simp_all

lemma le_nat_le_bytes: "le_nat (le_bytes k n) = n mod 256 ^ k"
proof (induction k arbitrary: n)
  case (Suc k)
  have "unat (of_nat n :: u8) = n mod 256"
    by (simp add: unat_of_nat)
  then show ?case
    by (simp add: Suc.IH mod_mult2_eq [of n 256 "256 ^ k"])
qed simp

lemma le_nat_u64 [simp]: "of_nat (le_nat (le_bytes 8 (unat (w :: u64)))) = w"
proof -
  have "unat w < 256 ^ 8" using unsigned_less [of w] by simp
  then show ?thesis by (simp add: le_nat_le_bytes del: power_numeral)
qed

end
