(* ===== verification/Xm_Vocabulary.thy ===== *)
theory Xm_Vocabulary
  imports Xm_Prelude
begin

text \<open>
  The portable vocabulary: the QoS knobs (\<^verbatim>\<open>include/xmmsg/qos.hpp\<close>), the status enums
  (\<^verbatim>\<open>status.hpp\<close>), the take-side sample (\<^verbatim>\<open>sample.hpp\<close>), the envelope
  (\<^verbatim>\<open>detail/envelope.hpp\<close>), the mail record (\<^verbatim>\<open>detail/mail_record.hpp\<close>) and the
  lineage rule of \<^verbatim>\<open>PublishDerived\<close>. Enumerators are prefixed by their enum where two enums
  share a name (\<^verbatim>\<open>kOk\<close>, \<^verbatim>\<open>kTypeMismatch\<close>).
\<close>

section \<open>QoS\<close>

datatype Kind = kLatestOnly | kQueue

record History =
  hist_kind :: Kind
  hist_depth :: u32

definition LatestOnly :: History where
  "LatestOnly = \<lparr>hist_kind = kLatestOnly, hist_depth = 1\<rparr>"

definition Queue :: "u32 \<Rightarrow> History" where
  "Queue depth = \<lparr>hist_kind = kQueue, hist_depth = depth\<rparr>"

datatype Reliability = kBestEffort | kReliable

datatype Ownership = kExclusive | kShared

record Qos =
  history :: History
  reliability :: Reliability
  deadline :: "nanos option"
  ownership :: Ownership

definition Qos_default :: Qos where
  "Qos_default = \<lparr>history = LatestOnly, reliability = kBestEffort, deadline = None,
     ownership = kExclusive\<rparr>"

section \<open>Statuses\<close>

datatype PublishStatus = Publish_kOk | Publish_kWouldBlock
datatype LoanStatus = Loan_kOk | Loan_kExhausted
datatype AdvertiseStatus = Advertise_kOk | Advertise_kOwnershipRefused
  | Advertise_kTypeMismatch | Advertise_kUnsupportedReach
datatype SubscribeStatus = Subscribe_kOk | Subscribe_kTypeMismatch | Subscribe_kUnsupportedReach
datatype CallStatus = Call_kOk | Call_kDeadlineExpired | Call_kNoServer
datatype ReplyStatus = Reply_kOk | Reply_kExpired
datatype WaitStatus = Wait_kMatched | Wait_kDeadlineExpired

section \<open>Envelope and mail record\<close>

definition kEnvelopeContextSize :: nat where
  "kEnvelopeContextSize = 24"

record Envelope =
  context_bytes :: "u8 list"
  publish_stamp_ns :: nanos
  origin_stamp_ns :: nanos
  hop_count :: u32
  flags :: u32

record 'a MailRecord =
  envelope :: Envelope
  ordinal :: u64
  payload :: 'a

section \<open>Samples\<close>

datatype Freshness = kFresh | kStale | kNone
datatype AgeClass = kMeasured | kAdvisory

text \<open>\<open>smp_value = None\<close> stands for the value-initialised \<^verbatim>\<open>T{}\<close>, which no caller may read:
  dereferencing a \<^verbatim>\<open>kNone\<close> sample is a contract violation.\<close>

record ('a, 'c) Sample =
  smp_value :: "'a option"
  smp_context :: 'c
  smp_stamp :: nanos
  smp_origin_stamp :: nanos
  smp_hop_count :: u32
  smp_freshness :: Freshness
  smp_age_class :: AgeClass

text \<open>\<open>Sample_init\<close> is the default member initialisation of \<^verbatim>\<open>Sample<T>\<close>, with the null
  telemetry context as argument.\<close>

definition Sample_init :: "'c \<Rightarrow> ('a, 'c) Sample" where
  "Sample_init null_ctx = \<lparr>smp_value = None, smp_context = null_ctx, smp_stamp = 0, smp_origin_stamp = 0,
     smp_hop_count = 0, smp_freshness = kNone, smp_age_class = kMeasured\<rparr>"

definition age :: "nanos \<Rightarrow> ('a, 'c) Sample \<Rightarrow> nanos" where
  "age now s = now - smp_stamp s"

definition origin_age :: "nanos \<Rightarrow> ('a, 'c) Sample \<Rightarrow> nanos" where
  "origin_age now s = now - smp_origin_stamp s"

section \<open>Lineage of derived publications\<close>

text \<open>\<open>DerivedInfo\<close> and the computation in \<^verbatim>\<open>Publisher::PublishDerived\<close>: the origin is the
  oldest upstream origin, the hop count the largest upstream count plus one, saturating at
  65535. The upstream pack is given as the list of (origin stamp, hop count) pairs the two
  local arrays hold; \<open>None\<close> is the null pointer passed for an empty pack.\<close>

record DerivedInfo =
  origin_ns :: nanos
  hops :: u32

fun fold_upstream :: "nanos \<Rightarrow> u32 \<Rightarrow> (nanos \<times> u32) list \<Rightarrow> nanos \<times> u32" where
  "fold_upstream origin max_hops [] = (origin, max_hops)"
| "fold_upstream origin max_hops ((o', h') # rest) =
     fold_upstream (if o' < origin then o' else origin)
                   (if h' > max_hops then h' else max_hops) rest"

definition derive_info :: "(nanos \<times> u32) list \<Rightarrow> DerivedInfo option" where
  "derive_info upstream = (case upstream of
     [] \<Rightarrow> None
   | (o0, h0) # rest \<Rightarrow>
       (case fold_upstream o0 h0 rest of (origin, max_hops) \<Rightarrow>
          Some \<lparr>origin_ns = origin,
                hops = (if max_hops \<ge> 65535 then 65535 else max_hops + 1)\<rparr>))"

lemma fold_upstream_eq:
  "fold_upstream a h us = (fold min (map fst us) a, fold max (map snd us) h)"
proof (induction us arbitrary: a h)
  case (Cons u us)
  obtain o' h' where u: "u = (o', h')" by (cases u)
  have "(if o' < a then o' else a) = min o' a" "(if h' > h then h' else h) = max h' h"
    by (auto simp: min_def max_def)
  then show ?case by (simp only: u fold_upstream.simps Cons.IH list.map fold_simps fst_conv snd_conv)
qed simp

lemma fold_upstream_minmax:
  "fold_upstream a h us = (Min (set (a # map fst us)), Max (set (h # map snd us)))"
  by (simp only: fold_upstream_eq Min.set_eq_fold Max.set_eq_fold)

text \<open>Lineage of a derived publication: its origin stamp is the oldest upstream origin and its hop
  count one more than the largest upstream hop count, saturating at 65535, so that the 32-bit
  count never wraps; an empty upstream pack gives no lineage.\<close>

lemma derive_info_lineage:
  "derive_info us = (if us = [] then None
     else Some \<lparr>origin_ns = Min (fst ` set us),
       hops = of_nat (min 65535 (unat (Max (snd ` set us)) + 1))\<rparr>)"
proof (cases us)
  case (Cons u rest)
  obtain o0 h0 where u: "u = (o0, h0)" by (cases u)
  have f: "fold_upstream o0 h0 rest = (Min (fst ` set us), Max (snd ` set us))"
    unfolding fold_upstream_minmax Cons u by simp
  have h: "(if m \<ge> 65535 then 65535 else m + 1) = of_nat (min 65535 (unat m + 1))" for m :: u32
  proof (cases "m \<ge> 65535")
    case True
    then have "unat m \<ge> 65535" by (simp add: word_le_nat_alt)
    with True show ?thesis by (simp add: min_def)
  next
    case False
    then have "min 65535 (unat m + 1) = unat m + 1" by (simp add: word_le_nat_alt)
    with False show ?thesis by (simp del: min.bounded_iff)
  qed
  have "derive_info us = Some \<lparr>origin_ns = Min (fst ` set us), hops = of_nat (min 65535 (unat (Max (snd ` set us)) + 1))\<rparr>"
    using f unfolding derive_info_def Cons u by (simp only: list.case prod.case h)
  moreover have "us \<noteq> []" using Cons by simp
  ultimately show ?thesis by (simp only: if_False)
qed (simp add: derive_info_def)

end
