(* ===== verification/Xm_Base.thy ===== *)
theory Xm_Base
  imports Xm_Vocabulary
begin

text \<open>
  The xmBase primitives the sources call and do not define: \<^verbatim>\<open>MessageSlot\<close>/\<^verbatim>\<open>MutexMessageSlot\<close>,
  \<^verbatim>\<open>SpscQueue\<close> and the telemetry context codec. They are a parameter of the model (the record
  \<open>XmBase\<close>), and the documented behaviour the sources rely on is stated by three locales: a slot
  returns the last stored record, a ring is a bounded FIFO, and the codec round-trips in 24
  bytes. A reference instance shows that the laws can hold together.
\<close>

section \<open>The operations\<close>

record ('a, 's, 'q, 'c) XmBase =
  slot_new :: 's
  slot_store :: "'s \<Rightarrow> 'a MailRecord \<Rightarrow> 's"
  slot_load :: "'s \<Rightarrow> 'a MailRecord option"
  ring_new :: "u32 \<Rightarrow> 'q"
  ring_push :: "'q \<Rightarrow> 'a MailRecord \<Rightarrow> 'q option"
  ring_pop :: "'q \<Rightarrow> ('a MailRecord \<times> 'q) option"
  ring_full :: "'q \<Rightarrow> bool"
  ring_size :: "'q \<Rightarrow> nat"
  ctx_inject :: "'c \<Rightarrow> u8 list"
  ctx_extract :: "u8 list \<Rightarrow> 'c"
  ctx_null :: 'c

section \<open>The laws\<close>

locale message_slot =
  fixes new_slot :: 's
    and store :: "'s \<Rightarrow> 'r \<Rightarrow> 's"
    and load :: "'s \<Rightarrow> 'r option"
  assumes load_new: "load new_slot = None"
    and load_store: "load (store s r) = Some r"
begin

lemma load_fold_store: "load (fold (\<lambda>r s. store s r) rs s) = (if rs = [] then load s else Some (last rs))"
  by (induction rs arbitrary: s) (simp_all add: load_store)

end

locale spsc_ring =
  fixes new_ring :: "u32 \<Rightarrow> 'q"
    and push :: "'q \<Rightarrow> 'r \<Rightarrow> 'q option"
    and pop :: "'q \<Rightarrow> ('r \<times> 'q) option"
    and full :: "'q \<Rightarrow> bool"
    and sz :: "'q \<Rightarrow> nat"
    and items :: "'q \<Rightarrow> 'r list"
    and capacity :: "'q \<Rightarrow> nat"
  assumes items_new: "items (new_ring d) = []"
    and capacity_new: "d \<noteq> 0 \<Longrightarrow> capacity (new_ring d) = unat d"
    and push_None: "push q r = None \<longleftrightarrow> full q"
    and push_Some: "push q r = Some q' \<Longrightarrow> items q' = items q @ [r] \<and> capacity q' = capacity q"
    and pop_None: "pop q = None \<longleftrightarrow> items q = []"
    and pop_Some: "pop q = Some (r, q') \<Longrightarrow> items q = r # items q' \<and> capacity q' = capacity q"
    and full_iff: "full q \<longleftrightarrow> capacity q \<le> length (items q)"
    and size_items: "sz q = length (items q)"
begin

text \<open>The two facts clients use: a push either appends within the bound or leaves the ring full,
  and a pop takes the oldest item.\<close>

lemma push_SomeD:
  "push q r = Some q' \<Longrightarrow> items q' = items q @ [r] \<and> capacity q' = capacity q \<and> length (items q) < capacity q"
  using push_None [of q r] full_iff [of q] push_Some [of q r q'] by auto

lemma push_cases:
  obtains (full) "push q r = None" "capacity q \<le> length (items q)"
  | (room) q' where "push q r = Some q'" "items q' = items q @ [r]" "capacity q' = capacity q"
      "length (items q) < capacity q"
proof (cases "push q r")
  case None
  then show thesis using full push_None full_iff by blast
next
  case (Some q')
  then show thesis using room push_SomeD by blast
qed

lemma pop_cases:
  obtains (empty) "pop q = None" "items q = []"
  | (item) r q' where "pop q = Some (r, q')" "items q = r # items q'" "capacity q' = capacity q"
  by (metis pop_None pop_Some option.exhaust surj_pair)

end

locale xmbase =
  message_slot "slot_new X" "slot_store X" "slot_load X" +
  spsc_ring "ring_new X" "ring_push X" "ring_pop X" "ring_full X" "ring_size X" items capacity
  for X :: "('a, 's, 'q, 'c) XmBase"
    and items :: "'q \<Rightarrow> 'a MailRecord list"
    and capacity :: "'q \<Rightarrow> nat" +
  assumes extract_inject: "ctx_extract X (ctx_inject X c) = c"
    and length_inject: "length (ctx_inject X c) = kEnvelopeContextSize"

section \<open>A reference instance\<close>

text \<open>The mathematical reading of the laws: a slot is an optional record, a ring a bounded list,
  a context the three words \<^verbatim>\<open>trace.hi | trace.lo | span\<close> in little-endian bytes.\<close>

type_synonym ref_context = "u64 \<times> u64 \<times> u64"

definition ref_push :: "nat \<times> 'r list \<Rightarrow> 'r \<Rightarrow> (nat \<times> 'r list) option" where
  "ref_push q r = (if fst q \<le> length (snd q) then None else Some (fst q, snd q @ [r]))"

definition ref_pop :: "nat \<times> 'r list \<Rightarrow> ('r \<times> (nat \<times> 'r list)) option" where
  "ref_pop q = (case snd q of [] \<Rightarrow> None | r # rs \<Rightarrow> Some (r, (fst q, rs)))"

definition ref_inject :: "ref_context \<Rightarrow> u8 list" where
  "ref_inject c = (case c of (hi, lo, span) \<Rightarrow>
     le_bytes 8 (unat hi) @ le_bytes 8 (unat lo) @ le_bytes 8 (unat span))"

definition ref_extract :: "u8 list \<Rightarrow> ref_context" where
  "ref_extract bs = (of_nat (le_nat (take 8 bs)), of_nat (le_nat (take 8 (drop 8 bs))),
     of_nat (le_nat (drop 16 bs)))"

definition XmBase_ref ::
  "('a, 'a MailRecord option, nat \<times> 'a MailRecord list, ref_context) XmBase" where
  "XmBase_ref = \<lparr>slot_new = None, slot_store = (\<lambda>_ r. Some r), slot_load = (\<lambda>s. s),
     ring_new = (\<lambda>d. (unat d, [])), ring_push = ref_push, ring_pop = ref_pop,
     ring_full = (\<lambda>q. fst q \<le> length (snd q)), ring_size = (\<lambda>q. length (snd q)),
     ctx_inject = ref_inject, ctx_extract = ref_extract, ctx_null = (0, 0, 0)\<rparr>"

abbreviation XmBase_nat :: "(nat, nat MailRecord option, nat \<times> nat MailRecord list, ref_context) XmBase" where
  "XmBase_nat \<equiv> XmBase_ref"

lemma XmBase_ref_simps [simp]:
  "slot_new XmBase_ref = None" "slot_store XmBase_ref s r = Some r" "slot_load XmBase_ref s = s"
  "ring_new XmBase_ref d = (unat d, [])" "ring_push XmBase_ref = ref_push"
  "ring_pop XmBase_ref = ref_pop" "ring_full XmBase_ref q = (fst q \<le> length (snd q))"
  "ring_size XmBase_ref q = length (snd q)" "ctx_inject XmBase_ref = ref_inject"
  "ctx_extract XmBase_ref = ref_extract" "ctx_null XmBase_ref = (0, 0, 0)"
  by (simp_all add: XmBase_ref_def)

interpretation ref: xmbase XmBase_ref snd fst
proof (unfold_locales, goal_cases)
  case (5 q r) then show ?case by (auto simp: ref_push_def)
next
  case (6 q r q') then show ?case by (auto simp: ref_push_def split: if_splits)
next
  case (7 q) then show ?case by (auto simp: ref_pop_def split: list.splits)
next
  case (8 q r q') then show ?case by (auto simp: ref_pop_def split: list.splits)
next
  case (11 c) then show ?case by (cases c) (simp add: ref_inject_def ref_extract_def)
next
  case (12 c) then show ?case by (cases c) (simp add: ref_inject_def kEnvelopeContextSize_def)
qed simp_all

end
