(* ===== verification/Mailbox_Contract.thy ===== *)
theory Mailbox_Contract
  imports Xm_Prelude "HOL-Library.Sublist"
begin

text \<open>
  The latest-only mailbox contract, stated once for both reaches: a new value overwrites the
  unread one, and every value a subscriber never read is charged to it exactly once. The
  abstract side is a ledger of plain numbers; the locale \<open>gap_mailbox\<close> lists what an
  implementation with ordinal-gap accounting does on one delivery and one take, and its theorem
  says that the 64-bit counter is the ledger's.
\<close>

section \<open>The ledger\<close>

datatype ('r, 't) mb_event = Put 'r | Get 't

record ledger =
  delivered :: nat
  seen :: nat
  overwritten :: nat
  consumed :: nat

definition ledger0 :: ledger where
  "ledger0 = \<lparr>delivered = 0, seen = 0, overwritten = 0, consumed = 0\<rparr>"

text \<open>A take that finds something new consumes the newest value and writes off the ones between
  it and the previously consumed one.\<close>

fun ledger_step :: "('r, 't) mb_event \<Rightarrow> ledger \<Rightarrow> ledger" where
  "ledger_step (Put r) L = L\<lparr>delivered := delivered L + 1\<rparr>"
| "ledger_step (Get t) L =
     (if seen L < delivered L
      then L\<lparr>seen := delivered L, overwritten := overwritten L + (delivered L - seen L - 1),
             consumed := consumed L + 1\<rparr>
      else L)"

definition ledger_of :: "('r, 't) mb_event list \<Rightarrow> ledger" where
  "ledger_of es = fold ledger_step es ledger0"

definition pending :: "ledger \<Rightarrow> nat" where
  "pending L = delivered L - seen L"

definition balanced :: "ledger \<Rightarrow> bool" where
  "balanced L \<longleftrightarrow> overwritten L + consumed L = seen L \<and> seen L \<le> delivered L"

lemma balanced_step: "balanced L \<Longrightarrow> balanced (ledger_step e L)"
  by (cases e) (auto simp: balanced_def)

lemma balanced_fold: "balanced L \<Longrightarrow> balanced (fold ledger_step es L)"
  by (induction es arbitrary: L) (simp_all add: balanced_step)

lemma balanced_ledger_of: "balanced (ledger_of es)"
  unfolding ledger_of_def by (rule balanced_fold) (simp add: balanced_def ledger0_def)

lemma ledger_conservation:
  "delivered (ledger_of es) = overwritten (ledger_of es) + consumed (ledger_of es) + pending (ledger_of es)"
  using balanced_ledger_of [of es] by (simp add: balanced_def pending_def)

definition deliveries :: "('r, 't) mb_event list \<Rightarrow> 'r list" where
  "deliveries es = concat (map (\<lambda>e. case e of Put r \<Rightarrow> [r] | Get t \<Rightarrow> []) es)"

lemma deliveries_simps [simp]:
  "deliveries [] = []" "deliveries (Put r # es) = r # deliveries es"
  "deliveries (Get t # es) = deliveries es"
  by (simp_all add: deliveries_def)

lemma deliveries_append [simp]: "deliveries (es @ fs) = deliveries es @ deliveries fs"
  by (simp add: deliveries_def)

lemma ledger_of_snoc [simp]: "ledger_of (es @ [e]) = ledger_step e (ledger_of es)"
  by (simp add: ledger_of_def)

lemma ledger_of_Nil [simp]: "ledger_of [] = ledger0"
  by (simp add: ledger_of_def)

lemma delivered_fold: "delivered (fold ledger_step es L) = delivered L + length (deliveries es)"
proof (induction es arbitrary: L)
  case (Cons e es)
  then show ?case by (cases e) auto
qed simp

lemma delivered_ledger_of: "delivered (ledger_of es) = length (deliveries es)"
  by (simp add: ledger_of_def delivered_fold ledger0_def)

text \<open>The same account read off the history: the values a take has returned, each counted once (\<open>new\<close>: something was delivered since the
  last take), and the values delivered since the last take, which no take has accounted for yet.\<close>

fun values_read :: "bool \<Rightarrow> ('r, 't) mb_event list \<Rightarrow> nat" where
  "values_read new [] = 0"
| "values_read new (Put r # es) = values_read True es"
| "values_read new (Get t # es) = (if new then 1 else 0) + values_read False es"

fun is_put :: "('r, 't) mb_event \<Rightarrow> bool" where
  "is_put (Put r) = True"
| "is_put (Get t) = False"

definition since_last_take :: "('r, 't) mb_event list \<Rightarrow> nat" where
  "since_last_take es = length (takeWhile is_put (rev es))"

lemma consumed_fold:
  "seen L \<le> delivered L \<Longrightarrow> consumed (fold ledger_step es L) = consumed L + values_read (seen L < delivered L) es"
proof (induction es arbitrary: L)
  case (Cons e es)
  then show ?case by (cases e) auto
qed simp

lemma consumed_ledger_of: "consumed (ledger_of es) = values_read False es"
  using consumed_fold [of ledger0 es] by (simp add: ledger_of_def ledger0_def)

lemma pending_ledger_of: "pending (ledger_of es) = since_last_take es"
proof (induction es rule: rev_induct)
  case (snoc e es)
  then show ?case
    using balanced_ledger_of [of es] by (cases e) (auto simp: pending_def since_last_take_def balanced_def)
qed (simp add: pending_def since_last_take_def ledger0_def)

lemma overwritten_ledger_of:
  "overwritten (ledger_of es) + values_read False es + since_last_take es = length (deliveries es)"
  using ledger_conservation [of es] by (simp add: consumed_ledger_of pending_ledger_of delivered_ledger_of)

section \<open>Ordinals\<close>

text \<open>The records delivered after the join carry consecutive ordinals, below the sentinel.\<close>

fun numbered :: "('r \<Rightarrow> u64) \<Rightarrow> nat \<Rightarrow> 'r list \<Rightarrow> bool" where
  "numbered ord n [] = True"
| "numbered ord n (r # rs) \<longleftrightarrow> ord r = of_nat (Suc n) \<and> Suc n < 2 ^ 64 - 1 \<and> numbered ord (Suc n) rs"

lemma of_nat_u64_less: "a < 2 ^ 64 \<Longrightarrow> b < 2 ^ 64 \<Longrightarrow> (of_nat a :: u64) < of_nat b \<longleftrightarrow> a < b"
  by (simp add: word_less_nat_alt unat_of_nat)

lemma of_nat_u64_neq_max:
  assumes "a < 2 ^ 64 - 1"
  shows "(of_nat a :: u64) \<noteq> - 1"
proof
  assume "(of_nat a :: u64) = - 1"
  then have "unat (of_nat a :: u64) = 2 ^ 64 - 1" by (simp add: unat_max_word_u64)
  then show False using assms by (simp add: unat_of_nat)
qed

section \<open>The contract\<close>

fun mb_apply :: "('r \<Rightarrow> 'm \<Rightarrow> 'm) \<Rightarrow> ('t \<Rightarrow> 'm \<Rightarrow> 'm) \<Rightarrow> ('r, 't) mb_event \<Rightarrow> 'm \<Rightarrow> 'm" where
  "mb_apply dlv tk (Put r) m = dlv r m"
| "mb_apply dlv tk (Get t) m = tk t m"

locale gap_mailbox =
  fixes deliver :: "'r \<Rightarrow> 'm \<Rightarrow> 'm"
    and take :: "'t \<Rightarrow> 'm \<Rightarrow> 'm"
    and current :: "'m \<Rightarrow> 'r option"
    and last_ord :: "'m \<Rightarrow> u64"
    and charged :: "'m \<Rightarrow> u64"
    and ord :: "'r \<Rightarrow> u64"
    and ok :: "'m \<Rightarrow> bool"
  assumes ok_deliver: "ok m \<Longrightarrow> ok (deliver r m)"
    and ok_take: "ok m \<Longrightarrow> ok (take t m)"
    and current_deliver: "ok m \<Longrightarrow> current (deliver r m) = Some r"
    and last_deliver: "ok m \<Longrightarrow> last_ord (deliver r m) = (if last_ord m = - 1 then ord r - 1 else last_ord m)"
    and charged_deliver: "ok m \<Longrightarrow> charged (deliver r m) = charged m"
    and current_take: "ok m \<Longrightarrow> current (take t m) = current m"
    and last_take: "ok m \<Longrightarrow> last_ord (take t m) = (case current m of None \<Rightarrow> last_ord m
          | Some r \<Rightarrow> if last_ord m < ord r then ord r else last_ord m)"
    and charged_take: "ok m \<Longrightarrow> charged (take t m) = (case current m of None \<Rightarrow> charged m
          | Some r \<Rightarrow> if last_ord m < ord r then charged m + (ord r - last_ord m - 1) else charged m)"
begin

abbreviation "apply_event \<equiv> mb_apply deliver take"

lemma ok_apply: "ok m \<Longrightarrow> ok (apply_event e m)"
  by (cases e) (simp_all add: ok_deliver ok_take)

text \<open>The simulation between the implementation and the ledger, for a join after ordinal \<open>b\<close>.\<close>

definition simulates :: "nat \<Rightarrow> ledger \<Rightarrow> 'm \<Rightarrow> bool" where
  "simulates b L m \<longleftrightarrow> ok m \<and> balanced L \<and> b + delivered L < 2 ^ 64 - 1 \<and>
     charged m = of_nat (overwritten L) \<and>
     (if delivered L = 0 then last_ord m = - 1
      else last_ord m = of_nat (b + seen L) \<and>
           (\<exists>r. current m = Some r \<and> ord r = of_nat (b + delivered L)))"

lemma simulates_start:
  "ok m \<Longrightarrow> last_ord m = - 1 \<Longrightarrow> charged m = 0 \<Longrightarrow> b < 2 ^ 64 - 1 \<Longrightarrow> simulates b ledger0 m"
  by (simp add: simulates_def ledger0_def balanced_def)

lemma simulates_rebase:
  "simulates b L m \<Longrightarrow> delivered L = 0 \<Longrightarrow> b' < 2 ^ 64 - 1 \<Longrightarrow> simulates b' L m"
  by (simp add: simulates_def)

lemma simulates_charged: "simulates b L m \<Longrightarrow> charged m = of_nat (overwritten L)"
  by (simp add: simulates_def)

lemma simulates_deliver:
  assumes "simulates b L m" "ord r = of_nat (Suc (b + delivered L))" "Suc (b + delivered L) < 2 ^ 64 - 1"
  shows "simulates b (ledger_step (Put r) L) (deliver r m)"
proof -
  have ok: "ok m" and bal: "balanced L" using assms(1) by (simp_all add: simulates_def)
  have "last_ord (deliver r m) = of_nat (b + seen L)"
  proof (cases "delivered L = 0")
    case True
    then have "seen L = 0" "last_ord m = - 1" using assms(1) bal by (simp_all add: simulates_def balanced_def)
    then show ?thesis using ok assms(2) True by (simp add: last_deliver)
  next
    case False
    then have "last_ord m = of_nat (b + seen L)" using assms(1) by (simp add: simulates_def)
    moreover have "b + seen L < 2 ^ 64 - 1" using assms(3) bal by (simp add: balanced_def)
    ultimately show ?thesis using ok of_nat_u64_neq_max [of "b + seen L"] by (simp add: last_deliver)
  qed
  then show ?thesis
    using assms ok balanced_step [OF bal, of "Put r"]
    by (simp add: simulates_def ok_deliver current_deliver charged_deliver)
qed

lemma simulates_take:
  assumes "simulates b L m"
  shows "simulates b (ledger_step (Get t) L) (take t m)"
proof (cases "delivered L = 0")
  case True
  then have "last_ord m = - 1" "ok m" "balanced L" using assms by (simp_all add: simulates_def)
  moreover have "\<not> (- 1 :: u64) < w" for w by simp
  ultimately show ?thesis
    using assms True by (auto simp: simulates_def ok_take last_take charged_take split: option.splits)
next
  case False
  obtain r where cur: "current m = Some r" "ord r = of_nat (b + delivered L)"
    and last: "last_ord m = of_nat (b + seen L)" and ok: "ok m" and bal: "balanced L"
    and bound: "b + delivered L < 2 ^ 64 - 1"
    using assms False by (auto simp: simulates_def)
  have le: "seen L \<le> delivered L" using bal by (simp add: balanced_def)
  have less: "last_ord m < ord r \<longleftrightarrow> seen L < delivered L"
    unfolding cur last using bound le by (subst of_nat_u64_less) auto
  have gap: "ord r - last_ord m - 1 = of_nat (delivered L - seen L - 1)" if "seen L < delivered L"
    using that by (simp add: cur last of_nat_diff algebra_simps)
  have bal': "balanced (ledger_step (Get t) L)" using bal by (rule balanced_step)
  show ?thesis
  proof (cases "seen L < delivered L")
    case True
    then show ?thesis
      using assms False ok bal' less gap cur bound
      by (simp add: simulates_def ok_take last_take charged_take current_take)
  next
    case eq: False
    then show ?thesis
      using assms False ok less cur
      by (simp add: simulates_def ok_take last_take charged_take current_take)
  qed
qed

lemma simulates_run:
  assumes "simulates b L m" "numbered ord (b + delivered L) (deliveries es)"
  shows "simulates b (fold ledger_step es L) (fold apply_event es m)"
  using assms
proof (induction es arbitrary: L m)
  case (Cons e es)
  show ?case
  proof (cases e)
    case (Put r)
    with Cons show ?thesis using simulates_deliver [of b L m r] by simp
  next
    case (Get t)
    have "simulates b (ledger_step (Get t) L) (take t m)"
      using Cons.prems(1) by (rule simulates_take)
    moreover have "delivered (ledger_step (Get t) L) = delivered L" by simp
    ultimately show ?thesis using Cons.IH Cons.prems(2) Get by simp
  qed
qed simp

text \<open>Exact reconciliation: started at a join with no baseline and nothing charged, after any
  interleaving of deliveries and takes the counter is the ledger's overwritten count.\<close>

lemma charged_exact:
  assumes "ok m" "last_ord m = - 1" "charged m = 0" "b < 2 ^ 64 - 1"
    and "numbered ord b (deliveries es)"
  shows "charged (fold apply_event es m) = of_nat (overwritten (ledger_of es))"
proof -
  have "simulates b ledger0 m"
    using assms(1-4) by (rule simulates_start)
  from simulates_run [OF this, of es] assms(5)
  show ?thesis by (simp add: simulates_def ledger_of_def ledger0_def)
qed

lemma newest_kept:
  assumes "ok m" "deliveries es \<noteq> []"
  shows "current (fold apply_event es m) = Some (last (deliveries es))"
proof -
  have ok_run: "ok (fold apply_event xs m)" for xs
    using assms(1) by (induction xs rule: rev_induct) (simp_all add: ok_apply)
  show ?thesis using assms(2)
  proof (induction es rule: rev_induct)
    case (snoc e es)
    show ?case
    proof (cases e)
      case (Put r)
      then show ?thesis by (simp add: current_deliver ok_run deliveries_def)
    next
      case (Get t)
      then show ?thesis using snoc by (simp add: current_take ok_run deliveries_def)
    qed
  qed simp
qed

end

section \<open>The bounded-queue contract\<close>

text \<open>A run of deliveries and takes, with what the takes returned.\<close>

fun take_run :: "('r \<Rightarrow> 'm \<Rightarrow> 'm) \<Rightarrow> ('t \<Rightarrow> 'm \<Rightarrow> 'o \<times> 'm) \<Rightarrow> ('r, 't) mb_event list \<Rightarrow> 'm \<Rightarrow> 'o list \<times> 'm" where
  "take_run dlv tk [] m = ([], m)"
| "take_run dlv tk (Put r # es) m = take_run dlv tk es (dlv r m)"
| "take_run dlv tk (Get t # es) m =
     (case tk t m of (out, m1) \<Rightarrow> (case take_run dlv tk es m1 of (outs, m2) \<Rightarrow> (out # outs, m2)))"

lemma take_run_Get [simp]:
  "snd (take_run dlv tk (Get t # es) m) = snd (take_run dlv tk es (snd (tk t m)))"
  "fst (take_run dlv tk (Get t # es) m) = fst (tk t m) # fst (take_run dlv tk es (snd (tk t m)))"
  by (simp_all add: split_beta)

declare take_run.simps(3) [simp del]

text \<open>The reference queue of capacity \<open>n\<close>: what its takes return, what it holds at the end and how many values it dropped. A value that
  finds \<open>n\<close> values waiting is dropped; the waiting ones stay.\<close>

fun ref_queue :: "nat \<Rightarrow> ('r, 't) mb_event list \<Rightarrow> 'r list \<Rightarrow> 'r option list \<times> 'r list \<times> nat" where
  "ref_queue n [] q = ([], q, 0)"
| "ref_queue n (Put r # es) q =
     (if length q < n then ref_queue n es (q @ [r])
      else case ref_queue n es q of (outs, q', d) \<Rightarrow> (outs, q', Suc d))"
| "ref_queue n (Get t # es) [] = (case ref_queue n es [] of (outs, q', d) \<Rightarrow> (None # outs, q', d))"
| "ref_queue n (Get t # es) (r # q) = (case ref_queue n es q of (outs, q', d) \<Rightarrow> (Some r # outs, q', d))"

lemma ref_queue_bound: "length q \<le> n \<Longrightarrow> ref_queue n es q = (outs, q', d) \<Longrightarrow> length q' \<le> n"
  by (induction n es q arbitrary: outs q' d rule: ref_queue.induct) (auto split: if_splits prod.splits)

text \<open>What a drop-newest bounded queue promises: a delivery appends or is dropped and counted, a
  take returns the oldest value. \<open>val\<close> reads a take's result, \<open>pay\<close> what a record shows.\<close>

locale drop_newest_queue =
  fixes deliver :: "'r \<Rightarrow> 'm \<Rightarrow> 'm"
    and take :: "'t \<Rightarrow> 'm \<Rightarrow> 'o \<times> 'm"
    and content :: "'m \<Rightarrow> 'r list"
    and cap :: "'m \<Rightarrow> nat"
    and takes :: "'m \<Rightarrow> u64"
    and drops :: "'m \<Rightarrow> u64"
    and val :: "'o \<Rightarrow> 'p option"
    and pay :: "'r \<Rightarrow> 'p"
    and ok :: "'m \<Rightarrow> bool"
  assumes ok_deliver: "ok m \<Longrightarrow> ok (deliver r m)"
    and ok_take: "ok m \<Longrightarrow> ok (snd (take t m))"
    and deliver_room: "ok m \<Longrightarrow> length (content m) < cap m \<Longrightarrow>
          content (deliver r m) = content m @ [r] \<and> drops (deliver r m) = drops m"
    and deliver_full: "ok m \<Longrightarrow> cap m \<le> length (content m) \<Longrightarrow>
          content (deliver r m) = content m \<and> drops (deliver r m) = drops m + 1"
    and deliver_frame: "ok m \<Longrightarrow> takes (deliver r m) = takes m \<and> cap (deliver r m) = cap m"
    and take_empty: "ok m \<Longrightarrow> content m = [] \<Longrightarrow>
          val (fst (take t m)) = None \<and> content (snd (take t m)) = [] \<and> takes (snd (take t m)) = takes m"
    and take_item: "ok m \<Longrightarrow> content m = r # rs \<Longrightarrow>
          val (fst (take t m)) = Some (pay r) \<and> content (snd (take t m)) = rs \<and>
          takes (snd (take t m)) = takes m + 1"
    and take_frame: "ok m \<Longrightarrow> drops (snd (take t m)) = drops m \<and> cap (snd (take t m)) = cap m"
begin

lemma deliver_balance:
  assumes "ok m"
  shows "drops (deliver r m) + of_nat (length (content (deliver r m))) =
     drops m + of_nat (length (content m)) + 1"
  using assms deliver_room [of m r] deliver_full [of m r]
  by (cases "length (content m) < cap m") (simp_all add: not_less)

lemma take_balance:
  assumes "ok m"
  shows "takes (snd (take t m)) + of_nat (length (content (snd (take t m)))) =
     takes m + of_nat (length (content m))"
  using assms take_empty [of m t] take_item [of m _ _ t] by (cases "content m") simp_all

text \<open>Such an implementation refines the reference queue: the same answers, the same content, the same counts.\<close>

lemma run_refines:
  assumes "ok m" "ref_queue (cap m) es (content m) = (outs, q, d)"
  shows "map val (fst (take_run deliver take es m)) = map (map_option pay) outs \<and>
    content (snd (take_run deliver take es m)) = q \<and>
    drops (snd (take_run deliver take es m)) = drops m + of_nat d \<and>
    takes (snd (take_run deliver take es m)) = takes m + of_nat (length (filter (\<lambda>out. out \<noteq> None) outs))"
  using assms
proof (induction es arbitrary: m outs q d)
  case (Cons e es)
  show ?case
  proof (cases e)
    case (Put r)
    then show ?thesis
      using Cons deliver_room [of m r] deliver_full [of m r] deliver_frame [of m r] ok_deliver [of m r]
      by (cases "length (content m) < cap m") (auto simp: not_less split: prod.splits)
  next
    case (Get t)
    note frame = take_frame [OF Cons.prems(1), of t] ok_take [OF Cons.prems(1), of t]
    show ?thesis
    proof (cases "content m")
      case Nil
      with Cons Get frame take_empty [OF Cons.prems(1) Nil, of t] show ?thesis by (auto split: prod.splits)
    next
      case item: (Cons r rs)
      with Cons Get frame take_item [OF Cons.prems(1) item, of t] show ?thesis by (auto split: prod.splits)
    qed
  qed
qed simp

lemma run_conservation:
  assumes "ok m"
  shows "ok (snd (take_run deliver take es m)) \<and>
    takes (snd (take_run deliver take es m)) + drops (snd (take_run deliver take es m)) +
      of_nat (length (content (snd (take_run deliver take es m)))) =
    takes m + drops m + of_nat (length (content m) + length (deliveries es))"
  using assms
proof (induction es arbitrary: m)
  case (Cons e es)
  show ?case
  proof (cases e)
    case (Put r)
    have "takes (deliver r m) = takes m" using Cons.prems deliver_frame by simp
    with Cons.IH [OF ok_deliver [OF Cons.prems], of r] deliver_balance [OF Cons.prems, of r] Put
    show ?thesis by (simp add: algebra_simps)
  next
    case (Get t)
    have "drops (snd (take t m)) = drops m" using Cons.prems take_frame by simp
    with Cons.IH [OF ok_take [OF Cons.prems], of t] take_balance [OF Cons.prems, of t] Get
    show ?thesis by (simp add: algebra_simps)
  qed
qed simp

lemma run_fifo:
  assumes "ok m"
  shows "subseq (List.map_filter val (fst (take_run deliver take es m)) @
                 map pay (content (snd (take_run deliver take es m))))
                (map pay (content m @ deliveries es))"
  using assms
proof (induction es arbitrary: m)
  case (Cons e es)
  show ?case
  proof (cases e)
    case (Put r)
    have "subseq (content (deliver r m)) (content m @ [r])"
      using Cons.prems deliver_room [of m r] deliver_full [of m r]
      by (cases "length (content m) < cap m") (simp_all add: not_less subseq_rev_drop_many)
    then have "subseq (map pay (content (deliver r m) @ deliveries es)) (map pay (content m @ r # deliveries es))"
      using list_emb_append_mono [of "(=)" "content (deliver r m)" "content m @ [r]" "deliveries es" "deliveries es"]
      by (intro subseq_map) simp
    with Cons.IH [OF ok_deliver [OF Cons.prems], of r] Put show ?thesis
      by (auto intro: subseq_order.trans)
  next
    case (Get t)
    show ?thesis
    proof (cases "content m")
      case Nil
      with Cons.IH [OF ok_take [OF Cons.prems], of t] take_empty [OF Cons.prems Nil, of t] Get
      show ?thesis by (simp add: map_filter_simps)
    next
      case (Cons r rs)
      with Cons.IH [OF ok_take [OF Cons.prems], of t] take_item [OF Cons.prems Cons, of t] Get
      show ?thesis by (simp add: map_filter_simps)
    qed
  qed
qed (simp add: map_filter_simps)

end

end
