(* ===== verification/Sub_Core.thy ===== *)
theory Sub_Core
  imports Xm_Base Mailbox_Contract
begin

text \<open>
  One subscriber's state, \<^verbatim>\<open>SubCore<T>\<close> of \<^verbatim>\<open>include/xmmsg/detail/in_process.hpp\<close>: its own
  mailbox or ring, the always-on counters, the ordinal-gap accounting and the staleness latch;
  what one publish does to it (the body of the fan-out loop of \<^verbatim>\<open>Topic::Deliver\<close>) and the two
  take verbs. Counters and ordinals keep their 64-bit width. Telemetry instruments are calls
  into xmBase: the model records the calls each operation makes, in order.
\<close>

section \<open>State\<close>

datatype sub_instrument = T_take | T_drop | T_overwrite | T_deadline_miss
  | T_take_age | T_queue_depth | T_hop_latency

datatype tele = Add nat | Record int | Set nat

type_synonym 'i tele_log = "('i \<times> tele) list"

record ('s, 'q) SubCore =
  sub_history :: History
  sub_deadline :: "nanos option"
  latest :: "'s option"
  queue :: "'q option"
  take_count :: u64
  drop_count :: u64
  overwrite_count :: u64
  deadline_miss_count :: u64
  last_consumed_ordinal :: u64
  stale_latched :: bool
  sub_telemetry :: "sub_instrument tele_log"

definition kBaselineUnset :: u64 where
  "kBaselineUnset = - 1"

definition sub_instrument_name :: "string \<Rightarrow> sub_instrument \<Rightarrow> string" where
  "sub_instrument_name topic i = (case i of
     T_take \<Rightarrow> ''messaging.sub.'' @ topic @ ''.take_count''
   | T_drop \<Rightarrow> ''messaging.sub.'' @ topic @ ''.drop_count''
   | T_overwrite \<Rightarrow> ''messaging.sub.'' @ topic @ ''.overwrite_count''
   | T_deadline_miss \<Rightarrow> ''messaging.sub.'' @ topic @ ''.deadline_miss_count''
   | T_take_age \<Rightarrow> ''messaging.sub.'' @ topic @ ''.take_age_us''
   | T_queue_depth \<Rightarrow> ''messaging.sub.'' @ topic @ ''.queue_depth''
   | T_hop_latency \<Rightarrow> ''messaging.hop.'' @ topic @ ''.hop_latency_us'')"

definition SubCore_init :: "('a, 's, 'q, 'c) XmBase \<Rightarrow> Qos \<Rightarrow> ('s, 'q) SubCore" where
  "SubCore_init X qos = \<lparr>sub_history = history qos, sub_deadline = deadline qos,
     latest = (if hist_kind (history qos) = kLatestOnly then Some (slot_new X) else None),
     queue = (if hist_kind (history qos) = kLatestOnly then None
              else Some (ring_new X (hist_depth (history qos)))),
     take_count = 0, drop_count = 0, overwrite_count = 0, deadline_miss_count = 0,
     last_consumed_ordinal = kBaselineUnset, stale_latched = False, sub_telemetry = []\<rparr>"

abbreviation emit :: "sub_instrument \<Rightarrow> tele \<Rightarrow> ('s, 'q) SubCore \<Rightarrow> ('s, 'q) SubCore" where
  "emit i t sub \<equiv> sub\<lparr>sub_telemetry := sub_telemetry sub @ [(i, t)]\<rparr>"

section \<open>Delivery\<close>

text \<open>The first delivery into a fresh mailbox stamps the join point as the ordinal before it.\<close>

definition stamp_baseline :: "u64 \<Rightarrow> ('s, 'q) SubCore \<Rightarrow> ('s, 'q) SubCore" where
  "stamp_baseline ord sub =
     (if last_consumed_ordinal sub = kBaselineUnset then sub\<lparr>last_consumed_ordinal := ord - 1\<rparr> else sub)"

definition deliver_core ::
  "('a, 's, 'q, 'c) XmBase \<Rightarrow> 'a MailRecord \<Rightarrow> ('s, 'q) SubCore \<Rightarrow> ('s, 'q) SubCore" where
  "deliver_core X r sub = (case latest sub of
     Some m \<Rightarrow> (stamp_baseline (ordinal r) sub)\<lparr>latest := Some (slot_store X m r)\<rparr>
   | None \<Rightarrow> (case queue sub of
       Some q \<Rightarrow> (case ring_push X q r of
           Some q' \<Rightarrow> emit T_queue_depth (Set (ring_size X q')) (sub\<lparr>queue := Some q'\<rparr>)
         | None \<Rightarrow> emit T_drop (Add 1) (sub\<lparr>drop_count := drop_count sub + 1\<rparr>))
     | None \<Rightarrow> sub))"

section \<open>Takes\<close>

definition is_stale :: "nanos option \<Rightarrow> nanos \<Rightarrow> 'a MailRecord \<Rightarrow> bool" where
  "is_stale dl now r = (case dl of None \<Rightarrow> False
     | Some d \<Rightarrow> now - publish_stamp_ns (envelope r) > d)"

definition fill_sample ::
  "('a, 's, 'q, 'c) XmBase \<Rightarrow> nanos option \<Rightarrow> nanos \<Rightarrow> 'a MailRecord \<Rightarrow> ('a, 'c) Sample" where
  "fill_sample X dl now r = \<lparr>smp_value = Some (payload r),
     smp_context = ctx_extract X (context_bytes (envelope r)),
     smp_stamp = publish_stamp_ns (envelope r), smp_origin_stamp = origin_stamp_ns (envelope r),
     smp_hop_count = hop_count (envelope r),
     smp_freshness = (if is_stale dl now r then kStale else kFresh), smp_age_class = kMeasured\<rparr>"

text \<open>\<^verbatim>\<open>duration_cast<microseconds>\<close> truncates towards zero.\<close>

definition micros :: "nanos \<Rightarrow> int" where
  "micros d = sgn d * (\<bar>d\<bar> div 1000)"

definition note_take :: "nanos \<Rightarrow> 'a MailRecord \<Rightarrow> ('s, 'q) SubCore \<Rightarrow> ('s, 'q) SubCore" where
  "note_take now r sub =
     (let age_us = micros (now - publish_stamp_ns (envelope r))
      in emit T_hop_latency (Record age_us) (emit T_take_age (Record age_us)
           (emit T_take (Add 1) (sub\<lparr>take_count := take_count sub + 1\<rparr>))))"

definition note_gap :: "u64 \<Rightarrow> ('s, 'q) SubCore \<Rightarrow> ('s, 'q) SubCore" where
  "note_gap ord sub =
     (let last = last_consumed_ordinal sub
      in if ord > last then
           let gap = ord - last - 1;
               sub1 = (if gap > 0
                 then emit T_overwrite (Add (unat gap)) (sub\<lparr>overwrite_count := overwrite_count sub + gap\<rparr>)
                 else sub)
           in sub1\<lparr>last_consumed_ordinal := ord\<rparr>
         else sub)"

definition note_staleness :: "bool \<Rightarrow> ('s, 'q) SubCore \<Rightarrow> ('s, 'q) SubCore" where
  "note_staleness stale sub =
     (if stale then
        (if stale_latched sub then sub
         else emit T_deadline_miss (Add 1)
                (sub\<lparr>stale_latched := True, deadline_miss_count := deadline_miss_count sub + 1\<rparr>))
      else sub\<lparr>stale_latched := False\<rparr>)"

definition TakeLatest ::
  "('a, 's, 'q, 'c) XmBase \<Rightarrow> nanos \<Rightarrow> ('s, 'q) SubCore \<Rightarrow> ('a, 'c) Sample \<times> ('s, 'q) SubCore" where
  "TakeLatest X now sub = (case latest sub of
     None \<Rightarrow> (Sample_init (ctx_null X), sub)
   | Some m \<Rightarrow> (case slot_load X m of
       None \<Rightarrow> (Sample_init (ctx_null X), sub)
     | Some r \<Rightarrow> (fill_sample X (sub_deadline sub) now r,
         note_staleness (is_stale (sub_deadline sub) now r)
           (note_gap (ordinal r) (note_take now r sub)))))"

definition TryTake ::
  "('a, 's, 'q, 'c) XmBase \<Rightarrow> nanos \<Rightarrow> ('s, 'q) SubCore \<Rightarrow> ('a, 'c) Sample \<times> ('s, 'q) SubCore" where
  "TryTake X now sub = (case queue sub of
     None \<Rightarrow> (Sample_init (ctx_null X), sub)
   | Some q \<Rightarrow> (case ring_pop X q of
       None \<Rightarrow> (Sample_init (ctx_null X), sub)
     | Some (r, q') \<Rightarrow> (fill_sample X (sub_deadline sub) now r,
         note_staleness (is_stale (sub_deadline sub) now r)
           (note_take now r
             (emit T_queue_depth (Set (ring_size X q')) (sub\<lparr>queue := Some q'\<rparr>))))))"

section \<open>Frames\<close>

lemma note_take_simps [simp]:
  "latest (note_take now r sub) = latest sub" "queue (note_take now r sub) = queue sub"
  "sub_deadline (note_take now r sub) = sub_deadline sub"
  "sub_history (note_take now r sub) = sub_history sub"
  "take_count (note_take now r sub) = take_count sub + 1"
  "drop_count (note_take now r sub) = drop_count sub"
  "overwrite_count (note_take now r sub) = overwrite_count sub"
  "deadline_miss_count (note_take now r sub) = deadline_miss_count sub"
  "last_consumed_ordinal (note_take now r sub) = last_consumed_ordinal sub"
  "stale_latched (note_take now r sub) = stale_latched sub"
  by (simp_all add: note_take_def Let_def)

lemma note_gap_simps [simp]:
  "latest (note_gap ord sub) = latest sub" "queue (note_gap ord sub) = queue sub"
  "sub_deadline (note_gap ord sub) = sub_deadline sub"
  "sub_history (note_gap ord sub) = sub_history sub"
  "take_count (note_gap ord sub) = take_count sub"
  "drop_count (note_gap ord sub) = drop_count sub"
  "deadline_miss_count (note_gap ord sub) = deadline_miss_count sub"
  "stale_latched (note_gap ord sub) = stale_latched sub"
  "last_consumed_ordinal (note_gap ord sub) =
     (if last_consumed_ordinal sub < ord then ord else last_consumed_ordinal sub)"
  "overwrite_count (note_gap ord sub) = (if last_consumed_ordinal sub < ord
     then overwrite_count sub + (ord - last_consumed_ordinal sub - 1) else overwrite_count sub)"
  by (simp_all add: note_gap_def Let_def word_gt_0)

lemma note_staleness_simps [simp]:
  "latest (note_staleness b sub) = latest sub" "queue (note_staleness b sub) = queue sub"
  "sub_deadline (note_staleness b sub) = sub_deadline sub"
  "sub_history (note_staleness b sub) = sub_history sub"
  "take_count (note_staleness b sub) = take_count sub"
  "drop_count (note_staleness b sub) = drop_count sub"
  "overwrite_count (note_staleness b sub) = overwrite_count sub"
  "last_consumed_ordinal (note_staleness b sub) = last_consumed_ordinal sub"
  "stale_latched (note_staleness b sub) = b"
  "deadline_miss_count (note_staleness b sub) =
     deadline_miss_count sub + (if b \<and> \<not> stale_latched sub then 1 else 0)"
  by (simp_all add: note_staleness_def)

lemma fill_sample_simps [simp]:
  "smp_value (fill_sample X dl now r) = Some (payload r)"
  "smp_stamp (fill_sample X dl now r) = publish_stamp_ns (envelope r)"
  "smp_origin_stamp (fill_sample X dl now r) = origin_stamp_ns (envelope r)"
  "smp_hop_count (fill_sample X dl now r) = hop_count (envelope r)"
  "smp_context (fill_sample X dl now r) = ctx_extract X (context_bytes (envelope r))"
  "smp_freshness (fill_sample X dl now r) = (if is_stale dl now r then kStale else kFresh)"
  "smp_age_class (fill_sample X dl now r) = kMeasured"
  by (simp_all add: fill_sample_def)

section \<open>A subscriber core is a latest-only mailbox and a drop-newest queue\<close>

text \<open>What a take shows of a record: payload, stamps and hop count.\<close>

definition shown_record :: "'a MailRecord \<Rightarrow> 'a \<times> nanos \<times> nanos \<times> u32" where
  "shown_record r = (payload r, publish_stamp_ns (envelope r), origin_stamp_ns (envelope r), hop_count (envelope r))"

definition shown_sample :: "('a, 'c) Sample \<Rightarrow> ('a \<times> nanos \<times> nanos \<times> u32) option" where
  "shown_sample s = map_option (\<lambda>v. (v, smp_stamp s, smp_origin_stamp s, smp_hop_count s)) (smp_value s)"

lemma shown_simps [simp]:
  "shown_sample (fill_sample X dl now r) = Some (shown_record r)"
  "shown_sample (Sample_init c) = None"
  by (simp_all add: shown_sample_def shown_record_def Sample_init_def)

sublocale xmbase \<subseteq> mailbox: gap_mailbox "deliver_core X" "\<lambda>now m. snd (TakeLatest X now m)"
  "\<lambda>m. Option.bind (latest m) (slot_load X)" last_consumed_ordinal overwrite_count ordinal
  "\<lambda>m. latest m \<noteq> None"
  by unfold_locales
    (auto simp: deliver_core_def TakeLatest_def stamp_baseline_def kBaselineUnset_def load_store
      split: option.splits)

sublocale xmbase \<subseteq> fifo: drop_newest_queue "deliver_core X" "TryTake X"
  "\<lambda>m. items (the (queue m))" "\<lambda>m. capacity (the (queue m))" take_count drop_count
  shown_sample shown_record "\<lambda>m. latest m = None \<and> queue m \<noteq> None"
  by unfold_locales
    (auto simp: deliver_core_def TryTake_def pop_None push_None full_iff
      split: option.splits dest: push_SomeD pop_Some)

context xmbase
begin

lemmas core_charged_exact = mailbox.charged_exact
lemmas core_newest_kept = mailbox.newest_kept
lemmas core_run_conservation = fifo.run_conservation
lemmas core_run_fifo = fifo.run_fifo
lemmas core_run_refines = fifo.run_refines

end

abbreviation latest_step ::
  "('a, 's, 'q, 'c) XmBase \<Rightarrow> ('a MailRecord, nanos) mb_event \<Rightarrow> ('s, 'q) SubCore \<Rightarrow> ('s, 'q) SubCore" where
  "latest_step X \<equiv> mb_apply (deliver_core X) (\<lambda>now c. snd (TakeLatest X now c))"

section \<open>Counters and instruments agree\<close>

text \<open>\<open>added i log\<close>: the total an instrument has been incremented by.\<close>

fun added :: "'i \<Rightarrow> 'i tele_log \<Rightarrow> nat" where
  "added i [] = 0"
| "added i ((j, Add n) # log) = (if j = i then n else 0) + added i log"
| "added i (_ # log) = added i log"

lemma added_append [simp]: "added i (xs @ ys) = added i xs + added i ys"
  by (induction i xs rule: added.induct) simp_all

definition tele_agrees :: "('s, 'q) SubCore \<Rightarrow> bool" where
  "tele_agrees sub \<longleftrightarrow>
     take_count sub = of_nat (added T_take (sub_telemetry sub)) \<and>
     drop_count sub = of_nat (added T_drop (sub_telemetry sub)) \<and>
     overwrite_count sub = of_nat (added T_overwrite (sub_telemetry sub)) \<and>
     deadline_miss_count sub = of_nat (added T_deadline_miss (sub_telemetry sub))"

lemma tele_agrees_init [wf_intros]: "tele_agrees (SubCore_init X qos)"
  by (simp add: tele_agrees_def SubCore_init_def)

lemma tele_agrees_latest [simp]: "tele_agrees (sub\<lparr>latest := m\<rparr>) = tele_agrees sub"
  by (simp add: tele_agrees_def)

lemma tele_agrees_note_take [wf_intros]: "tele_agrees sub \<Longrightarrow> tele_agrees (note_take now r sub)"
  by (simp add: tele_agrees_def note_take_def Let_def)

lemma tele_agrees_note_gap [wf_intros]: "tele_agrees sub \<Longrightarrow> tele_agrees (note_gap ord sub)"
  by (simp add: tele_agrees_def note_gap_def Let_def)

lemma tele_agrees_note_staleness [wf_intros]: "tele_agrees sub \<Longrightarrow> tele_agrees (note_staleness b sub)"
  by (simp add: tele_agrees_def note_staleness_def)

lemma tele_agrees_emit_depth [wf_intros]:
  "tele_agrees sub \<Longrightarrow>
   tele_agrees (sub\<lparr>queue := q, sub_telemetry := sub_telemetry sub @ [(T_queue_depth, Set n)]\<rparr>)"
  by (simp add: tele_agrees_def)

lemma tele_agrees_deliver [wf_intros]: "tele_agrees sub \<Longrightarrow> tele_agrees (deliver_core X r sub)"
  by (simp add: tele_agrees_def deliver_core_def stamp_baseline_def split: option.splits)

lemma tele_agrees_TakeLatest [wf_intros]: "tele_agrees sub \<Longrightarrow> tele_agrees (snd (TakeLatest X now sub))"
  by (auto simp: TakeLatest_def intro!: wf_intros split: option.splits)

lemma tele_agrees_TryTake [wf_intros]: "tele_agrees sub \<Longrightarrow> tele_agrees (snd (TryTake X now sub))"
  by (auto simp: TryTake_def intro!: wf_intros split: option.splits)

section \<open>Deadline misses are the onsets of staleness\<close>

text \<open>The verdict sequence of a run of takes; \<open>onsets p vs\<close> counts the verdicts that turn from
  not stale to stale, starting from \<open>p\<close>. A \<^verbatim>\<open>kNone\<close> take has no verdict.\<close>

fun onsets :: "bool \<Rightarrow> Freshness list \<Rightarrow> nat" where
  "onsets p [] = 0"
| "onsets p (kStale # vs) = (if p then 0 else 1) + onsets True vs"
| "onsets p (kFresh # vs) = onsets False vs"
| "onsets p (kNone # vs) = onsets p vs"

datatype take_verb = Latest | Try

definition take_with ::
  "('a, 's, 'q, 'c) XmBase \<Rightarrow> take_verb \<times> nanos \<Rightarrow> ('s, 'q) SubCore \<Rightarrow> ('a, 'c) Sample \<times> ('s, 'q) SubCore" where
  "take_with X v sub = (case v of (Latest, now) \<Rightarrow> TakeLatest X now sub | (Try, now) \<Rightarrow> TryTake X now sub)"

lemma take_verdict:
  "smp_freshness (fst (take_with X v sub)) = kNone \<and> snd (take_with X v sub) = sub \<or>
   (\<exists>stale. smp_freshness (fst (take_with X v sub)) = (if stale then kStale else kFresh) \<and>
      stale_latched (snd (take_with X v sub)) = stale \<and>
      deadline_miss_count (snd (take_with X v sub)) =
        deadline_miss_count sub + (if stale \<and> \<not> stale_latched sub then 1 else 0))"
  by (auto simp: take_with_def TakeLatest_def TryTake_def Sample_init_def
      split: take_verb.splits prod.splits option.splits)

lemma deliver_verdict [simp]:
  "stale_latched (deliver_core X r sub) = stale_latched sub"
  "deadline_miss_count (deliver_core X r sub) = deadline_miss_count sub"
  by (simp_all add: deliver_core_def stamp_baseline_def split: option.splits)

lemma deadline_miss_run:
  "deadline_miss_count (snd (take_run (deliver_core X) (take_with X) es sub)) =
   deadline_miss_count sub +
     of_nat (onsets (stale_latched sub) (map smp_freshness (fst (take_run (deliver_core X) (take_with X) es sub))))"
proof (induction es arbitrary: sub)
  case (Cons e es)
  show ?case
  proof (cases e)
    case (Get v)
    from take_verdict [of X v sub] Get show ?thesis by (auto simp: Cons.IH)
  qed (simp add: Cons.IH)
qed simp

section \<open>Properties\<close>

lemma TakeLatest_bind:
  "Option.bind (latest sub) (slot_load X) = Some r \<Longrightarrow> fst (TakeLatest X now sub) = fill_sample X (sub_deadline sub) now r"
  by (auto simp: TakeLatest_def bind_eq_Some_conv)

lemma latest_run_deadline [simp]: "sub_deadline (fold (latest_step X) es sub) = sub_deadline sub"
proof (induction es arbitrary: sub)
  case (Cons e es)
  have "sub_deadline (latest_step X e sub) = sub_deadline sub"
    by (cases e) (simp_all add: deliver_core_def stamp_baseline_def TakeLatest_def split: option.splits)
  with Cons show ?case by simp
qed simp

text \<open>C31. A latest-only take returns the newest delivered record, whatever deliveries and takes came before: its payload, its
  original publish and origin stamps, its hop count and its trace context (the one whose wire form the envelope
  carries), with the verdict stale exactly when there is a wiring-time deadline and the record is older than it.\<close>

theorem TakeLatest_newest:
  assumes "xmbase X items capacity" "latest sub \<noteq> None" "deliveries es \<noteq> []"
    and "smp = fst (TakeLatest X now (fold (latest_step X) es sub))" "r = last (deliveries es)"
  shows "smp_value smp = Some (payload r) \<and> smp_stamp smp = publish_stamp_ns (envelope r) \<and>
     smp_origin_stamp smp = origin_stamp_ns (envelope r) \<and> smp_hop_count smp = hop_count (envelope r) \<and>
     smp_context smp = ctx_extract X (context_bytes (envelope r)) \<and>
     (\<forall>ctx. context_bytes (envelope r) = ctx_inject X ctx \<longrightarrow> smp_context smp = ctx) \<and>
     smp_freshness smp = (case sub_deadline sub of None \<Rightarrow> kFresh
       | Some d \<Rightarrow> if publish_stamp_ns (envelope r) + d < now then kStale else kFresh)"
proof -
  have "Option.bind (latest (fold (latest_step X) es sub)) (slot_load X) = Some r"
    using xmbase.core_newest_kept [OF assms(1-3)] assms(5) by simp
  from TakeLatest_bind [OF this] assms(4) have smp: "smp = fill_sample X (sub_deadline sub) now r" by simp
  have "smp_context smp = ctx" if "context_bytes (envelope r) = ctx_inject X ctx" for ctx
    using that xmbase.extract_inject [OF assms(1)] by (simp add: smp)
  then show ?thesis by (auto simp: smp is_stale_def split: option.splits)
qed

definition demo_mail :: "nat \<Rightarrow> nat MailRecord" where
  "demo_mail n = \<lparr>envelope = \<lparr>context_bytes = ctx_inject XmBase_nat (1, 2, 3), publish_stamp_ns = 1000 * int n,
     origin_stamp_ns = 1000 * int n, hop_count = 0, flags = 0\<rparr>, ordinal = of_nat n, payload = 10 * n\<rparr>"

theorem TakeLatest_newest_witness:
  "\<exists>smp. smp = fst (TakeLatest XmBase_nat 5000 (fold (latest_step XmBase_nat)
       [Put (demo_mail 1), Get 1500, Put (demo_mail 2), Put (demo_mail 3)] (SubCore_init XmBase_nat (Qos_default\<lparr>deadline := Some 1500\<rparr>)))) \<and>
     smp_value smp = Some 30 \<and> smp_stamp smp = 3000 \<and> smp_context smp = (1, 2, 3) \<and> smp_freshness smp = kStale"
proof -
  let ?sub = "SubCore_init XmBase_nat (Qos_default\<lparr>deadline := Some 1500\<rparr>)"
  let ?es = "[Put (demo_mail 1), Get 1500, Put (demo_mail 2), Put (demo_mail 3)]"
  let ?smp = "fst (TakeLatest XmBase_nat 5000 (fold (latest_step XmBase_nat) ?es ?sub))"
  have sub: "latest ?sub \<noteq> None" "sub_deadline ?sub = Some 1500" by (simp_all add: SubCore_init_def Qos_default_def LatestOnly_def)
  have mail: "context_bytes (envelope (demo_mail 3)) = ctx_inject XmBase_nat (1, 2, 3)" "payload (demo_mail 3) = 30"
    "publish_stamp_ns (envelope (demo_mail 3)) = 3000" by (simp_all add: demo_mail_def)
  have ne: "deliveries ?es \<noteq> []" and r: "demo_mail 3 = last (deliveries ?es)" by simp_all
  obtain smp where smp: "smp = ?smp" by blast
  note n = TakeLatest_newest [OF ref.xmbase_axioms sub(1) ne smp r]
  from n mail(1) have "smp_context smp = (1, 2, 3)" by blast
  moreover have "smp_value smp = Some 30" "smp_stamp smp = 3000" "smp_freshness smp = kStale" using n mail(2,3) sub(2) by simp_all
  ultimately show ?thesis using smp by blast
qed

text \<open>C32. A queue subscriber is a bounded drop-newest FIFO: over any run of deliveries and takes, from its wiring on, it behaves as the
  reference queue of its declared depth. Its takes return what the reference returns, its ring holds what the reference
  holds, at most its depth, and its counters are the reference's numbers of dropped and of taken values.\<close>

theorem TryTake_fifo:
  assumes "xmbase X items capacity" "hist_kind (history qos) = kQueue" "hist_depth (history qos) \<noteq> 0" and "ref_queue (unat (hist_depth (history qos))) es [] = (outs, q, d)"
    and "take_run (deliver_core X) (TryTake X) es (SubCore_init X qos) = (smps, sub)"
  shows "map shown_sample smps = map (map_option shown_record) outs \<and> items (the (queue sub)) = q \<and>
     length (items (the (queue sub))) \<le> unat (hist_depth (history qos)) \<and>
     drop_count sub = of_nat d \<and> take_count sub = of_nat (length (filter (\<lambda>out. out \<noteq> None) outs))"
proof -
  let ?sub = "SubCore_init X qos"
  have ok: "latest ?sub = None \<and> queue ?sub \<noteq> None" "items (the (queue ?sub)) = []"
    "capacity (the (queue ?sub)) = unat (hist_depth (history qos))" "drop_count ?sub = 0" "take_count ?sub = 0"
    using assms(2,3) spsc_ring.items_new [OF xmbase.axioms(2) [OF assms(1)]] spsc_ring.capacity_new [OF xmbase.axioms(2) [OF assms(1)]]
    by (simp_all add: SubCore_init_def)
  have "ref_queue (capacity (the (queue ?sub))) es (items (the (queue ?sub))) = (outs, q, d)" using assms(4) ok(2,3) by simp
  from xmbase.core_run_refines [OF assms(1) ok(1) this] ref_queue_bound [OF _ assms(4)] show ?thesis
    using assms(5) ok(4,5) by simp
qed

theorem TryTake_fifo_witness:
  "\<exists>smps sub. take_run (deliver_core XmBase_nat) (TryTake XmBase_nat)
      [Put (demo_mail 1), Put (demo_mail 2), Put (demo_mail 3), Get 4000, Put (demo_mail 4), Get 4000, Get 4000, Get 4000]
      (SubCore_init XmBase_nat (Qos_default\<lparr>history := Queue 2\<rparr>)) = (smps, sub) \<and>
     map shown_sample smps = [Some (10, 1000, 1000, 0), Some (20, 2000, 2000, 0), Some (40, 4000, 4000, 0), None] \<and> drop_count sub = 1"
proof -
  let ?qos = "Qos_default\<lparr>history := Queue 2\<rparr>"
  let ?es = "[Put (demo_mail 1), Put (demo_mail 2), Put (demo_mail 3), Get 4000, Put (demo_mail 4), Get 4000, Get 4000, Get 4000]"
  obtain smps sub where run: "take_run (deliver_core XmBase_nat) (TryTake XmBase_nat) ?es (SubCore_init XmBase_nat ?qos) = (smps, sub)" by fastforce
  have k: "hist_kind (history ?qos) = kQueue" "unat (hist_depth (history ?qos)) = 2" "hist_depth (history ?qos) \<noteq> 0" by (simp_all add: Qos_default_def Queue_def)
  have "ref_queue (unat (hist_depth (history ?qos))) ?es [] = ([Some (demo_mail 1), Some (demo_mail 2), Some (demo_mail 4), None], [], 1)"
    unfolding k(2) by simp
  from TryTake_fifo [OF ref.xmbase_axioms k(1,3) this run] run show ?thesis
    by (intro exI [of _ smps] exI [of _ sub]) (simp add: shown_record_def demo_mail_def)
qed

text \<open>C35. Exactly one deadline miss is counted per onset of staleness: over any run of deliveries and
  takes, the miss counter is the number of times the verdicts the takes returned turned from not
  stale to stale; repeated stale takes, and takes that find nothing, add none.\<close>

theorem deadline_miss_onsets:
  "deadline_miss_count (snd (take_run (deliver_core X) (take_with X) es (SubCore_init X qos))) =
     of_nat (onsets False (map smp_freshness (fst (take_run (deliver_core X) (take_with X) es (SubCore_init X qos)))))"
  by (subst deadline_miss_run) (simp add: SubCore_init_def)

text \<open>The always-on counters and the telemetry instruments never diverge: after any run of deliveries
  and takes, each of the four counters is the sum of the increments sent to its instrument.\<close>

lemma counters_match_instruments:
  "tele_agrees (snd (take_run (deliver_core X) (take_with X) es (SubCore_init X qos)))"
proof -
  have "tele_agrees sub \<Longrightarrow> tele_agrees (snd (take_run (deliver_core X) (take_with X) es sub))" for sub
  proof (induction es arbitrary: sub)
    case (Cons e es)
    then show ?case
      by (cases e) (auto simp: take_with_def tele_agrees_deliver tele_agrees_TakeLatest tele_agrees_TryTake
          split: take_verb.splits)
  qed simp
  then show ?thesis by (simp add: tele_agrees_init)
qed

end
