(* ===== verification/Loan_Pool.thy ===== *)
theory Loan_Pool
  imports Xm_Vocabulary
begin

text \<open>
  The publisher-side loan cells: \<^verbatim>\<open>LoanPool<T>\<close> and the \<^verbatim>\<open>Loan<T>\<close> handle of
  \<^verbatim>\<open>include/xmmsg/detail/in_process.hpp\<close>. The pool's bitmask is kept at its 32-bit width. Three
  views of the same operations are proved correct: the sequential \<open>Acquire\<close>/\<open>Release\<close>, the
  compare-and-swap loop under interference (a step relation over any number of threads), and the
  RAII handles (mint, move, move-assign, destroy) over any number of pools.
\<close>

section \<open>The pool\<close>

definition kSlots :: nat where
  "kSlots = 8"

record 'a LoanPool =
  in_use :: u32
  cells :: "'a option list"

definition LoanPool_init :: "'a LoanPool" where
  "LoanPool_init = \<lparr>in_use = 0, cells = replicate kSlots None\<rparr>"

definition cell_bit :: "nat \<Rightarrow> u32" where
  "cell_bit i = push_bit i 1"

definition free_index :: "u32 \<Rightarrow> nat option" where
  "free_index m = scan kSlots (\<lambda>i. m AND cell_bit i = 0)"

text \<open>The uncontended run of \<^verbatim>\<open>Acquire\<close>: the first free bit is set and its cell is
  value-initialised (\<open>None\<close>).\<close>

definition Acquire :: "'a LoanPool \<Rightarrow> nat option \<times> 'a LoanPool" where
  "Acquire pool = (case free_index (in_use pool) of
     None \<Rightarrow> (None, pool)
   | Some i \<Rightarrow> (Some i, pool\<lparr>in_use := in_use pool OR cell_bit i, cells := (cells pool)[i := None]\<rparr>))"

definition Release :: "nat \<Rightarrow> 'a LoanPool \<Rightarrow> 'a LoanPool" where
  "Release i pool = pool\<lparr>in_use := in_use pool AND NOT (cell_bit i)\<rparr>"

lemma cell_bit_exp: "cell_bit i = 2 ^ i"
  by (simp add: cell_bit_def push_bit_of_1)

lemma and_cell_bit_iff: "(m AND cell_bit i = 0) \<longleftrightarrow> \<not> bit m i"
  by (simp add: cell_bit_exp and_exp_eq_0_iff_not_bit)

lemma bit_or_cell_bit: "i < 32 \<Longrightarrow> bit (m OR cell_bit i) j \<longleftrightarrow> bit m j \<or> j = i"
  by (auto simp: cell_bit_exp bit_simps)

lemma bit_andnot_cell_bit: "bit (m AND NOT (cell_bit i)) j \<longleftrightarrow> bit m j \<and> j \<noteq> i"
  using bit_imp_le_length [of m j] by (auto simp: cell_bit_exp bit_simps)

lemma free_index_Some: "free_index m = Some i \<longleftrightarrow> i < kSlots \<and> \<not> bit m i \<and> (\<forall>j<i. bit m j)"
  by (simp add: free_index_def scan_Some_iff and_cell_bit_iff)

lemma free_index_None: "free_index m = None \<longleftrightarrow> (\<forall>i<kSlots. bit m i)"
  by (simp add: free_index_def scan_None_iff and_cell_bit_iff)

lemma free_index_bound: "free_index m = Some i \<Longrightarrow> i < 32"
  by (simp add: free_index_Some kSlots_def)

definition held :: "'a LoanPool \<Rightarrow> nat set" where
  "held pool = {i. bit (in_use pool) i}"

text \<open>The bits a pool can ever set are the \<open>kSlots\<close> low ones, and it keeps one cell each.\<close>

definition wf_pool :: "'a LoanPool \<Rightarrow> bool" where
  "wf_pool pool \<longleftrightarrow> held pool \<subseteq> {..<kSlots} \<and> length (cells pool) = kSlots"

lemma wf_pool_init [wf_intros]: "wf_pool LoanPool_init"
  by (simp add: wf_pool_def LoanPool_init_def held_def)

lemma Acquire_cases [consumes 1, case_names exhausted cell]:
  assumes "wf_pool pool"
  obtains (exhausted) "Acquire pool = (None, pool)" "held pool = {..<kSlots}"
  | (cell) i pool' where "Acquire pool = (Some i, pool')" "i < kSlots" "i \<notin> held pool"
      "held pool' = insert i (held pool)" "wf_pool pool'"
proof (cases "free_index (in_use pool)")
  case None
  then have "held pool = {..<kSlots}"
    using assms by (auto simp: wf_pool_def held_def free_index_None)
  with None show thesis using exhausted by (simp add: Acquire_def)
next
  case (Some i)
  have i: "i < kSlots" "\<not> bit (in_use pool) i" "i < 32"
    using Some free_index_bound by (auto simp: free_index_Some)
  define pool' where "pool' = snd (Acquire pool)"
  have held: "held pool' = insert i (held pool)"
    using Some i by (auto simp: pool'_def Acquire_def held_def bit_or_cell_bit)
  have "wf_pool pool'"
    using assms held i Some by (auto simp: wf_pool_def pool'_def Acquire_def)
  with held i Some show thesis
    using cell [of i pool'] by (simp add: pool'_def Acquire_def held_def)
qed

lemma wf_pool_Acquire [wf_intros]: "wf_pool pool \<Longrightarrow> wf_pool (snd (Acquire pool))"
  by (rule Acquire_cases [of pool]) simp_all

lemma held_Release [simp]: "held (Release i pool) = held pool - {i}"
  by (auto simp: held_def Release_def bit_andnot_cell_bit)

lemma wf_pool_Release [wf_intros]: "wf_pool pool \<Longrightarrow> wf_pool (Release i pool)"
  unfolding wf_pool_def by (auto simp: Release_def held_def bit_andnot_cell_bit)

section \<open>The compare-and-swap loop under interference\<close>

text \<open>One thread of \<^verbatim>\<open>Acquire\<close>: it has loaded a mask (\<open>P_Try\<close>), returned null (\<open>P_Null\<close>) or
  holds a cell. A failed weak exchange, spurious or not, reloads the mask.\<close>

datatype loan_pc = P_Idle | P_Try u32 | P_Null | P_Hold nat

record loan_sys =
  pool_mask :: u32
  thr :: "nat \<Rightarrow> loan_pc"

definition loan_init :: loan_sys where
  "loan_init = \<lparr>pool_mask = 0, thr = (\<lambda>_. P_Idle)\<rparr>"

inductive loan_step :: "loan_sys \<Rightarrow> loan_sys \<Rightarrow> bool" where
  load: "thr s t = P_Idle \<Longrightarrow> loan_step s (s\<lparr>thr := (thr s)(t := P_Try (pool_mask s))\<rparr>)"
| exhausted: "thr s t = P_Try m \<Longrightarrow> free_index m = None \<Longrightarrow>
    loan_step s (s\<lparr>thr := (thr s)(t := P_Null)\<rparr>)"
| cas_ok: "thr s t = P_Try m \<Longrightarrow> free_index m = Some i \<Longrightarrow> pool_mask s = m \<Longrightarrow>
    loan_step s (s\<lparr>pool_mask := m OR cell_bit i, thr := (thr s)(t := P_Hold i)\<rparr>)"
| cas_fail: "thr s t = P_Try m \<Longrightarrow> free_index m = Some i \<Longrightarrow>
    loan_step s (s\<lparr>thr := (thr s)(t := P_Try (pool_mask s))\<rparr>)"
| give_back: "thr s t = P_Hold i \<Longrightarrow>
    loan_step s (s\<lparr>pool_mask := pool_mask s AND NOT (cell_bit i), thr := (thr s)(t := P_Idle)\<rparr>)"
| null_seen: "thr s t = P_Null \<Longrightarrow> loan_step s (s\<lparr>thr := (thr s)(t := P_Idle)\<rparr>)"

inductive loan_reachable :: "loan_sys \<Rightarrow> bool" where
  start: "loan_reachable loan_init"
| step: "loan_reachable s \<Longrightarrow> loan_step s s' \<Longrightarrow> loan_reachable s'"

text \<open>The mask is exactly the set of cells some thread holds, and no two threads hold one cell.\<close>

fun hold_of :: "loan_pc \<Rightarrow> nat option" where
  "hold_of (P_Hold i) = Some i"
| "hold_of _ = None"

definition loan_inv :: "loan_sys \<Rightarrow> bool" where
  "loan_inv s \<longleftrightarrow> owns (hold_of \<circ> thr s) {i. bit (pool_mask s) i}"

lemma bits_or_cell: "i < 32 \<Longrightarrow> {j. bit (m OR cell_bit i) j} = insert i {j. bit m j}"
  by (auto simp: bit_or_cell_bit)

lemma bits_andnot_cell: "{j. bit (m AND NOT (cell_bit i)) j} = {j. bit m j} - {i}"
  by (auto simp: bit_andnot_cell_bit)

lemma loan_step_inv: "loan_step s s' \<Longrightarrow> loan_inv s \<Longrightarrow> loan_inv s'"
proof (induction rule: loan_step.induct)
  case (cas_ok s t m i)
  then have "i < 32" "\<not> bit m i" using free_index_bound by (auto simp: free_index_Some)
  with cas_ok show ?case
    by (simp add: loan_inv_def fun_upd_comp bits_or_cell owns_claim)
qed (simp_all add: loan_inv_def fun_upd_comp bits_andnot_cell owns_same owns_drop)

lemma loan_reachable_inv: "loan_reachable s \<Longrightarrow> loan_inv s"
proof (induction rule: loan_reachable.induct)
  case start
  show ?case by (simp add: loan_inv_def loan_init_def comp_def)
qed (rule loan_step_inv)

section \<open>Loan handles\<close>

text \<open>\<^verbatim>\<open>Loan<T>\<close>: the cell, the status and the owning pool (by its number), with the move
  constructor, move assignment and destructor.\<close>

record Loan =
  loan_slot :: "nat option"
  loan_status :: LoanStatus
  loan_pool :: "nat option"

definition Loan_null :: Loan where
  "Loan_null = \<lparr>loan_slot = None, loan_status = Loan_kExhausted, loan_pool = None\<rparr>"

type_synonym 'a pools = "nat \<Rightarrow> 'a LoanPool"

definition Loan_dtor :: "Loan \<Rightarrow> 'a pools \<Rightarrow> 'a pools" where
  "Loan_dtor l ps = (case (loan_pool l, loan_slot l) of
     (Some p, Some i) \<Rightarrow> ps(p := Release i (ps p))
   | _ \<Rightarrow> ps)"

definition Loan_move :: "Loan \<Rightarrow> Loan \<times> Loan" where
  "Loan_move other = (other, other\<lparr>loan_slot := None, loan_status := Loan_kExhausted, loan_pool := None\<rparr>)"

text \<open>\<^verbatim>\<open>Publisher<T>::Loan()\<close> on a publisher whose pool has number \<open>p\<close>.\<close>

definition Publisher_Loan :: "nat \<Rightarrow> 'a pools \<Rightarrow> Loan \<times> 'a pools" where
  "Publisher_Loan p ps = (case Acquire (ps p) of
     (None, pool') \<Rightarrow> (Loan_null, ps(p := pool'))
   | (Some i, pool') \<Rightarrow>
       (\<lparr>loan_slot = Some i, loan_status = Loan_kOk, loan_pool = Some p\<rparr>, ps(p := pool')))"

text \<open>Programs over handles: a handle number is alive when it maps to \<open>Some\<close>. \<open>consume\<close> is the
  handle traffic of \<^verbatim>\<open>Publish(Loan&&)\<close>: the argument is moved into a local whose destructor
  returns the cell.\<close>

record 'a loan_world =
  pools :: "'a pools"
  handles :: "nat \<Rightarrow> Loan option"

inductive loan_op :: "'a loan_world \<Rightarrow> 'a loan_world \<Rightarrow> bool" where
  mint: "handles w h = None \<Longrightarrow> Publisher_Loan p (pools w) = (l, ps') \<Longrightarrow>
    loan_op w (w\<lparr>pools := ps', handles := (handles w)(h := Some l)\<rparr>)"
| move_ctor: "handles w h = None \<Longrightarrow> handles w g = Some l \<Longrightarrow> Loan_move l = (l1, l2) \<Longrightarrow>
    loan_op w (w\<lparr>handles := (handles w)(h := Some l1, g := Some l2)\<rparr>)"
| move_assign: "handles w h = Some l0 \<Longrightarrow> handles w g = Some l \<Longrightarrow> h \<noteq> g \<Longrightarrow>
    Loan_move l = (l1, l2) \<Longrightarrow>
    loan_op w (w\<lparr>pools := Loan_dtor l0 (pools w), handles := (handles w)(h := Some l1, g := Some l2)\<rparr>)"
| self_assign: "handles w h = Some l0 \<Longrightarrow> loan_op w w"
| destroy: "handles w h = Some l \<Longrightarrow>
    loan_op w (w\<lparr>pools := Loan_dtor l (pools w), handles := (handles w)(h := None)\<rparr>)"
| consume: "handles w g = Some l \<Longrightarrow> Loan_move l = (l1, l2) \<Longrightarrow>
    loan_op w (w\<lparr>pools := Loan_dtor l1 (pools w), handles := (handles w)(g := Some l2)\<rparr>)"

definition loan_world_init :: "'a loan_world" where
  "loan_world_init = \<lparr>pools = (\<lambda>_. LoanPool_init), handles = (\<lambda>_. None)\<rparr>"

inductive loan_world_reachable :: "'a loan_world \<Rightarrow> bool" where
  start: "loan_world_reachable loan_world_init"
| op: "loan_world_reachable w \<Longrightarrow> loan_op w w' \<Longrightarrow> loan_world_reachable w'"

fun cell_of :: "Loan option \<Rightarrow> (nat \<times> nat) option" where
  "cell_of None = None"
| "cell_of (Some l) = (case (loan_pool l, loan_slot l) of (Some p, Some i) \<Rightarrow> Some (p, i) | _ \<Rightarrow> None)"

definition all_held :: "'a pools \<Rightarrow> (nat \<times> nat) set" where
  "all_held ps = {(p, i). i \<in> held (ps p)}"

text \<open>Every cell in use belongs to exactly one live handle.\<close>

definition loan_world_inv :: "'a loan_world \<Rightarrow> bool" where
  "loan_world_inv w \<longleftrightarrow> owns (cell_of \<circ> handles w) (all_held (pools w)) \<and>
     (\<forall>p. wf_pool (pools w p))"

lemma Loan_dtor_cell:
  "all_held (Loan_dtor l ps) = (case cell_of (Some l) of None \<Rightarrow> all_held ps | Some k \<Rightarrow> all_held ps - {k})"
  "(\<forall>p. wf_pool (ps p)) \<Longrightarrow> wf_pool (Loan_dtor l ps p)"
  by (auto simp: Loan_dtor_def all_held_def wf_intros split: option.splits if_splits)

lemma Loan_move_cell: "Loan_move l = (l1, l2) \<Longrightarrow> l1 = l \<and> cell_of (Some l2) = None"
  by (auto simp: Loan_move_def)

lemma owns_after_dtor:
  assumes "owns own (all_held ps)" "own h = cell_of (Some l)"
  shows "owns (own(h := None)) (all_held (Loan_dtor l ps))"
  using assms by (auto simp: Loan_dtor_cell(1) owns_drop owns_same simp del: cell_of.simps split: option.splits)

lemma Publisher_Loan_owns:
  assumes "owns own (all_held ps)" "own h = None" "\<forall>q. wf_pool (ps q)"
    and "Publisher_Loan p ps = (l, ps')"
  shows "owns (own(h := cell_of (Some l))) (all_held ps') \<and> (\<forall>q. wf_pool (ps' q))"
  using spec [OF assms(3), of p]
proof (cases rule: Acquire_cases)
  case exhausted
  then show ?thesis using assms by (auto simp: Publisher_Loan_def Loan_null_def owns_same)
next
  case (cell i pool')
  then have "all_held (ps(p := pool')) = insert (p, i) (all_held ps)" "(p, i) \<notin> all_held ps"
    by (auto simp: all_held_def split: if_splits)
  with cell assms show ?thesis
    by (auto simp: Publisher_Loan_def owns_claim)
qed

lemma loan_op_inv: "loan_op w w' \<Longrightarrow> loan_world_inv w \<Longrightarrow> loan_world_inv w'"
proof (induction rule: loan_op.induct)
  case (mint w h p l ps')
  then show ?case
    using Publisher_Loan_owns [of "cell_of \<circ> handles w" "pools w" h p l ps']
    by (simp add: loan_world_inv_def fun_upd_comp del: cell_of.simps(2))
next
  case (move_ctor w h g l l1 l2)
  then show ?case
    using owns_move [of "cell_of \<circ> handles w" "all_held (pools w)" h g] Loan_move_cell [of l l1 l2]
    by (cases "h = g") (auto simp: loan_world_inv_def fun_upd_comp simp del: cell_of.simps(2))
next
  case (move_assign w h l0 g l l1 l2)
  let ?own = "cell_of \<circ> handles w"
  have "owns (?own(h := None)) (all_held (Loan_dtor l0 (pools w)))"
    using move_assign owns_after_dtor [of ?own "pools w" h l0] by (simp add: loan_world_inv_def)
  from owns_move [OF this, of h g] move_assign Loan_move_cell [of l l1 l2]
  show ?case by (simp add: loan_world_inv_def fun_upd_comp Loan_dtor_cell(2) fun_upd_twist del: cell_of.simps(2))
next
  case (destroy w h l)
  then show ?case
    using owns_after_dtor [of "cell_of \<circ> handles w" "pools w" h l]
    by (simp add: loan_world_inv_def fun_upd_comp Loan_dtor_cell(2))
next
  case (consume w g l l1 l2)
  then show ?case
    using owns_after_dtor [of "cell_of \<circ> handles w" "pools w" g l] Loan_move_cell [of l l1 l2]
    by (simp add: loan_world_inv_def fun_upd_comp Loan_dtor_cell(2) del: cell_of.simps(2))
qed

lemma loan_world_reachable_inv: "loan_world_reachable w \<Longrightarrow> loan_world_inv w"
proof (induction rule: loan_world_reachable.induct)
  case start
  show ?case by (simp add: loan_world_inv_def loan_world_init_def all_held_def held_def LoanPool_init_def
      comp_def wf_pool_init [unfolded LoanPool_init_def])
qed (rule loan_op_inv)

section \<open>Properties\<close>

text \<open>The uncontended acquire hands out the lowest free cell, value-initialised, and returns null
  exactly when all eight cells are on loan; the pool never grows and the other cells keep what
  they hold.\<close>

lemma Acquire_spec:
  assumes "wf_pool pool"
  shows "(fst (Acquire pool) = None \<longleftrightarrow> held pool = {..<8}) \<and>
     (\<forall>i. fst (Acquire pool) = Some i \<longrightarrow> i < 8 \<and> i \<notin> held pool \<and> {..<i} \<subseteq> held pool \<and>
        held (snd (Acquire pool)) = insert i (held pool) \<and> cells (snd (Acquire pool)) ! i = None \<and>
        (\<forall>j. j \<noteq> i \<longrightarrow> cells (snd (Acquire pool)) ! j = cells pool ! j)) \<and>
     wf_pool (snd (Acquire pool))"
  using assms
proof (cases rule: Acquire_cases)
  case exhausted
  then show ?thesis using assms by (simp add: kSlots_def)
next
  case (cell i pool')
  then have "i < length (cells pool)" using assms by (simp add: wf_pool_def)
  moreover have "free_index (in_use pool) = Some i" "cells pool' = (cells pool)[i := None]"
    using cell(1) by (auto simp: Acquire_def split: option.splits)
  ultimately show ?thesis
    using cell by (auto simp: kSlots_def free_index_Some held_def)
qed

text \<open>C36. Mutual exclusion of the compare-and-swap loop: in every state any number of threads can reach,
  spurious failures included, the mask's set bits are exactly the cells some thread holds, all of
  them below eight, and no two threads hold the same cell.\<close>

theorem loan_cas_exclusive:
  assumes "loan_reachable s"
  shows "{i. bit (pool_mask s) i} = {i. \<exists>t. thr s t = P_Hold i} \<and>
     (\<forall>t u i. thr s t = P_Hold i \<longrightarrow> thr s u = P_Hold i \<longrightarrow> t = u) \<and>
     (\<forall>t i. thr s t = P_Hold i \<longrightarrow> i < 8)"
proof -
  have inv: "owns (hold_of \<circ> thr s) {i. bit (pool_mask s) i}"
    using loan_reachable_inv [OF assms] by (simp add: loan_inv_def)
  have hold: "hold_of c = Some i \<longleftrightarrow> c = P_Hold i" for c i by (cases c) auto
  have "thr s t = P_Hold i \<Longrightarrow> i < 8" for t i
    using assms by (induction arbitrary: t i rule: loan_reachable.induct)
      (auto simp: loan_init_def free_index_Some kSlots_def elim!: loan_step.cases split: if_splits)
  with inv show ?thesis unfolding owns_def by (auto simp: ran_def hold)
qed

theorem loan_cas_exclusive_witness:
  "\<exists>s. loan_reachable s \<and> thr s 0 = P_Hold 0 \<and> thr s 1 = P_Hold 1 \<and>
     (\<forall>t u i. thr s t = P_Hold i \<longrightarrow> thr s u = P_Hold i \<longrightarrow> t = u)"
proof -
  let ?s1 = "\<lparr>pool_mask = 0, thr = (\<lambda>_. P_Idle)(0 := P_Try 0)\<rparr>"
  let ?s2 = "\<lparr>pool_mask = 1, thr = (\<lambda>_. P_Idle)(0 := P_Hold 0)\<rparr>"
  let ?s3 = "\<lparr>pool_mask = 1, thr = (\<lambda>_. P_Idle)(0 := P_Hold 0, 1 := P_Try 1)\<rparr>"
  let ?s4 = "\<lparr>pool_mask = 3, thr = (\<lambda>_. P_Idle)(0 := P_Hold 0, 1 := P_Hold 1)\<rparr>"
  have free: "free_index 0 = Some 0" "free_index 1 = Some 1"
    by (simp_all add: free_index_def scan_def kSlots_def cell_bit_def upt_rec)
  have a1: "loan_step loan_init ?s1" using loan_step.load [of loan_init 0] by (simp add: loan_init_def)
  have a2: "loan_step ?s1 ?s2" using loan_step.cas_ok [of ?s1 0 0 0] free by (simp add: cell_bit_def)
  have a3: "loan_step ?s2 ?s3" using loan_step.load [of ?s2 1] by simp
  have a4: "loan_step ?s3 ?s4" using loan_step.cas_ok [of ?s3 1 1 1] free by (simp add: cell_bit_def)
  have r: "loan_reachable ?s4"
    by (rule loan_reachable.step [OF loan_reachable.step [OF loan_reachable.step [OF
        loan_reachable.step [OF loan_reachable.start a1] a2] a3] a4])
  from loan_cas_exclusive [OF r]
  have ex: "\<forall>t u i. thr ?s4 t = P_Hold i \<longrightarrow> thr ?s4 u = P_Hold i \<longrightarrow> t = u" by (elim conjE)
  show ?thesis by (rule exI [of _ ?s4], intro conjI r ex) simp_all
qed

text \<open>C37. No loan leaks and none is returned twice: whatever sequence of minting, moving, move-assigning,
  publishing and destroying loan handles a program runs over its publishers, the cells in use
  are exactly the cells named by live handles, each by exactly one; a pool with no live handle
  has all its cells back.\<close>

theorem loan_handles_exact:
  assumes "loan_world_reachable w"
  shows "all_held (pools w) = {k. \<exists>h. cell_of (handles w h) = Some k} \<and>
     (\<forall>h g k. cell_of (handles w h) = Some k \<longrightarrow> cell_of (handles w g) = Some k \<longrightarrow> h = g) \<and>
     (\<forall>p. (\<forall>h i. cell_of (handles w h) \<noteq> Some (p, i)) \<longrightarrow> held (pools w p) = {})"
  using loan_world_reachable_inv [OF assms]
  by (auto simp: loan_world_inv_def owns_def ran_def all_held_def set_eq_iff)

theorem loan_handles_exact_witness:
  "\<exists>w :: nat loan_world. loan_world_reachable w \<and> cell_of (handles w 1) = Some (0, 0) \<and>
     all_held (pools w) = {k. \<exists>h. cell_of (handles w h) = Some k}"
proof -
  let ?l = "\<lparr>loan_slot = Some 0, loan_status = Loan_kOk, loan_pool = Some (0::nat)\<rparr>"
  obtain l ps where l: "Publisher_Loan 0 (\<lambda>_. LoanPool_init :: nat LoanPool) = (l, ps)" by fastforce
  then have l0: "l = ?l"
    by (simp add: Publisher_Loan_def Acquire_def LoanPool_init_def free_index_def scan_def kSlots_def cell_bit_def upt_rec)
  let ?w1 = "\<lparr>pools = ps, handles = (\<lambda>_. None)(0 := Some ?l)\<rparr>"
  let ?w2 = "\<lparr>pools = ps, handles = (\<lambda>_. None)(0 := Some Loan_null, 1 := Some ?l)\<rparr>"
  have a1: "loan_op loan_world_init ?w1"
    using loan_op.mint [of loan_world_init 0 0 l ps] l l0 by (simp add: loan_world_init_def)
  have a2: "loan_op ?w1 ?w2"
    using loan_op.move_ctor [of ?w1 1 0 ?l ?l Loan_null]
    by (simp add: Loan_move_def Loan_null_def fun_upd_twist)
  have r: "loan_world_reachable ?w2"
    by (rule loan_world_reachable.op [OF loan_world_reachable.op [OF loan_world_reachable.start a1] a2])
  from loan_handles_exact [OF r]
  have ex: "all_held (pools ?w2) = {k. \<exists>h. cell_of (handles ?w2 h) = Some k}" by (elim conjE)
  show ?thesis by (rule exI [of _ ?w2], intro conjI r ex) simp
qed

end
