(* ===== verification/Topic_Fanout.thy ===== *)
theory Topic_Fanout
  imports Sub_Core Loan_Pool
begin

text \<open>
  The typed registry entry, \<^verbatim>\<open>Topic<T>\<close> with \<^verbatim>\<open>TopicBase\<close> and \<^verbatim>\<open>PubCore<T>\<close>
  of \<^verbatim>\<open>include/xmmsg/detail/in_process.hpp\<close>: wiring (ownership, the 64-slot fan-out table, warm
  start) and the publish path. A \<^verbatim>\<open>SubCore*\<close> is the index of the core in \<^verbatim>\<open>sub_retained_\<close>, which
  only grows. The thread-local telemetry context and the clock reading are arguments.
\<close>

section \<open>State\<close>

datatype pub_instrument = T_publish | T_refused | T_bytes

definition pub_instrument_name :: "string \<Rightarrow> pub_instrument \<Rightarrow> string" where
  "pub_instrument_name topic i = (case i of
     T_publish \<Rightarrow> ''messaging.pub.'' @ topic @ ''.publish_count''
   | T_refused \<Rightarrow> ''messaging.pub.'' @ topic @ ''.refused_count''
   | T_bytes \<Rightarrow> ''messaging.pub.'' @ topic @ ''.bytes'')"

record 'a PubCore =
  pub_reliability :: Reliability
  shared_ownership :: bool
  publish_count :: u64
  refused_count :: u64
  pub_bytes :: u64
  pub_pool :: "'a LoanPool"
  pub_telemetry :: "pub_instrument tele_log"

definition PubCore_init :: "Qos \<Rightarrow> 'a PubCore" where
  "PubCore_init qos = \<lparr>pub_reliability = reliability qos,
     shared_ownership = (ownership qos = kShared),
     publish_count = 0, refused_count = 0, pub_bytes = 0, pub_pool = LoanPool_init, pub_telemetry = []\<rparr>"

record TopicBase =
  name :: string
  schema_hash :: u64
  type_id :: string
  publisher_count :: u64
  subscriber_count :: u64
  declared_ownership :: Ownership
  accepted_ordinal :: u64

record ('s, 'q) Topic = TopicBase +
  master :: 's
  sub_slots :: "nat option list"
  sub_retained :: "('s, 'q) SubCore list"

definition kMaxSubscribers :: nat where
  "kMaxSubscribers = 64"

definition Topic_init :: "('a, 's, 'q, 'c) XmBase \<Rightarrow> string \<Rightarrow> u64 \<Rightarrow> string \<Rightarrow> ('s, 'q) Topic" where
  "Topic_init X nm h ty = \<lparr>name = nm, schema_hash = h, type_id = ty, publisher_count = 0,
     subscriber_count = 0, declared_ownership = kExclusive, accepted_ordinal = 0,
     master = slot_new X, sub_slots = replicate kMaxSubscribers None, sub_retained = []\<rparr>"

section \<open>Wiring\<close>

definition AddPublisher ::
  "Qos \<Rightarrow> ('s, 'q) Topic \<Rightarrow> AdvertiseStatus \<times> 'a PubCore option \<times> ('s, 'q) Topic" where
  "AddPublisher qos t =
     (if publisher_count t > 0 \<and> (declared_ownership t = kExclusive \<or> ownership qos = kExclusive)
      then (Advertise_kOwnershipRefused, None, t)
      else (Advertise_kOk, Some (PubCore_init qos),
            t\<lparr>declared_ownership := ownership qos, publisher_count := publisher_count t + 1\<rparr>))"

definition RemovePublisher :: "('s, 'q) Topic \<Rightarrow> ('s, 'q) Topic" where
  "RemovePublisher t = t\<lparr>publisher_count := publisher_count t - 1\<rparr>"

text \<open>The core a subscriber handle owns: one attached to the topic, or one that found no free
  slot and stays unconnected.\<close>

datatype ('s, 'q) core_ptr = Retained nat | Unconnected "('s, 'q) SubCore"

definition seed_core ::
  "('a, 's, 'q, 'c) XmBase \<Rightarrow> ('s, 'q) Topic \<Rightarrow> ('s, 'q) SubCore \<Rightarrow> ('s, 'q) SubCore" where
  "seed_core X t core = (case latest core of
     None \<Rightarrow> core
   | Some m \<Rightarrow> (case slot_load X (master t) of
       None \<Rightarrow> core
     | Some current \<Rightarrow> core\<lparr>latest := Some (slot_store X m current)\<rparr>))"

definition free_slot :: "('s, 'q) Topic \<Rightarrow> nat option" where
  "free_slot t = scan (length (sub_slots t)) (\<lambda>i. sub_slots t ! i = None)"

definition attach_core :: "('s, 'q) SubCore \<Rightarrow> ('s, 'q) Topic \<Rightarrow> ('s, 'q) core_ptr \<times> ('s, 'q) Topic" where
  "attach_core core t = (case free_slot t of
     None \<Rightarrow> (Unconnected core, t)
   | Some i \<Rightarrow> (Retained (length (sub_retained t)),
       t\<lparr>sub_slots := (sub_slots t)[i := Some (length (sub_retained t))],
         sub_retained := sub_retained t @ [core],
         subscriber_count := subscriber_count t + 1\<rparr>))"

definition AddSubscriber ::
  "('a, 's, 'q, 'c) XmBase \<Rightarrow> Qos \<Rightarrow> ('s, 'q) Topic \<Rightarrow> ('s, 'q) core_ptr \<times> ('s, 'q) Topic" where
  "AddSubscriber X qos t = attach_core (seed_core X t (SubCore_init X qos)) t"

definition RemoveSubscriber :: "('s, 'q) core_ptr \<Rightarrow> ('s, 'q) Topic \<Rightarrow> ('s, 'q) Topic" where
  "RemoveSubscriber core t = (case core of
     Unconnected _ \<Rightarrow> t
   | Retained p \<Rightarrow> (case scan (length (sub_slots t)) (\<lambda>i. sub_slots t ! i = Some p) of
       None \<Rightarrow> t
     | Some i \<Rightarrow> t\<lparr>sub_slots := (sub_slots t)[i := None], subscriber_count := subscriber_count t - 1\<rparr>))"

section \<open>The publish path\<close>

definition core_full :: "('a, 's, 'q, 'c) XmBase \<Rightarrow> ('s, 'q) SubCore \<Rightarrow> bool" where
  "core_full X sub = (case queue sub of None \<Rightarrow> False | Some q \<Rightarrow> ring_full X q)"

definition any_full :: "('a, 's, 'q, 'c) XmBase \<Rightarrow> ('s, 'q) Topic \<Rightarrow> bool" where
  "any_full X t = list_ex (\<lambda>slot. case slot of None \<Rightarrow> False
     | Some p \<Rightarrow> core_full X (sub_retained t ! p)) (sub_slots t)"

definition make_envelope ::
  "('a, 's, 'q, 'c) XmBase \<Rightarrow> 'c \<Rightarrow> nanos \<Rightarrow> DerivedInfo option \<Rightarrow> Envelope" where
  "make_envelope X ctx now derived = \<lparr>context_bytes = take kEnvelopeContextSize (ctx_inject X ctx),
     publish_stamp_ns = now,
     origin_stamp_ns = (case derived of None \<Rightarrow> now | Some d \<Rightarrow> origin_ns d),
     hop_count = (case derived of None \<Rightarrow> 0 | Some d \<Rightarrow> hops d), flags = 0\<rparr>"

definition deliver_slot ::
  "('a, 's, 'q, 'c) XmBase \<Rightarrow> 'a MailRecord \<Rightarrow> nat option \<Rightarrow> ('s, 'q) SubCore list \<Rightarrow> ('s, 'q) SubCore list" where
  "deliver_slot X r slot cs = (case slot of None \<Rightarrow> cs | Some p \<Rightarrow> cs[p := deliver_core X r (cs ! p)])"

definition note_publish :: "u64 \<Rightarrow> 'a PubCore \<Rightarrow> 'a PubCore" where
  "note_publish sz pub = pub\<lparr>publish_count := publish_count pub + 1, pub_bytes := pub_bytes pub + sz,
     pub_telemetry := pub_telemetry pub @ [(T_publish, Add 1), (T_bytes, Add (unat sz))]\<rparr>"

definition note_refused :: "'a PubCore \<Rightarrow> 'a PubCore" where
  "note_refused pub = pub\<lparr>refused_count := refused_count pub + 1,
     pub_telemetry := pub_telemetry pub @ [(T_refused, Add 1)]\<rparr>"

text \<open>\<open>Deliver X sz ctx now pub value derived t\<close>: \<open>sz\<close> is \<^verbatim>\<open>sizeof(T)\<close>. \<open>PublishFrom\<close> is the same
  function under the writer mutex of a declared-shared topic, so that calls do not overlap.\<close>

definition Deliver ::
  "('a, 's, 'q, 'c) XmBase \<Rightarrow> u64 \<Rightarrow> 'c \<Rightarrow> nanos \<Rightarrow> 'a PubCore \<Rightarrow> 'a \<Rightarrow> DerivedInfo option \<Rightarrow>
   ('s, 'q) Topic \<Rightarrow> PublishStatus \<times> 'a PubCore \<times> ('s, 'q) Topic" where
  "Deliver X sz ctx now pub val derived t =
     (if pub_reliability pub = kReliable \<and> any_full X t
      then (Publish_kWouldBlock, note_refused pub, t)
      else
        let r = \<lparr>envelope = make_envelope X ctx now derived, ordinal = accepted_ordinal t + 1, payload = val\<rparr>
        in (Publish_kOk, note_publish sz pub,
            t\<lparr>accepted_ordinal := accepted_ordinal t + 1, master := slot_store X (master t) r,
              sub_retained := fold (deliver_slot X r) (sub_slots t) (sub_retained t)\<rparr>))"

section \<open>Well-formed topics\<close>

definition connected :: "('s, 'q) Topic \<Rightarrow> nat \<Rightarrow> bool" where
  "connected t p \<longleftrightarrow> Some p \<in> set (sub_slots t)"

definition wf_core :: "('s, 'q) SubCore \<Rightarrow> bool" where
  "wf_core sub \<longleftrightarrow> (if hist_kind (sub_history sub) = kLatestOnly then latest sub \<noteq> None \<and> queue sub = None
     else latest sub = None \<and> queue sub \<noteq> None)"

definition attached :: "nat option list \<Rightarrow> nat list" where
  "attached slots = List.map_filter id slots"

definition wf_topic :: "('s, 'q) Topic \<Rightarrow> bool" where
  "wf_topic t \<longleftrightarrow> length (sub_slots t) = kMaxSubscribers \<and>
     distinct (attached (sub_slots t)) \<and>
     (\<forall>p\<in>set (attached (sub_slots t)). p < length (sub_retained t)) \<and>
     subscriber_count t = of_nat (length (attached (sub_slots t))) \<and>
     list_all wf_core (sub_retained t)"

lemma set_attached [simp]: "p \<in> set (attached slots) \<longleftrightarrow> Some p \<in> set slots"
  by (auto simp: attached_def List.map_filter_def image_iff)

lemma attached_simps [simp]:
  "attached [] = []" "attached (None # slots) = attached slots"
  "attached (Some p # slots) = p # attached slots"
  by (simp_all add: attached_def map_filter_simps)

lemma attached_replicate [simp]: "attached (replicate n None) = []"
  by (induction n) simp_all

lemma attached_update:
  assumes "i < length slots"
  shows "attached (slots[i := v]) = attached (take i slots) @ (case v of None \<Rightarrow> [] | Some p \<Rightarrow> [p]) @
     attached (drop (Suc i) slots)"
  using assms by (simp add: attached_def upd_conv_take_nth_drop List.map_filter_def split: option.splits)

lemma attached_split:
  assumes "i < length slots"
  shows "attached slots = attached (take i slots) @ (case slots ! i of None \<Rightarrow> [] | Some p \<Rightarrow> [p]) @
     attached (drop (Suc i) slots)"
  using attached_update [OF assms, of "slots ! i"] by simp

lemma wf_topic_init [wf_intros]: "wf_topic (Topic_init X nm h ty)"
  by (simp add: wf_topic_def Topic_init_def kMaxSubscribers_def)

lemma wf_core_simps [simp]:
  "wf_core (note_take now r sub) = wf_core sub" "wf_core (note_gap ord sub) = wf_core sub"
  "wf_core (note_staleness b sub) = wf_core sub" "wf_core (stamp_baseline ord sub) = wf_core sub"
  by (simp_all add: wf_core_def stamp_baseline_def)

lemma wf_core_deliver [wf_intros]: "wf_core sub \<Longrightarrow> wf_core (deliver_core X r sub)"
  by (auto simp: wf_core_def deliver_core_def stamp_baseline_def split: option.splits if_splits)

lemma wf_core_TakeLatest [wf_intros]: "wf_core sub \<Longrightarrow> wf_core (snd (TakeLatest X now sub))"
  by (simp add: TakeLatest_def split: option.splits)

lemma wf_core_TryTake [wf_intros]: "wf_core sub \<Longrightarrow> wf_core (snd (TryTake X now sub))"
  by (auto simp: TryTake_def wf_core_def split: option.splits if_splits)

lemma wf_core_seed [wf_intros]: "wf_core (seed_core X t (SubCore_init X qos))"
  by (simp add: wf_core_def seed_core_def SubCore_init_def split: option.splits)

lemma wf_topic_slotsD: "wf_topic t \<Longrightarrow> Some p \<in> set (sub_slots t) \<Longrightarrow> p < length (sub_retained t)"
  by (simp add: wf_topic_def)

lemma wf_topic_AddPublisher [wf_intros]:
  "wf_topic t \<Longrightarrow> wf_topic (snd (snd (AddPublisher qos t :: _ \<times> 'a PubCore option \<times> _)))"
  by (simp add: AddPublisher_def wf_topic_def)

lemma wf_topic_RemovePublisher [wf_intros]: "wf_topic t \<Longrightarrow> wf_topic (RemovePublisher t)"
  by (simp add: RemovePublisher_def wf_topic_def)

lemma wf_topic_attach [wf_intros]:
  assumes "wf_topic t" "wf_core core"
  shows "wf_topic (snd (attach_core core t))"
proof (cases "free_slot t")
  case (Some i)
  then have i: "i < length (sub_slots t)" "sub_slots t ! i = None"
    by (auto simp: free_slot_def dest: scan_SomeD)
  have fresh: "length (sub_retained t) \<notin> set (attached (sub_slots t))"
    using assms by (auto simp: wf_topic_def)
  from assms i fresh Some show ?thesis
    unfolding wf_topic_def attach_core_def attached_split [OF i(1)]
    by (auto simp: attached_update intro: less_SucI simp flip: set_attached)
next
  case None
  with assms show ?thesis by (simp add: attach_core_def)
qed

lemma wf_topic_AddSubscriber [wf_intros]: "wf_topic t \<Longrightarrow> wf_topic (snd (AddSubscriber X qos t))"
  unfolding AddSubscriber_def by (intro wf_intros)

lemma wf_topic_RemoveSubscriber [wf_intros]:
  assumes "wf_topic t"
  shows "wf_topic (RemoveSubscriber core t)"
proof (cases core)
  case (Retained p)
  show ?thesis
  proof (cases "scan (length (sub_slots t)) (\<lambda>i. sub_slots t ! i = Some p)")
    case (Some i)
    then have i: "i < length (sub_slots t)" "sub_slots t ! i = Some p"
      by (auto dest: scan_SomeD)
    from assms i Some Retained show ?thesis
      unfolding wf_topic_def RemoveSubscriber_def attached_split [OF i(1)]
      by (auto simp: attached_update simp flip: set_attached)
  qed (use assms Retained in \<open>simp add: RemoveSubscriber_def\<close>)
qed (use assms in \<open>simp add: RemoveSubscriber_def\<close>)

section \<open>The fan-out loop\<close>

text \<open>Each attached core is visited once, and no other core is touched.\<close>

lemma deliver_slot_length [simp]: "length (deliver_slot X r slot cs) = length cs"
  by (simp add: deliver_slot_def split: option.splits)

lemma fanout_length [simp]: "length (fold (deliver_slot X r) slots cs) = length cs"
  by (induction slots arbitrary: cs) simp_all

lemma fanout_nth:
  assumes "distinct (attached slots)" "p < length cs"
  shows "fold (deliver_slot X r) slots cs ! p =
     (if Some p \<in> set slots then deliver_core X r (cs ! p) else cs ! p)"
  using assms
proof (induction slots arbitrary: cs)
  case (Cons slot slots)
  show ?case
  proof (cases slot)
    case None
    with Cons show ?thesis by (simp add: deliver_slot_def)
  next
    case (Some a)
    with Cons have "a \<noteq> p" if "Some p \<in> set slots" using that by (auto simp flip: set_attached)
    with Some Cons show ?thesis by (auto simp: deliver_slot_def)
  qed
qed simp

lemma fanout_nth_topic:
  assumes "wf_topic t" "p < length (sub_retained t)"
  shows "fold (deliver_slot X r) (sub_slots t) (sub_retained t) ! p =
     (if connected t p then deliver_core X r (sub_retained t ! p) else sub_retained t ! p)"
  using assms by (simp add: fanout_nth wf_topic_def connected_def)

lemma Deliver_cases [case_names refused accepted]:
  obtains (refused) "pub_reliability pub = kReliable" "any_full X t"
      "Deliver X sz ctx now pub val derived t = (Publish_kWouldBlock, note_refused pub, t)"
  | (accepted) r where "\<not> (pub_reliability pub = kReliable \<and> any_full X t)"
      "r = \<lparr>envelope = make_envelope X ctx now derived, ordinal = accepted_ordinal t + 1, payload = val\<rparr>"
      "Deliver X sz ctx now pub val derived t = (Publish_kOk, note_publish sz pub,
         t\<lparr>accepted_ordinal := accepted_ordinal t + 1, master := slot_store X (master t) r,
           sub_retained := fold (deliver_slot X r) (sub_slots t) (sub_retained t)\<rparr>)"
  by (cases "pub_reliability pub = kReliable \<and> any_full X t") (simp_all add: Deliver_def Let_def)

lemma wf_topic_Deliver [wf_intros]:
  assumes "wf_topic t"
  shows "wf_topic (snd (snd (Deliver X sz ctx now pub val derived t)))"
proof (cases rule: Deliver_cases [of pub X t sz ctx now val derived])
  case (accepted r)
  have "list_all wf_core (fold (deliver_slot X r) (sub_slots t) (sub_retained t))"
    using assms unfolding list_all_length
    by (auto simp: fanout_nth wf_topic_def list_all_length wf_core_deliver)
  with accepted assms show ?thesis by (simp add: wf_topic_def)
qed (use assms in simp)

lemma any_full_iff:
  "any_full X t \<longleftrightarrow> (\<exists>p. connected t p \<and> core_full X (sub_retained t ! p))"
  by (force simp: any_full_def connected_def list_ex_iff split: option.splits)

context xmbase
begin

lemma deliver_core_room:
  assumes "wf_core c" "\<not> core_full X c"
  shows "drop_count (deliver_core X r c) = drop_count c"
    and "queue c = Some q \<Longrightarrow> \<exists>q'. queue (deliver_core X r c) = Some q' \<and> items q' = items q @ [r]"
  using assms push_None [of "the (queue c)" r]
  by (auto simp: wf_core_def deliver_core_def stamp_baseline_def core_full_def split: option.splits if_splits
      dest: push_Some)

lemma core_full_iff: "core_full X c \<longleftrightarrow> (\<exists>q. queue c = Some q \<and> capacity q \<le> length (items q))"
  by (simp add: core_full_def full_iff split: option.splits)

end

section \<open>Ownership of a topic\<close>

text \<open>Histories of \<^verbatim>\<open>AddPublisher\<close> and \<^verbatim>\<open>RemovePublisher\<close>, with the ownership each live publisher
  declared. The bound keeps the 64-bit publisher count from wrapping.\<close>

inductive own_reachable :: "('a, 's, 'q, 'c) XmBase \<Rightarrow> Ownership list \<Rightarrow> ('s, 'q) Topic \<Rightarrow> bool"
  for X :: "('a, 's, 'q, 'c) XmBase" where
  start: "own_reachable X [] (Topic_init X nm h ty)"
| added: "own_reachable X live t \<Longrightarrow> length live < 2 ^ 64 - 1 \<Longrightarrow>
    AddPublisher qos t = (Advertise_kOk, Some (pub :: 'a PubCore), t') \<Longrightarrow> own_reachable X (ownership qos # live) t'"
| removed: "own_reachable X live t \<Longrightarrow> o' \<in> set live \<Longrightarrow> own_reachable X (remove1 o' live) (RemovePublisher t)"

lemma own_reachable_inv:
  "own_reachable X live t \<Longrightarrow> publisher_count t = of_nat (length live) \<and> length live < 2 ^ 64 \<and>
     (\<forall>o'\<in>set live. o' = declared_ownership t) \<and> (1 < length live \<longrightarrow> declared_ownership t = kShared)"
proof (induction rule: own_reachable.induct)
  case (start nm h ty)
  show ?case by (simp add: Topic_init_def)
next
  case (added live t qos pub t')
  have count: "publisher_count t > 0 \<longleftrightarrow> live \<noteq> []"
    using added.IH of_nat_u64_less [of 0 "length live"] by simp
  from added show ?case
    using count by (cases "ownership qos"; cases "declared_ownership t") (auto simp: AddPublisher_def split: if_splits)
next
  case (removed live t o')
  then obtain n where n: "length live = Suc n" "length (remove1 o' live) = n"
    by (cases "length live") (auto simp: length_remove1)
  have "\<forall>x\<in>set (remove1 o' live). x = declared_ownership t"
    using removed.IH set_remove1_subset by fastforce
  with removed n show ?case by (simp add: RemovePublisher_def) auto
qed

section \<open>Properties\<close>

text \<open>C30. Reliable publishes are all-or-nothing: a refused publish changes nothing but the publisher's
  refusal count, and happens only because a connected subscriber's ring is full; an accepted one
  appends the record to every connected ring and drops nowhere.\<close>

theorem Deliver_all_or_nothing:
  assumes "xmbase X items capacity" "wf_topic t" "pub_reliability pub = kReliable"
    and "Deliver X sz ctx now pub val derived t = (st, pub', t')"
  shows "(st = Publish_kWouldBlock \<longrightarrow> t' = t \<and> pub' = note_refused pub \<and>
       (\<exists>p q. connected t p \<and> queue (sub_retained t ! p) = Some q \<and> capacity q \<le> length (items q))) \<and>
     (st = Publish_kOk \<longrightarrow> (\<forall>p. connected t p \<longrightarrow>
       drop_count (sub_retained t' ! p) = drop_count (sub_retained t ! p) \<and>
       (\<forall>q. queue (sub_retained t ! p) = Some q \<longrightarrow> (\<exists>q' r. queue (sub_retained t' ! p) = Some q' \<and>
          items q' = items q @ [r] \<and> payload r = val \<and> ordinal r = accepted_ordinal t + 1))))"
proof (cases rule: Deliver_cases [of pub X t sz ctx now val derived])
  case refused
  with assms(4) show ?thesis
    by (auto simp: any_full_iff xmbase.core_full_iff [OF assms(1)])
next
  case (accepted r)
  have eqs: "st = Publish_kOk" "payload r = val" "ordinal r = accepted_ordinal t + 1"
    using accepted(2,3) assms(4) by auto
  have "sub_retained t' ! p = deliver_core X r (sub_retained t ! p)" "wf_core (sub_retained t ! p)"
    "\<not> core_full X (sub_retained t ! p)" if "connected t p" for p
    using that accepted assms(2-4)
    by (auto simp: fanout_nth_topic any_full_iff wf_topic_def connected_def list_all_length)
  with eqs show ?thesis
    using xmbase.deliver_core_room [OF assms(1), where r = r] by simp blast
qed

definition demo_topic :: "(nat MailRecord option, nat \<times> nat MailRecord list) Topic" where
  "demo_topic = snd (AddSubscriber XmBase_nat (Qos_default\<lparr>history := Queue 1\<rparr>)
     (snd (AddSubscriber XmBase_nat Qos_default (Topic_init XmBase_nat ''pose'' 7 ''Pose''))))"

lemma wf_demo_topic: "wf_topic demo_topic"
  unfolding demo_topic_def by (intro wf_intros)

definition demo_pub :: "nat PubCore" where
  "demo_pub = PubCore_init (Qos_default\<lparr>reliability := kReliable\<rparr>)"

theorem Deliver_all_or_nothing_witness:
  "\<exists>t'. Deliver XmBase_nat 8 (1, 2, 3) 1000 demo_pub 42 None demo_topic = (Publish_kOk, note_publish 8 demo_pub, t') \<and>
     drop_count (sub_retained t' ! 1) = 0 \<and> (\<exists>q r. queue (sub_retained t' ! 1) = Some q \<and> snd q = [r] \<and> payload r = 42)"
proof -
  note defs = demo_topic_def AddSubscriber_def attach_core_def free_slot_def scan_def Topic_init_def kMaxSubscribers_def
    seed_core_def SubCore_init_def Qos_default_def LatestOnly_def Queue_def numeral_eq_Suc
  obtain st pub' t' where d: "Deliver XmBase_nat 8 (1, 2, 3) 1000 demo_pub 42 None demo_topic = (st, pub', t')"
    by (rule prod_cases3)
  then have st: "st = Publish_kOk \<and> pub' = note_publish 8 demo_pub"
    by (simp add: Deliver_def any_full_def core_full_def Let_def demo_pub_def PubCore_init_def defs)
  have c: "connected demo_topic 1" "queue (sub_retained demo_topic ! 1) = Some (1, [])"
    "drop_count (sub_retained demo_topic ! 1) = 0" by (simp_all add: connected_def defs)
  have "pub_reliability demo_pub = kReliable" by (simp add: demo_pub_def PubCore_init_def)
  from Deliver_all_or_nothing [OF ref.xmbase_axioms wf_demo_topic this d] st c d
  show ?thesis by (intro exI [of _ t']) fastforce
qed

text \<open>What one accepted publish does to each core of the topic: the master slot holds the new record,
  stamped with the publish time, the next ordinal and the lineage; every connected core receives
  that record once, and every other core is left as it was.\<close>

lemma Deliver_fanout:
  assumes "wf_topic t" "pub_reliability pub = kBestEffort"
  shows "\<exists>t' r. Deliver X sz ctx now pub val derived t = (Publish_kOk, note_publish sz pub, t') \<and>
     payload r = val \<and> ordinal r = accepted_ordinal t + 1 \<and> publish_stamp_ns (envelope r) = now \<and>
     origin_stamp_ns (envelope r) = (case derived of None \<Rightarrow> now | Some d \<Rightarrow> origin_ns d) \<and>
     hop_count (envelope r) = (case derived of None \<Rightarrow> 0 | Some d \<Rightarrow> hops d) \<and>
     accepted_ordinal t' = ordinal r \<and> master t' = slot_store X (master t) r \<and> wf_topic t' \<and>
     length (sub_retained t') = length (sub_retained t) \<and>
     (\<forall>p<length (sub_retained t). sub_retained t' ! p =
        (if connected t p then deliver_core X r (sub_retained t ! p) else sub_retained t ! p))"
proof (cases rule: Deliver_cases [of pub X t sz ctx now val derived])
  case (accepted r)
  let ?t = "snd (snd (Deliver X sz ctx now pub val derived t))"
  have "wf_topic ?t" using assms(1) by (rule wf_topic_Deliver)
  with accepted assms(1) show ?thesis
    by (intro exI [of _ ?t] exI [of _ r]) (simp add: make_envelope_def fanout_nth_topic)
qed (use assms in simp)

text \<open>C33. Warm start: a latest-only subscriber that joins a topic holding a value sees that value at once,
  with its original stamps, so that its age is the truth; taking the seed charges nothing and
  leaves the accounting baseline unset.\<close>

theorem AddSubscriber_warm_start:
  assumes "xmbase X items capacity" "wf_topic t" "hist_kind (history qos) = kLatestOnly"
    and "slot_load X (master t) = Some r" "AddSubscriber X qos t = (Retained p, t')"
  shows "connected t' p \<and> fst (TakeLatest X now (sub_retained t' ! p)) = fill_sample X (deadline qos) now r \<and>
     overwrite_count (snd (TakeLatest X now (sub_retained t' ! p))) = 0 \<and>
     last_consumed_ordinal (snd (TakeLatest X now (sub_retained t' ! p))) = kBaselineUnset"
proof -
  obtain i where i: "free_slot t = Some i" using assms(5)
    by (auto simp: AddSubscriber_def attach_core_def split: option.splits)
  then have slot: "i < length (sub_slots t)" by (auto simp: free_slot_def dest: scan_SomeD)
  have core: "sub_retained t' ! p = (SubCore_init X qos)\<lparr>latest := Some (slot_store X (slot_new X) r)\<rparr>"
    "connected t' p"
    using assms(3-5) i slot
    by (auto simp: AddSubscriber_def attach_core_def seed_core_def SubCore_init_def connected_def
        intro: set_update_memI)
  have load: "slot_load X (slot_store X (slot_new X) r) = Some r"
    by (rule message_slot.load_store [OF xmbase.axioms(1) [OF assms(1)]])
  have "\<not> kBaselineUnset < ordinal r" by (simp add: kBaselineUnset_def)
  then show ?thesis using core load by (simp add: TakeLatest_def SubCore_init_def)
qed

theorem AddSubscriber_warm_start_witness:
  "\<exists>p t'. AddSubscriber XmBase_nat Qos_default (demo_topic\<lparr>master := Some (demo_mail 3)\<rparr>) = (Retained p, t') \<and>
     smp_value (fst (TakeLatest XmBase_nat 9000 (sub_retained t' ! p))) = Some 30"
proof -
  let ?t = "demo_topic\<lparr>master := Some (demo_mail 3)\<rparr>"
  obtain p t' where a: "AddSubscriber XmBase_nat Qos_default ?t = (Retained p, t')"
    by (simp add: demo_topic_def AddSubscriber_def attach_core_def free_slot_def scan_def Topic_init_def
        kMaxSubscribers_def numeral_eq_Suc)
  have "wf_topic ?t" using wf_demo_topic by (simp add: wf_topic_def)
  from AddSubscriber_warm_start [OF ref.xmbase_axioms this _ _ a, of "demo_mail 3" 9000] a
  show ?thesis by (auto simp: Qos_default_def LatestOnly_def demo_mail_def)
qed

text \<open>C34. The ownership rule holds through every history of publishers joining and leaving: an exclusive
  publisher is always alone, and the next advertise is refused exactly when a live publisher
  exists and it or the newcomer is exclusive.\<close>

theorem ownership_rule:
  assumes "own_reachable X live t"
  shows "(kExclusive \<in> set live \<longrightarrow> live = [kExclusive]) \<and>
     (fst (AddPublisher qos t :: AdvertiseStatus \<times> 'a PubCore option \<times> _) = Advertise_kOwnershipRefused \<longleftrightarrow>
        live \<noteq> [] \<and> (kExclusive \<in> set live \<or> ownership qos = kExclusive))"
proof -
  note inv = own_reachable_inv [OF assms]
  have count: "publisher_count t > 0 \<longleftrightarrow> live \<noteq> []"
    using inv of_nat_u64_less [of 0 "length live"] by simp
  have decl: "declared_ownership t = kExclusive \<longleftrightarrow> kExclusive \<in> set live" if "live \<noteq> []"
    using inv that by (cases live) auto
  have "live = [kExclusive]" if "kExclusive \<in> set live"
    using inv that by (cases live; cases "tl live") auto
  with count decl show ?thesis by (auto simp: AddPublisher_def)
qed

theorem ownership_rule_witness:
  "fst (AddPublisher Qos_default (snd (snd (AddPublisher Qos_default (Topic_init XmBase_nat ''pose'' 7 ''Pose'') ::
     _ \<times> nat PubCore option \<times> _))) :: _ \<times> nat PubCore option \<times> _) = Advertise_kOwnershipRefused"
proof -
  obtain st out t' where a: "AddPublisher Qos_default (Topic_init XmBase_nat ''pose'' 7 ''Pose'') =
      (st, out :: nat PubCore option, t')"
    by (rule prod_cases3)
  then have "st = Advertise_kOk" "out = Some (PubCore_init Qos_default)"
    by (auto simp: AddPublisher_def Topic_init_def)
  with a have "own_reachable XmBase_nat [ownership Qos_default] t'"
    using own_reachable.added [OF own_reachable.start, of Qos_default XmBase_nat "''pose''" 7 "''Pose''"] by simp
  from ownership_rule [OF this, of Qos_default] a show ?thesis by (simp add: Qos_default_def)
qed

end
