(* ===== verification/Topic_Race.thy ===== *)
theory Topic_Race
  imports Topic_Fanout
begin

text \<open>
  The publish path of \<^verbatim>\<open>Topic<T>::Deliver\<close> interleaved with wiring and takes. One publish is in
  flight at a time (exclusive ownership, or the writer mutex of a declared-shared topic); each
  load of a fan-out slot, each delivery through a loaded pointer, the ordinal increment and the
  master store are separate steps, and so are the seeding and the attach of \<^verbatim>\<open>AddSubscriber\<close>.
  Takes, attaches and detaches may happen between any two of them. The ghost history of a core
  lists what was really delivered into it and taken from it.
\<close>

section \<open>A take split at its mailbox load\<close>

definition account_latest :: "nanos \<Rightarrow> 'a MailRecord \<Rightarrow> ('s, 'q) SubCore \<Rightarrow> ('s, 'q) SubCore" where
  "account_latest now r sub = note_staleness (is_stale (sub_deadline sub) now r)
     (note_gap (ordinal r) (note_take now r sub))"

lemma TakeLatest_split:
  "latest sub = Some m \<Longrightarrow> slot_load X m = Some r \<Longrightarrow> snd (TakeLatest X now sub) = account_latest now r sub"
  by (simp add: TakeLatest_def account_latest_def)

lemma note_update_latest [simp]:
  "note_take now r (sub\<lparr>latest := m\<rparr>) = (note_take now r sub)\<lparr>latest := m\<rparr>"
  "note_gap ord (sub\<lparr>latest := m\<rparr>) = (note_gap ord sub)\<lparr>latest := m\<rparr>"
  "note_staleness b (sub\<lparr>latest := m\<rparr>) = (note_staleness b sub)\<lparr>latest := m\<rparr>"
  by (simp_all add: note_take_def note_gap_def note_staleness_def Let_def)

lemma note_update_last [simp]:
  "note_take now r (sub\<lparr>last_consumed_ordinal := w\<rparr>) = (note_take now r sub)\<lparr>last_consumed_ordinal := w\<rparr>"
  "note_staleness b (sub\<lparr>last_consumed_ordinal := w\<rparr>) = (note_staleness b sub)\<lparr>last_consumed_ordinal := w\<rparr>"
  by (simp_all add: note_take_def note_staleness_def Let_def)

lemma note_gap_idle: "\<not> last_consumed_ordinal sub < ord \<Longrightarrow> note_gap ord sub = sub"
  by (simp add: note_gap_def Let_def)

text \<open>A delivery that lands between the load and the accounting of a take has the same effect as
  one after the take: the taker either holds a delivered record, or the seed, which lies at or
  below the baseline the delivery stamps.\<close>

lemma account_deliver_commute:
  assumes "latest sub = Some m" "ordinal r \<noteq> kBaselineUnset"
    and "last_consumed_ordinal sub = kBaselineUnset \<Longrightarrow> ordinal r \<le> ordinal r' - 1"
  shows "account_latest now r (deliver_core X r' sub) = deliver_core X r' (account_latest now r sub)"
proof (cases "last_consumed_ordinal sub = kBaselineUnset")
  case True
  then have "\<not> ordinal r' - 1 < ordinal r" "\<not> last_consumed_ordinal sub < ordinal r"
    using assms(3) by (simp_all add: kBaselineUnset_def)
  then show ?thesis
    using assms(1) True
    by (simp add: account_latest_def deliver_core_def stamp_baseline_def note_gap_idle)
next
  case False
  then show ?thesis
    using assms(1,2) by (simp add: account_latest_def deliver_core_def stamp_baseline_def)
qed

section \<open>Steps\<close>

datatype 'a pub_pc =
    Idle
  | Check nat 'a "DerivedInfo option" nat
  | Accept nat 'a "DerivedInfo option"
  | Store nat "'a MailRecord"
  | Fan nat "'a MailRecord" nat
  | FanAt nat "'a MailRecord" nat nat

fun pc_owner :: "'a pub_pc \<Rightarrow> nat option" where
  "pc_owner Idle = None"
| "pc_owner (Check k val derived i) = Some k"
| "pc_owner (Accept k val derived) = Some k"
| "pc_owner (Store k r) = Some k"
| "pc_owner (Fan k r i) = Some k"
| "pc_owner (FanAt k r i p) = Some k"

record ('a, 's, 'q) race =
  top :: "('s, 'q) Topic"
  pubs :: "nat \<Rightarrow> 'a PubCore option"
  pc :: "'a pub_pc"
  seeding :: "('s, 'q) SubCore option"
  total :: nat
  hist :: "nat \<Rightarrow> ('a MailRecord, nanos) mb_event list"

definition race_init :: "('a, 's, 'q, 'c) XmBase \<Rightarrow> string \<Rightarrow> u64 \<Rightarrow> string \<Rightarrow> ('a, 's, 'q) race" where
  "race_init X nm h ty = \<lparr>top = Topic_init X nm h ty, pubs = (\<lambda>_. None), pc = Idle, seeding = None,
     total = 0, hist = (\<lambda>_. [])\<rparr>"

definition slot_full :: "('a, 's, 'q, 'c) XmBase \<Rightarrow> ('s, 'q) Topic \<Rightarrow> nat \<Rightarrow> bool" where
  "slot_full X t i = (case sub_slots t ! i of None \<Rightarrow> False | Some p \<Rightarrow> core_full X (sub_retained t ! p))"

definition set_core :: "nat \<Rightarrow> ('s, 'q) SubCore \<Rightarrow> ('s, 'q) Topic \<Rightarrow> ('s, 'q) Topic" where
  "set_core p c t = t\<lparr>sub_retained := (sub_retained t)[p := c]\<rparr>"

definition log :: "nat \<Rightarrow> 'e \<Rightarrow> (nat \<Rightarrow> 'e list) \<Rightarrow> nat \<Rightarrow> 'e list" where
  "log p e h = h(p := h p @ [e])"

inductive race_step :: "('a, 's, 'q, 'c) XmBase \<Rightarrow> u64 \<Rightarrow> ('a, 's, 'q) race \<Rightarrow> ('a, 's, 'q) race \<Rightarrow> bool"
  for X :: "('a, 's, 'q, 'c) XmBase" and sz :: u64 where
  advertise: "pubs s k = None \<Longrightarrow> AddPublisher qos (top s) = (st, out, t') \<Longrightarrow>
    race_step X sz s (s\<lparr>top := t', pubs := (pubs s)(k := out)\<rparr>)"
| retire: "pubs s k = Some pub \<Longrightarrow> pc_owner (pc s) \<noteq> Some k \<Longrightarrow>
    race_step X sz s (s\<lparr>top := RemovePublisher (top s), pubs := (pubs s)(k := None)\<rparr>)"
| call: "pc s = Idle \<Longrightarrow> pubs s k = Some pub \<Longrightarrow>
    race_step X sz s (s\<lparr>pc := (if pub_reliability pub = kReliable then Check k val derived 0
                              else Accept k val derived)\<rparr>)"
| check_next: "pc s = Check k val derived i \<Longrightarrow> i < length (sub_slots (top s)) \<Longrightarrow>
    \<not> slot_full X (top s) i \<Longrightarrow> race_step X sz s (s\<lparr>pc := Check k val derived (Suc i)\<rparr>)"
| refuse: "pc s = Check k val derived i \<Longrightarrow> i < length (sub_slots (top s)) \<Longrightarrow>
    slot_full X (top s) i \<Longrightarrow> pubs s k = Some pub \<Longrightarrow>
    race_step X sz s (s\<lparr>pc := Idle, pubs := (pubs s)(k := Some (note_refused pub))\<rparr>)"
| checked: "pc s = Check k val derived i \<Longrightarrow> i = length (sub_slots (top s)) \<Longrightarrow>
    race_step X sz s (s\<lparr>pc := Accept k val derived\<rparr>)"
| accept: "pc s = Accept k val derived \<Longrightarrow> ord = accepted_ordinal (top s) + 1 \<Longrightarrow>
    race_step X sz s (s\<lparr>top := (top s)\<lparr>accepted_ordinal := ord\<rparr>, total := total s + 1,
      pc := Store k \<lparr>envelope = make_envelope X ctx now derived, ordinal = ord, payload = val\<rparr>\<rparr>)"
| store: "pc s = Store k r \<Longrightarrow>
    race_step X sz s (s\<lparr>top := (top s)\<lparr>master := slot_store X (master (top s)) r\<rparr>, pc := Fan k r 0\<rparr>)"
| fan_skip: "pc s = Fan k r i \<Longrightarrow> i < length (sub_slots (top s)) \<Longrightarrow> sub_slots (top s) ! i = None \<Longrightarrow>
    race_step X sz s (s\<lparr>pc := Fan k r (Suc i)\<rparr>)"
| fan_load: "pc s = Fan k r i \<Longrightarrow> i < length (sub_slots (top s)) \<Longrightarrow> sub_slots (top s) ! i = Some p \<Longrightarrow>
    race_step X sz s (s\<lparr>pc := FanAt k r i p\<rparr>)"
| fan_put: "pc s = FanAt k r i p \<Longrightarrow>
    race_step X sz s (s\<lparr>top := set_core p (deliver_core X r (sub_retained (top s) ! p)) (top s),
      hist := log p (Put r) (hist s), pc := Fan k r (Suc i)\<rparr>)"
| fan_done: "pc s = Fan k r i \<Longrightarrow> i = length (sub_slots (top s)) \<Longrightarrow> pubs s k = Some pub \<Longrightarrow>
    race_step X sz s (s\<lparr>pc := Idle, pubs := (pubs s)(k := Some (note_publish sz pub))\<rparr>)"
| seed: "seeding s = None \<Longrightarrow> hist_depth (history qos) \<noteq> 0 \<Longrightarrow>
    race_step X sz s (s\<lparr>seeding := Some (seed_core X (top s) (SubCore_init X qos))\<rparr>)"
| attach: "seeding s = Some core \<Longrightarrow>
    race_step X sz s (s\<lparr>seeding := None, top := snd (attach_core core (top s))\<rparr>)"
| detach: "race_step X sz s (s\<lparr>top := RemoveSubscriber (Retained p) (top s)\<rparr>)"
| take_latest: "p < length (sub_retained (top s)) \<Longrightarrow>
    race_step X sz s (s\<lparr>top := set_core p (snd (TakeLatest X now (sub_retained (top s) ! p))) (top s),
      hist := log p (Get now) (hist s)\<rparr>)"
| try_take: "p < length (sub_retained (top s)) \<Longrightarrow> latest (sub_retained (top s) ! p) = None \<Longrightarrow>
    race_step X sz s (s\<lparr>top := set_core p (snd (TryTake X now (sub_retained (top s) ! p))) (top s),
      hist := log p (Get now) (hist s)\<rparr>)"

inductive race_reachable :: "('a, 's, 'q, 'c) XmBase \<Rightarrow> u64 \<Rightarrow> ('a, 's, 'q) race \<Rightarrow> bool"
  for X :: "('a, 's, 'q, 'c) XmBase" and sz :: u64 where
  start: "race_reachable X sz (race_init X nm h ty)"
| step: "race_reachable X sz s \<Longrightarrow> race_step X sz s s' \<Longrightarrow> race_reachable X sz s'"

section \<open>Structural invariant\<close>

fun behind :: "'a pub_pc \<Rightarrow> nat \<Rightarrow> bool" where
  "behind (Store k r) i = True"
| "behind (Fan k r j) i = (j \<le> i)"
| "behind (FanAt k r j q) i = (j < i)"
| "behind _ i = False"

fun inflight :: "'a pub_pc \<Rightarrow> nat option" where
  "inflight (FanAt k r j q) = Some q"
| "inflight _ = None"

fun pc_record :: "'a pub_pc \<Rightarrow> 'a MailRecord option" where
  "pc_record (Store k r) = Some r"
| "pc_record (Fan k r j) = Some r"
| "pc_record (FanAt k r j q) = Some r"
| "pc_record _ = None"

fun cleared :: "'a pub_pc \<Rightarrow> nat \<Rightarrow> bool" where
  "cleared Idle i = False"
| "cleared (Check k v d j) i = (i < j)"
| "cleared (Accept k v d) i = True"
| "cleared (Store k r) i = True"
| "cleared (Fan k r j) i = (j \<le> i)"
| "cleared (FanAt k r j q) i = (j < i)"

text \<open>A core is live when a delivery can still reach it, and due when the record in flight has not
  reached it yet and will.\<close>

definition live :: "('a, 's, 'q) race \<Rightarrow> nat \<Rightarrow> bool" where
  "live s p \<longleftrightarrow> connected (top s) p \<or> inflight (pc s) = Some p"

definition due :: "('a, 's, 'q) race \<Rightarrow> nat \<Rightarrow> bool" where
  "due s p \<longleftrightarrow> (\<exists>i<length (sub_slots (top s)). sub_slots (top s) ! i = Some p \<and> behind (pc s) i) \<or>
     inflight (pc s) = Some p"

definition anchored :: "('s, 'q) Topic \<Rightarrow> nat \<Rightarrow> nat \<Rightarrow> bool" where
  "anchored t j q \<longleftrightarrow> q < length (sub_retained t) \<and>
     (\<forall>i<length (sub_slots t). sub_slots t ! i = Some q \<longrightarrow> i = j)"

fun pc_anchored :: "('s, 'q) Topic \<Rightarrow> 'a pub_pc \<Rightarrow> bool" where
  "pc_anchored t (FanAt k r j q) = anchored t j q"
| "pc_anchored t _ = True"

definition race_wf :: "('a, 's, 'q) race \<Rightarrow> bool" where
  "race_wf s \<longleftrightarrow> wf_topic (top s) \<and> accepted_ordinal (top s) = of_nat (total s) \<and>
     (\<forall>r. pc_record (pc s) = Some r \<longrightarrow> ordinal r = of_nat (total s) \<and> 0 < total s) \<and>
     (\<forall>k. pc_owner (pc s) = Some k \<longrightarrow> pubs s k \<noteq> None) \<and>
     pc_anchored (top s) (pc s) \<and> pred_option wf_core (seeding s) \<and>
     (\<forall>p\<ge>length (sub_retained (top s)). hist s p = [])"

lemma pc_anchored_mono:
  assumes "pc_anchored t c"
    and "length (sub_slots t') = length (sub_slots t)" "length (sub_retained t) \<le> length (sub_retained t')"
    and "\<And>i q. i < length (sub_slots t) \<Longrightarrow> q < length (sub_retained t) \<Longrightarrow>
          sub_slots t' ! i = Some q \<Longrightarrow> sub_slots t ! i = Some q"
  shows "pc_anchored t' c"
  using assms by (cases c) (auto simp: anchored_def)

lemma attached_inj:
  "distinct (attached slots) \<Longrightarrow> i < length slots \<Longrightarrow> j < length slots \<Longrightarrow>
   slots ! i = Some p \<Longrightarrow> slots ! j = Some p \<Longrightarrow> i = j"
proof (induction slots arbitrary: i j)
  case (Cons slot slots)
  have notin: "slots ! n \<noteq> Some p" if "slot = Some p" "n < length slots" for n
  proof
    assume "slots ! n = Some p"
    then have "Some p \<in> set slots" using that nth_mem by metis
    then show False using Cons.prems(1) that(1) by simp
  qed
  have "distinct (attached slots)" using Cons.prems(1) by (cases slot) simp_all
  with Cons.IH Cons.prems(2-) notin show ?case by (auto simp: nth_Cons split: nat.splits)
qed simp

lemma wf_topic_inj:
  "wf_topic t \<Longrightarrow> i < length (sub_slots t) \<Longrightarrow> j < length (sub_slots t) \<Longrightarrow>
   sub_slots t ! i = Some p \<Longrightarrow> sub_slots t ! j = Some p \<Longrightarrow> i = j"
  unfolding wf_topic_def by (blast intro: attached_inj)

lemma connectedI: "i < length (sub_slots t) \<Longrightarrow> sub_slots t ! i = Some p \<Longrightarrow> connected t p"
  unfolding connected_def by (metis nth_mem)

lemma connected_bound: "wf_topic t \<Longrightarrow> connected t p \<Longrightarrow> p < length (sub_retained t)"
  by (simp add: wf_topic_def connected_def)

lemma RemoveSubscriber_slots:
  "length (sub_slots (RemoveSubscriber c t)) = length (sub_slots t)"
  "sub_retained (RemoveSubscriber c t) = sub_retained t"
  "accepted_ordinal (RemoveSubscriber c t) = accepted_ordinal t"
  "i < length (sub_slots t) \<Longrightarrow> sub_slots (RemoveSubscriber c t) ! i = Some q \<Longrightarrow> sub_slots t ! i = Some q"
  by (auto simp: RemoveSubscriber_def nth_list_update_if split: core_ptr.splits option.splits if_splits)

lemma RemoveSubscriber_connected: "connected (RemoveSubscriber c t) q \<Longrightarrow> connected t q"
  unfolding connected_def in_set_conv_nth using RemoveSubscriber_slots by metis

lemma attach_core_slots:
  "length (sub_slots (snd (attach_core c t))) = length (sub_slots t)"
  "accepted_ordinal (snd (attach_core c t)) = accepted_ordinal t"
  "length (sub_retained t) \<le> length (sub_retained (snd (attach_core c t)))"
  "p < length (sub_retained t) \<Longrightarrow> sub_retained (snd (attach_core c t)) ! p = sub_retained t ! p"
  "p < length (sub_retained (snd (attach_core c t))) \<Longrightarrow> \<not> p < length (sub_retained t) \<Longrightarrow>
     p = length (sub_retained t) \<and> sub_retained (snd (attach_core c t)) ! p = c"
  "i < length (sub_slots t) \<Longrightarrow> sub_slots (snd (attach_core c t)) ! i = Some q \<Longrightarrow>
     q < length (sub_retained t) \<Longrightarrow> sub_slots t ! i = Some q"
  by (auto simp: attach_core_def nth_append nth_list_update_if split: option.splits if_splits)

lemma attach_core_keeps:
  "i < length (sub_slots t) \<Longrightarrow> sub_slots t ! i = Some q \<Longrightarrow> sub_slots (snd (attach_core c t)) ! i = Some q"
  by (auto simp: attach_core_def nth_list_update_if free_slot_def split: option.splits dest: scan_SomeD)

lemma set_core_simps [simp]:
  "sub_slots (set_core p c t) = sub_slots t" "accepted_ordinal (set_core p c t) = accepted_ordinal t"
  "sub_retained (set_core p c t) = (sub_retained t)[p := c]"
  "connected (set_core p c t) q = connected t q" "master (set_core p c t) = master t"
  by (simp_all add: set_core_def connected_def)

lemma wf_topic_set_core [wf_intros]: "wf_topic t \<Longrightarrow> wf_core c \<Longrightarrow> wf_topic (set_core p c t)"
  by (auto simp: wf_topic_def set_core_def list_all_length nth_list_update_if)

lemma wf_topic_core: "wf_topic t \<Longrightarrow> p < length (sub_retained t) \<Longrightarrow> wf_core (sub_retained t ! p)"
  by (simp add: wf_topic_def list_all_length)

lemma wf_topic_updates [simp]:
  "wf_topic (t\<lparr>accepted_ordinal := w\<rparr>) = wf_topic t" "wf_topic (t\<lparr>master := m\<rparr>) = wf_topic t"
  by (simp_all add: wf_topic_def)

lemma log_simps [simp]:
  "log p e h p = h p @ [e]" "q \<noteq> p \<Longrightarrow> log p e h q = h q"
  by (simp_all add: log_def)

lemma AddPublisher_frame:
  assumes "AddPublisher qos t = (st, out, t')"
  shows "wf_topic t' = wf_topic t" "accepted_ordinal t' = accepted_ordinal t"
    "sub_retained t' = sub_retained t" "sub_slots t' = sub_slots t" "connected t' = connected t"
  using assms by (auto simp: AddPublisher_def wf_topic_def connected_def fun_eq_iff split: if_splits)

lemma RemovePublisher_frame [simp]:
  "wf_topic (RemovePublisher t) = wf_topic t" "accepted_ordinal (RemovePublisher t) = accepted_ordinal t"
  "sub_retained (RemovePublisher t) = sub_retained t" "sub_slots (RemovePublisher t) = sub_slots t"
  "connected (RemovePublisher t) = connected t"
  by (auto simp: RemovePublisher_def wf_topic_def connected_def fun_eq_iff)

lemma race_wf_step:
  assumes "race_step X sz s s'" "race_wf s"
  shows "race_wf s'"
  using assms
proof (induction rule: race_step.induct)
  case (advertise s k qos st out t')
  then show ?case
    using AddPublisher_frame [OF advertise.hyps(2)] pc_anchored_mono [of "top s" "pc s" t']
    by (auto simp: race_wf_def)
next
  case (retire s k pub)
  then show ?case using pc_anchored_mono [of "top s" "pc s" "RemovePublisher (top s)"] by (simp add: race_wf_def)
next
  case (fan_load s k r i p)
  have wf: "wf_topic (top s)" using fan_load.prems by (simp add: race_wf_def)
  then have "p < length (sub_retained (top s))"
    using fan_load connected_bound connectedI by blast
  moreover have "j = i" if "j < length (sub_slots (top s))" "sub_slots (top s) ! j = Some p" for j
    by (rule wf_topic_inj [OF wf that(1) fan_load.hyps(2) that(2) fan_load.hyps(3)])
  ultimately have "anchored (top s) i p" by (simp add: anchored_def)
  with fan_load show ?case by (simp add: race_wf_def)
next
  case (fan_put s k r i p)
  then show ?case
    by (auto simp: race_wf_def anchored_def log_def intro!: wf_topic_set_core wf_core_deliver wf_topic_core)
next
  case (seed s qos)
  then show ?case by (simp add: race_wf_def wf_core_seed)
next
  case (attach s core)
  then show ?case
    using attach_core_slots(1,2,3,6) [where c = core and t = "top s"]
      pc_anchored_mono [of "top s" "pc s" "snd (attach_core core (top s))"]
    by (simp add: race_wf_def wf_topic_attach)
next
  case (detach s p)
  then show ?case
    using RemoveSubscriber_slots(4) [of _ "top s" "Retained p"]
      pc_anchored_mono [of "top s" "pc s" "RemoveSubscriber (Retained p) (top s)"]
    by (simp add: race_wf_def RemoveSubscriber_slots(1-3) wf_topic_RemoveSubscriber)
next
  case (take_latest p s now)
  then show ?case
    using pc_anchored_mono [of "top s" "pc s" "set_core p _ (top s)"]
    by (auto simp: race_wf_def log_def intro!: wf_topic_set_core wf_core_TakeLatest wf_topic_core)
next
  case (try_take p s now)
  then show ?case
    using pc_anchored_mono [of "top s" "pc s" "set_core p _ (top s)"]
    by (auto simp: race_wf_def log_def intro!: wf_topic_set_core wf_core_TryTake wf_topic_core)
qed (simp_all add: race_wf_def)

lemma race_wf_reachable: "race_reachable X sz s \<Longrightarrow> race_wf s"
proof (induction rule: race_reachable.induct)
  case (start nm h ty)
  show ?case by (simp add: race_wf_def race_init_def wf_topic_init) (simp add: Topic_init_def)
qed (rule race_wf_step)


lemma due_connected:
  assumes "wf_topic (top s)" "i < length (sub_slots (top s))" "sub_slots (top s) ! i = Some p"
  shows "due s p \<longleftrightarrow> behind (pc s) i \<or> inflight (pc s) = Some p"
  unfolding due_def using wf_topic_inj [OF assms(1) _ assms(2) _ assms(3)] assms(2,3) by blast

text \<open>Two states agree on who is live and due when every core attached in the later one sits where
  it sat, and the publisher's position relative to that slot is the same.\<close>

lemma live_due_frame:
  assumes "wf_topic (top s)" "wf_topic (top s')" "live s' p" "inflight (pc s') = inflight (pc s)"
    and "length (sub_slots (top s')) = length (sub_slots (top s))"
    and "\<And>i. i < length (sub_slots (top s)) \<Longrightarrow> sub_slots (top s') ! i = Some p \<Longrightarrow>
       sub_slots (top s) ! i = Some p \<and> behind (pc s') i = behind (pc s) i"
  shows "live s p \<and> due s' p = due s p"
proof (cases "connected (top s') p")
  case True
  then obtain i where i: "i < length (sub_slots (top s'))" "sub_slots (top s') ! i = Some p"
    by (auto simp: connected_def in_set_conv_nth)
  with assms(5,6) have j: "i < length (sub_slots (top s))" "sub_slots (top s) ! i = Some p"
    "behind (pc s') i = behind (pc s) i" by auto
  then show ?thesis
    using due_connected [OF assms(2) i] due_connected [OF assms(1) j(1,2)] assms(4) connectedI [OF j(1,2)]
    by (simp add: live_def)
next
  case False
  then show ?thesis using assms(3,4) by (simp add: live_def due_def)
qed

section \<open>Accounting invariant\<close>

context xmbase
begin

definition fresh :: "('s, 'q) SubCore \<Rightarrow> bool" where
  "fresh c \<longleftrightarrow> wf_core c \<and> last_consumed_ordinal c = kBaselineUnset \<and> overwrite_count c = 0 \<and>
     take_count c = 0 \<and> drop_count c = 0 \<and> (\<forall>q. queue c = Some q \<longrightarrow> items q = [] \<and> 0 < capacity q)"

definition core_ok :: "nat \<Rightarrow> bool \<Rightarrow> bool \<Rightarrow> ('a MailRecord, nanos) mb_event list \<Rightarrow> ('s, 'q) SubCore \<Rightarrow> bool" where
  "core_ok tot lv du h c \<longleftrightarrow> (case latest c of
     Some _ \<Rightarrow> (\<exists>b. mailbox.simulates b (ledger_of h) c \<and>
        (lv \<longrightarrow> deliveries h \<noteq> [] \<longrightarrow> b + length (deliveries h) + (if du then 1 else 0) = tot))
   | None \<Rightarrow> take_count c + drop_count c + of_nat (length (items (the (queue c)))) =
        of_nat (length (deliveries h)))"

lemma fresh_seed: "hist_depth (history qos) \<noteq> 0 \<Longrightarrow> fresh (seed_core X t (SubCore_init X qos))"
  using wf_core_seed [of X t qos]
  by (auto simp: fresh_def seed_core_def SubCore_init_def items_new capacity_new unat_gt_0
      split: option.splits)

lemma core_ok_fresh:
  assumes "fresh c"
  shows "core_ok tot lv du [] c"
proof (cases "latest c")
  case None
  with assms show ?thesis by (auto simp: core_ok_def fresh_def wf_core_def split: if_splits)
next
  case (Some m)
  have "mailbox.simulates 0 ledger0 c"
    using assms Some by (intro mailbox.simulates_start) (simp_all add: fresh_def kBaselineUnset_def)
  with Some show ?thesis by (auto simp: core_ok_def)
qed

lemma core_ok_weaken:
  "core_ok tot lv du h c \<Longrightarrow> (lv' \<Longrightarrow> lv \<and> du' = du) \<Longrightarrow> core_ok tot lv' du' h c"
  unfolding core_ok_def by (cases lv') (auto split: option.splits)

lemma core_ok_accept: "core_ok tot lv False h c \<Longrightarrow> core_ok (Suc tot) lv True h c"
  unfolding core_ok_def by (auto split: option.splits)

lemma core_ok_TakeLatest:
  assumes "core_ok tot lv du h c"
  shows "core_ok tot lv du (h @ [Get now]) (snd (TakeLatest X now c))"
proof (cases "latest c")
  case None
  with assms show ?thesis by (simp add: core_ok_def TakeLatest_def)
next
  case (Some m)
  have "latest (snd (TakeLatest X now c)) = Some m"
    using Some by (simp add: TakeLatest_def split: option.splits)
  moreover obtain b where b: "mailbox.simulates b (ledger_of h) c"
    "lv \<longrightarrow> deliveries h \<noteq> [] \<longrightarrow> b + length (deliveries h) + (if du then 1 else 0) = tot"
    using assms Some by (auto simp: core_ok_def)
  ultimately show ?thesis
    using mailbox.simulates_take [OF b(1), of now] b(2)
    by (auto simp: core_ok_def simp del: ledger_step.simps)
qed

lemma core_ok_TryTake:
  assumes "core_ok tot lv du h c" "wf_core c" "latest c = None"
  shows "core_ok tot lv du (h @ [Get now]) (snd (TryTake X now c))"
proof -
  have q: "queue c \<noteq> None" using assms(2,3) by (auto simp: wf_core_def split: if_splits)
  then have "latest (snd (TryTake X now c)) = None"
    using assms(3) by (auto simp: TryTake_def split: option.splits)
  then show ?thesis
    using assms q fifo.take_balance [of c now] fifo.take_frame [of c now]
    by (simp add: core_ok_def algebra_simps)
qed

lemma core_ok_put:
  assumes "core_ok tot True True h c" "wf_core c" "ordinal r = of_nat tot" "0 < tot" "tot < 2 ^ 64 - 1"
  shows "core_ok tot lv False (h @ [Put r]) (deliver_core X r c)"
proof (cases "latest c")
  case None
  then have q: "queue c \<noteq> None" using assms(2) by (auto simp: wf_core_def split: if_splits)
  then have "latest (deliver_core X r c) = None" using None by (auto simp: deliver_core_def split: option.splits)
  then show ?thesis
    using assms None q fifo.deliver_balance [of c r] fifo.deliver_frame [of c r]
    by (simp add: core_ok_def algebra_simps)
next
  case (Some m)
  have len: "delivered (ledger_of h) = length (deliveries h)" by (rule delivered_ledger_of)
  obtain b where b: "mailbox.simulates b (ledger_of h) c" "b + length (deliveries h) + 1 = tot"
  proof -
    obtain b where sim: "mailbox.simulates b (ledger_of h) c"
      and cnt: "deliveries h \<noteq> [] \<longrightarrow> b + length (deliveries h) + 1 = tot"
      using assms(1) Some by (auto simp: core_ok_def)
    show thesis
    proof (cases "deliveries h = []")
      case True
      then have "mailbox.simulates (tot - 1) (ledger_of h) c"
        using len assms(5) by (intro mailbox.simulates_rebase [OF sim]) simp_all
      then show thesis using that [of "tot - 1"] True assms(4) by simp
    qed (use that [of b] sim cnt in simp)
  qed
  have tot: "Suc (b + delivered (ledger_of h)) = tot" using b(2) len by simp
  have "mailbox.simulates b (ledger_step (Put r) (ledger_of h)) (deliver_core X r c)"
    by (rule mailbox.simulates_deliver [OF b(1)]) (use assms(3,5) in \<open>simp_all only: tot\<close>)
  moreover have "latest (deliver_core X r c) \<noteq> None" using Some by (simp add: deliver_core_def)
  ultimately show ?thesis using b(2)
    by (auto simp: core_ok_def simp del: ledger_step.simps)
qed

definition race_acc :: "('a, 's, 'q) race \<Rightarrow> bool" where
  "race_acc s \<longleftrightarrow> pred_option fresh (seeding s) \<and> (total s < 2 ^ 64 - 1 \<longrightarrow>
     (\<forall>p<length (sub_retained (top s)). core_ok (total s) (live s p) (due s p) (hist s p) (sub_retained (top s) ! p)))"

text \<open>A step that changes no core and no ordinal keeps the accounting when the cores it leaves
  live are due as before.\<close>

lemma race_acc_frame:
  assumes "race_acc s" "total s' = total s" "hist s' = hist s" "pred_option fresh (seeding s')"
    and "sub_retained (top s') = sub_retained (top s)"
    and "\<And>p. p < length (sub_retained (top s)) \<Longrightarrow> live s' p \<Longrightarrow> live s p \<and> due s' p = due s p"
  shows "race_acc s'"
  using assms unfolding race_acc_def by (auto intro: core_ok_weaken)

text \<open>A step that rewrites one core.\<close>

lemma race_acc_update:
  assumes "race_acc s" "total s' = total s" "hist s' = log p e (hist s)" "seeding s' = seeding s"
    and "sub_retained (top s') = (sub_retained (top s))[p := c]"
    and "\<And>q. q \<noteq> p \<Longrightarrow> live s' q \<Longrightarrow> live s q \<and> due s' q = due s q"
    and "\<And>tot. tot < 2 ^ 64 - 1 \<Longrightarrow> tot = total s \<Longrightarrow>
       core_ok tot (live s p) (due s p) (hist s p) (sub_retained (top s) ! p) \<Longrightarrow>
       core_ok tot (live s' p) (due s' p) (hist s p @ [e]) c"
  shows "race_acc s'"
  unfolding race_acc_def
proof (intro conjI impI allI)
  show "pred_option fresh (seeding s')" using assms(1,4) by (simp add: race_acc_def)
next
  fix q
  assume tot: "total s' < 2 ^ 64 - 1" and q: "q < length (sub_retained (top s'))"
  have old: "core_ok (total s) (live s q) (due s q) (hist s q) (sub_retained (top s) ! q)"
    using assms(1,2,5) tot q by (simp add: race_acc_def)
  show "core_ok (total s') (live s' q) (due s' q) (hist s' q) (sub_retained (top s') ! q)"
  proof (cases "q = p")
    case True
    then show ?thesis using assms(2,3,5) assms(7) [of "total s"] old tot q by simp
  next
    case False
    then show ?thesis using assms(2,3,5) assms(6) old by (auto intro: core_ok_weaken)
  qed
qed

lemma race_acc_accept:
  assumes "race_acc s" "total s' = Suc (total s)" "hist s' = hist s" "seeding s' = seeding s"
    and "sub_retained (top s') = sub_retained (top s)"
    and "\<And>p. \<not> due s p" "\<And>p. live s' p = live s p \<and> due s' p = live s' p"
  shows "race_acc s'"
  unfolding race_acc_def
proof (intro conjI impI allI)
  show "pred_option fresh (seeding s')" using assms(1,4) by (simp add: race_acc_def)
next
  fix p
  assume "total s' < 2 ^ 64 - 1" "p < length (sub_retained (top s'))"
  then have "core_ok (total s) (live s p) False (hist s p) (sub_retained (top s) ! p)"
    using assms by (simp add: race_acc_def)
  from core_ok_weaken [OF core_ok_accept [OF this], of "live s' p" "due s' p"] assms(2,3,5,7)
  show "core_ok (total s') (live s' p) (due s' p) (hist s' p) (sub_retained (top s') ! p)" by simp
qed

lemma race_acc_attach:
  assumes "race_acc s" "race_wf s" "seeding s = Some core"
  shows "race_acc (s\<lparr>seeding := None, top := snd (attach_core core (top s))\<rparr>)" (is "race_acc ?s'")
  unfolding race_acc_def
proof (intro conjI impI allI)
  fix p
  assume tot: "total ?s' < 2 ^ 64 - 1" and p: "p < length (sub_retained (top ?s'))"
  have wf: "wf_topic (top s)" "wf_topic (top ?s')"
    using assms by (simp_all add: race_wf_def wf_topic_attach)
  show "core_ok (total ?s') (live ?s' p) (due ?s' p) (hist ?s' p) (sub_retained (top ?s') ! p)"
  proof (cases "p < length (sub_retained (top s))")
    case True
    have slots: "sub_slots (top s) ! i = Some p"
      if "i < length (sub_slots (top s))" "sub_slots (top ?s') ! i = Some p" for i
      using that True attach_core_slots(6) [of i "top s" core p] by simp
    have "live s p \<and> due ?s' p = due s p" if "live ?s' p"
      using wf that by (rule live_due_frame) (use slots in \<open>simp_all add: attach_core_slots(1)\<close>)
    moreover have "core_ok (total s) (live s p) (due s p) (hist s p) (sub_retained (top s) ! p)"
      using assms(1) tot True by (simp add: race_acc_def)
    ultimately show ?thesis using True by (auto simp: attach_core_slots(4) intro: core_ok_weaken)
  next
    case False
    then have "sub_retained (top ?s') ! p = core" "hist s p = []"
      using p attach_core_slots(5) [of p core "top s"] assms(2) by (auto simp: race_wf_def)
    then show ?thesis using assms(1,3) core_ok_fresh by (simp add: race_acc_def)
  qed
qed simp

lemma race_acc_load:
  assumes pc: "pc s = Fan k r i" and i: "i < length (sub_slots (top s))" "sub_slots (top s) ! i = Some p" and acc: "race_acc s"
  shows "race_acc (s\<lparr>pc := FanAt k r i p\<rparr>)"
proof -
  have "live s q \<and> due (s\<lparr>pc := FanAt k r i p\<rparr>) q = due s q" if "live (s\<lparr>pc := FanAt k r i p\<rparr>) q" for q
  proof (cases "q = p")
    case True
    then show ?thesis using pc i connectedI [OF i] by (auto simp: live_def due_def)
  next
    case False
    have ne: "sub_slots (top s) ! i \<noteq> Some q" using False i by simp
    then have "i < j \<longleftrightarrow> i \<le> j" if "sub_slots (top s) ! j = Some q" for j
      using that by (auto simp: le_less)
    with False that pc show ?thesis by (auto simp: live_def due_def)
  qed
  then show ?thesis by (intro race_acc_frame [OF acc]) (simp_all add: acc [unfolded race_acc_def])
qed

lemma race_acc_put:
  assumes pc: "pc s = FanAt k r i p" and wf: "race_wf s" and acc: "race_acc s"
  shows "race_acc (s\<lparr>top := set_core p (deliver_core X r (sub_retained (top s) ! p)) (top s),
      hist := log p (Put r) (hist s), pc := Fan k r (Suc i)\<rparr>)" (is "race_acc ?s'")
proof -
  have anch: "anchored (top s) i p" "wf_core (sub_retained (top s) ! p)"
    using pc wf by (auto simp: race_wf_def anchored_def wf_topic_core)
  have ord: "ordinal r = of_nat (total s)" "0 < total s" using pc wf by (auto simp: race_wf_def)
  have "\<not> due ?s' p" using anch(1) by (auto simp: due_def anchored_def)
  moreover have "live s p" "due s p" using pc by (simp_all add: live_def due_def)
  ultimately have "core_ok tot (live ?s' p) (due ?s' p) (hist s p @ [Put r]) (deliver_core X r (sub_retained (top s) ! p))"
    if "tot < 2 ^ 64 - 1" "tot = total s" "core_ok tot (live s p) (due s p) (hist s p) (sub_retained (top s) ! p)" for tot
    using core_ok_put [of tot "hist s p" _ r "live ?s' p"] that anch(2) ord by simp
  then show ?thesis
    using pc by (intro race_acc_update [OF acc, where p = p and e = "Put r"])
      (simp_all add: live_def due_def Suc_le_eq)
qed

lemma race_acc_detach:
  assumes wf: "race_wf s" and acc: "race_acc s"
  shows "race_acc (s\<lparr>top := RemoveSubscriber (Retained p) (top s)\<rparr>)" (is "race_acc ?s'")
proof -
  have w: "wf_topic (top s)" "wf_topic (top ?s')"
    using wf by (simp_all add: race_wf_def wf_topic_RemoveSubscriber)
  have "live s q \<and> due ?s' q = due s q" if "live ?s' q" for q
    using w that by (rule live_due_frame)
      (use RemoveSubscriber_slots(4) [of _ "top s" "Retained p" q] in \<open>simp_all add: RemoveSubscriber_slots(1)\<close>)
  then show ?thesis
    by (intro race_acc_frame [OF acc]) (simp_all add: acc [unfolded race_acc_def] RemoveSubscriber_slots(2))
qed

lemma race_acc_step:
  assumes "race_step X sz s s'" "race_wf s" "race_acc s"
  shows "race_acc s'"
  using assms
proof (induction rule: race_step.induct)
  case (advertise s k qos st out t')
  show ?case
    by (rule race_acc_frame [OF advertise.prems(2)])
      (use advertise.prems AddPublisher_frame [OF advertise.hyps(2)] in \<open>simp_all add: race_acc_def live_def due_def\<close>)
next
  case (accept s k val derived ord ctx now)
  then show ?case
    by (intro race_acc_accept [OF accept.prems(2)])
      (auto simp: due_def live_def connected_def in_set_conv_nth)
next
  case (fan_skip s k r i)
  have wf: "wf_topic (top s)" using fan_skip.prems by (simp add: race_wf_def)
  show ?case
    by (rule race_acc_frame [OF fan_skip.prems(2)], simp_all add: fan_skip.prems(2) [unfolded race_acc_def])
      (rule live_due_frame, use wf fan_skip.hyps in \<open>auto simp: le_less Suc_le_eq\<close>)
next
  case (fan_load s k r i p)
  then show ?case by (intro race_acc_load)
next
  case (fan_put s k r i p)
  then show ?case by (intro race_acc_put)
next
  case (fan_done s k r i pub)
  then show ?case
    by (intro race_acc_frame [OF fan_done.prems(2)]) (auto simp: race_acc_def live_def due_def)
next
  case (seed s qos)
  then show ?case
    by (intro race_acc_frame [OF seed.prems(2)]) (auto simp: fresh_seed live_def due_def)
next
  case (attach s core)
  then show ?case by (intro race_acc_attach)
next
  case (detach s p)
  then show ?case by (intro race_acc_detach)
next
  case (take_latest p s now)
  show ?case
    by (rule race_acc_update [OF take_latest.prems(2), where p = p])
      (auto simp: live_def due_def core_ok_TakeLatest)
next
  case (try_take p s now)
  then have "wf_core (sub_retained (top s) ! p)" by (simp add: race_wf_def wf_topic_core)
  with try_take show ?case
    by (intro race_acc_update [OF try_take.prems(2), where p = p])
      (auto simp: live_def due_def core_ok_TryTake)
qed (auto simp: race_acc_def live_def due_def connected_def elim!: race_acc_frame)

lemma race_acc_reachable: "race_reachable X sz s \<Longrightarrow> race_acc s"
proof (induction rule: race_reachable.induct)
  case (start nm h ty)
  show ?case by (simp add: race_acc_def race_init_def) (simp add: Topic_init_def)
next
  case (step s s')
  then show ?case using race_acc_step race_wf_reachable by blast
qed

text \<open>The room a reliable publisher's pre-check establishes is still there when its record lands:
  until then only takes touch a checked ring, and a newly attached ring is empty.\<close>

definition has_room :: "('s, 'q) Topic \<Rightarrow> 'a pub_pc \<Rightarrow> bool" where
  "has_room t c \<longleftrightarrow> (\<forall>i<length (sub_slots t). cleared c i \<longrightarrow> \<not> slot_full X t i) \<and>
     (\<forall>q. inflight c = Some q \<longrightarrow> \<not> core_full X (sub_retained t ! q))"

definition race_room :: "('a, 's, 'q) race \<Rightarrow> bool" where
  "race_room s \<longleftrightarrow> (\<forall>k pub. pc_owner (pc s) = Some k \<longrightarrow> pubs s k = Some pub \<longrightarrow>
     pub_reliability pub = kReliable \<longrightarrow> has_room (top s) (pc s))"

lemma slot_full_updates [simp]:
  "slot_full X (t\<lparr>accepted_ordinal := w\<rparr>) i = slot_full X t i" "slot_full X (t\<lparr>master := m\<rparr>) i = slot_full X t i"
  by (simp_all add: slot_full_def cong: option.case_cong)

lemma has_room_cong:
  "sub_slots t' = sub_slots t \<Longrightarrow> sub_retained t' = sub_retained t \<Longrightarrow> has_room t' c = has_room t c"
  by (simp add: has_room_def slot_full_def cong: option.case_cong)

lemma has_room_mono:
  assumes "has_room t c" "length (sub_slots t') = length (sub_slots t)"
    and "\<And>i q. i < length (sub_slots t) \<Longrightarrow> sub_slots t' ! i = Some q \<Longrightarrow> core_full X (sub_retained t' ! q) \<Longrightarrow>
       sub_slots t ! i = Some q \<and> core_full X (sub_retained t ! q)"
    and "\<And>q. inflight c = Some q \<Longrightarrow> core_full X (sub_retained t' ! q) \<Longrightarrow> core_full X (sub_retained t ! q)"
  shows "has_room t' c"
  using assms unfolding has_room_def slot_full_def by (force split: option.splits)

lemma core_full_take:
  "core_full X (snd (TakeLatest X now c)) = core_full X c"
  "core_full X (snd (TryTake X now c)) \<Longrightarrow> core_full X c"
  by (auto simp: core_full_def TakeLatest_def TryTake_def full_iff split: option.splits dest: pop_Some)

lemma core_full_fresh: "fresh c \<Longrightarrow> \<not> core_full X c"
  by (auto simp: fresh_def core_full_def full_iff split: option.splits)

lemma has_room_set_core:
  assumes "has_room t c" "core_full X d \<Longrightarrow> core_full X (sub_retained t ! p)"
  shows "has_room (set_core p d t) c"
  by (rule has_room_mono [OF assms(1)]) (use assms(2) in \<open>auto simp: nth_list_update_if split: if_splits\<close>)

lemma has_room_attach:
  assumes "has_room t c" "fresh d" "wf_topic t" "pc_anchored t c"
  shows "has_room (snd (attach_core d t)) c"
proof (rule has_room_mono [OF assms(1)])
  fix i q
  assume i: "i < length (sub_slots t)" "sub_slots (snd (attach_core d t)) ! i = Some q"
    and full: "core_full X (sub_retained (snd (attach_core d t)) ! q)"
  have "q < length (sub_retained (snd (attach_core d t)))"
    using i wf_topic_attach [of t d] assms(2,3) connected_bound connectedI [of i "snd (attach_core d t)" q]
    by (simp add: attach_core_slots(1) fresh_def)
  moreover have "q < length (sub_retained t)"
    using full calculation attach_core_slots(5) [of q d t] core_full_fresh [OF assms(2)]
    by (cases "q < length (sub_retained t)") auto
  ultimately show "sub_slots t ! i = Some q \<and> core_full X (sub_retained t ! q)"
    using i full attach_core_slots(4) [of q t d] attach_core_slots(6) [of i t d q] by simp
next
  fix q
  assume "inflight c = Some q" "core_full X (sub_retained (snd (attach_core d t)) ! q)"
  then show "core_full X (sub_retained t ! q)"
    using assms(4) by (cases c) (auto simp: anchored_def attach_core_slots(4))
qed (simp add: attach_core_slots(1))

lemma slot_full_set_core:
  "sub_slots t ! i \<noteq> Some p \<Longrightarrow> slot_full X (set_core p c t) i = slot_full X t i"
  by (auto simp: slot_full_def nth_list_update_if split: option.splits)

lemma has_room_put:
  assumes "anchored t i p" "has_room t (FanAt k r i p)"
  shows "has_room (set_core p c t) (Fan k r (Suc i))"
  unfolding has_room_def
proof (intro conjI allI impI)
  fix j
  assume j: "j < length (sub_slots (set_core p c t))" "cleared (Fan k r (Suc i)) j"
  then have "sub_slots t ! j \<noteq> Some p" using assms(1) by (auto simp: anchored_def)
  then show "\<not> slot_full X (set_core p c t) j"
    using assms(2) j by (simp add: slot_full_set_core has_room_def)
qed simp

lemma race_room_step:
  assumes "race_step X sz s s'" "race_wf s" "race_acc s" "race_room s"
  shows "race_room s'"
  using assms
proof (induction rule: race_step.induct)
  case (advertise s k qos st out t')
  have "has_room t' (pc s) = has_room (top s) (pc s)"
    by (rule has_room_cong) (simp_all add: AddPublisher_frame [OF advertise.hyps(2)])
  then show ?case using advertise by (auto simp: race_room_def race_wf_def split: if_splits)
next
  case (retire s k pub)
  then show ?case by (auto simp: race_room_def has_room_cong [of "RemovePublisher (top s)" "top s"])
next
  case (call s k pub val derived)
  then show ?case by (auto simp: race_room_def has_room_def)
next
  case (check_next s k val derived i)
  then show ?case by (auto simp: race_room_def has_room_def less_Suc_eq)
next
  case (accept s k val derived ord ctx now)
  then show ?case by (auto simp: race_room_def has_room_def)
next
  case (store s k r)
  then show ?case by (auto simp: race_room_def has_room_def)
next
  case (fan_load s k r i p)
  have "\<not> slot_full X (top s) i" if "has_room (top s) (Fan k r i)"
    using that fan_load.hyps(2) by (simp add: has_room_def)
  with fan_load show ?case by (auto simp: race_room_def has_room_def slot_full_def)
next
  case (fan_put s k r i p)
  then show ?case using has_room_put [of "top s" i p k r]
    by (auto simp: race_room_def race_wf_def)
next
  case (seed s qos)
  then show ?case by (simp add: race_room_def)
next
  case (attach s core)
  then show ?case using has_room_attach [of "top s" "pc s" core]
    by (auto simp: race_room_def race_wf_def race_acc_def)
next
  case (detach s p)
  have "has_room (RemoveSubscriber (Retained p) (top s)) (pc s)" if "has_room (top s) (pc s)"
    by (rule has_room_mono [OF that])
      (use RemoveSubscriber_slots(4) [of _ "top s" "Retained p"] in \<open>simp_all add: RemoveSubscriber_slots(1,2)\<close>)
  with detach show ?case by (auto simp: race_room_def)
next
  case (take_latest p s now)
  then show ?case by (auto simp: race_room_def core_full_take intro!: has_room_set_core)
next
  case (try_take p s now)
  then show ?case by (auto simp: race_room_def dest: core_full_take(2) intro!: has_room_set_core)
qed (auto simp: race_room_def has_room_def split: if_splits)

lemma race_room_reachable: "race_reachable X sz s \<Longrightarrow> race_room s"
proof (induction rule: race_reachable.induct)
  case (start nm h ty)
  show ?case by (simp add: race_room_def race_init_def)
next
  case (step s s')
  then show ?case using race_room_step race_wf_reachable race_acc_reachable by blast
qed

lemma overwrite_exact:
  assumes "race_reachable X sz s" "total s < 2 ^ 64 - 1"
    and "p < length (sub_retained (top s))" "latest (sub_retained (top s) ! p) \<noteq> None"
  shows "overwrite_count (sub_retained (top s) ! p) = of_nat (overwritten (ledger_of (hist s p)))"
proof -
  obtain m where m: "latest (sub_retained (top s) ! p) = Some m" using assms(4) by auto
  have "core_ok (total s) (live s p) (due s p) (hist s p) (sub_retained (top s) ! p)"
    using assms race_acc_reachable [OF assms(1)] by (simp add: race_acc_def)
  then obtain b where "mailbox.simulates b (ledger_of (hist s p)) (sub_retained (top s) ! p)"
    unfolding core_ok_def m option.case by blast
  then show ?thesis by (rule mailbox.simulates_charged)
qed

lemma queue_conserved:
  assumes "race_reachable X sz s" "total s < 2 ^ 64 - 1"
    and "p < length (sub_retained (top s))" "latest (sub_retained (top s) ! p) = None"
  shows "take_count (sub_retained (top s) ! p) + drop_count (sub_retained (top s) ! p) +
     of_nat (ring_size X (the (queue (sub_retained (top s) ! p)))) = of_nat (length (deliveries (hist s p)))"
  using assms race_acc_reachable [OF assms(1)] by (auto simp: race_acc_def core_ok_def size_items)

lemma reliable_no_drop:
  assumes "race_reachable X sz s" "pc s = FanAt k r i p" "pubs s k = Some pub" "pub_reliability pub = kReliable"
  shows "drop_count (deliver_core X r (sub_retained (top s) ! p)) = drop_count (sub_retained (top s) ! p)"
proof -
  have "\<not> core_full X (sub_retained (top s) ! p)"
    using race_room_reachable [OF assms(1)] assms(2-) by (simp add: race_room_def has_room_def)
  then show ?thesis
    using push_None by (auto simp: deliver_core_def core_full_def stamp_baseline_def split: option.splits)
qed

end

section \<open>A run\<close>

lemma race_check_run:
  assumes "race_reachable X sz (s\<lparr>pc := Check k v d 0\<rparr>)" "\<And>i. i < length (sub_slots (top s)) \<Longrightarrow> \<not> slot_full X (top s) i"
    and "n \<le> length (sub_slots (top s))"
  shows "race_reachable X sz (s\<lparr>pc := Check k v d n\<rparr>)"
  using assms(3)
proof (induction n)
  case (Suc n)
  from race_step.check_next [of "s\<lparr>pc := Check k v d n\<rparr>" k v d n X sz] Suc assms(2)
    race_reachable.step [of X sz "s\<lparr>pc := Check k v d n\<rparr>"]
  show ?case by simp
qed (use assms(1) in simp)

definition race_demo :: "(nat, nat MailRecord option, nat \<times> nat MailRecord list) race" where
  "race_demo =
     (let t0 = Topic_init XmBase_ref ''pose'' 7 ''Pose'';
          t1 = snd (AddSubscriber XmBase_ref Qos_default t0);
          t2 = snd (AddSubscriber XmBase_ref (Qos_default\<lparr>history := Queue 4\<rparr>) t1);
          a = AddPublisher (Qos_default\<lparr>reliability := kReliable\<rparr>) t2
      in \<lparr>top = snd (snd a), pubs = (\<lambda>_. None)(0 := fst (snd a)), pc = Idle, seeding = None,
          total = 0, hist = (\<lambda>_. [])\<rparr>)"

lemma race_subscribe:
  assumes "race_reachable X sz s" "seeding s = None" "hist_depth (history qos) \<noteq> 0"
  shows "race_reachable X sz (s\<lparr>top := snd (AddSubscriber X qos (top s))\<rparr>)"
proof -
  have "s\<lparr>seeding := None, top := t\<rparr> = s\<lparr>top := t\<rparr>" for t using assms(2) by (cases s) simp
  with race_reachable.step [OF race_reachable.step [OF assms(1) race_step.seed [OF assms(2,3)]] race_step.attach]
  show ?thesis by (simp add: AddSubscriber_def)
qed

lemma race_demo_reachable: "race_reachable XmBase_nat 8 race_demo"
proof -
  have q: "hist_depth (history Qos_default) \<noteq> 0" "hist_depth (history (Qos_default\<lparr>history := Queue 4\<rparr>)) \<noteq> 0"
    by (simp_all add: Qos_default_def LatestOnly_def Queue_def)
  define t where "t = snd (AddSubscriber XmBase_nat (Qos_default\<lparr>history := Queue 4\<rparr>)
      (snd (AddSubscriber XmBase_nat Qos_default (Topic_init XmBase_nat ''pose'' 7 ''Pose''))))"
  obtain st out t' where a: "AddPublisher (Qos_default\<lparr>reliability := kReliable\<rparr>) t = (st, out :: nat PubCore option, t')"
    by (rule prod_cases3)
  have "race_reachable XmBase_nat 8 ((race_init XmBase_nat ''pose'' 7 ''Pose'')\<lparr>top := t\<rparr>)"
    using race_subscribe [OF race_subscribe [OF race_reachable.start [of XmBase_nat 8 "''pose''" 7 "''Pose''"] _ q(1)] _ q(2)]
    by (simp add: race_init_def t_def)
  from race_reachable.step [OF this race_step.advertise [of _ 0 "Qos_default\<lparr>reliability := kReliable\<rparr>" st out t']] a
  show ?thesis by (simp add: race_demo_def race_init_def Let_def flip: t_def)
qed

definition demo_record :: "nat MailRecord" where
  "demo_record = \<lparr>envelope = make_envelope XmBase_nat (1, 2, 3) 1000 None, ordinal = 1, payload = 42\<rparr>"

lemma race_demo_eval:
  "sub_slots (top race_demo) = [Some 0, Some 1] @ replicate 62 None"
  "sub_retained (top race_demo) = [SubCore_init XmBase_ref Qos_default, SubCore_init XmBase_ref (Qos_default\<lparr>history := Queue 4\<rparr>)]"
  "pubs race_demo 0 = Some (PubCore_init (Qos_default\<lparr>reliability := kReliable\<rparr>))"
  "accepted_ordinal (top race_demo) = 0" "total race_demo = 0" "hist race_demo = (\<lambda>_. [])" "seeding race_demo = None"
  "pc race_demo = Idle"
  by (simp_all add: race_demo_def Let_def AddSubscriber_def attach_core_def free_slot_def scan_def AddPublisher_def
      Topic_init_def kMaxSubscribers_def seed_core_def SubCore_init_def Qos_default_def LatestOnly_def Queue_def
      numeral_eq_Suc)

lemma race_demo_fan:
  obtains s pub where "race_reachable XmBase_ref 8 s" "pc s = FanAt 0 demo_record 1 1" "pubs s 0 = Some pub"
    "pub_reliability pub = kReliable" "total s = 1" "length (sub_retained (top s)) = 2"
    "latest (sub_retained (top s) ! 0) \<noteq> None" "latest (sub_retained (top s) ! 1) = None"
    "hist s 0 = [Put demo_record]"
proof -
  note [simp] = race_demo_eval
  have room: "\<not> slot_full XmBase_nat (top race_demo) i" if "i < length (sub_slots (top race_demo))" for i
    using that by (auto simp: slot_full_def core_full_def SubCore_init_def Qos_default_def LatestOnly_def Queue_def
        nth_Cons split: nat.splits)
  have "race_reachable XmBase_nat 8 (race_demo\<lparr>pc := Check 0 42 None 0\<rparr>)"
    using race_reachable.step [OF race_demo_reachable race_step.call [of race_demo 0 _ XmBase_nat 8 42 None]]
    by (simp add: PubCore_init_def)
  from race_check_run [OF this room, of 64] have "race_reachable XmBase_nat 8 (race_demo\<lparr>pc := Check 0 42 None 64\<rparr>)" by simp
  from race_reachable.step [OF this race_step.checked]
  have "race_reachable XmBase_nat 8 (race_demo\<lparr>pc := Accept 0 42 None\<rparr>)" by simp
  from race_reachable.step [OF this race_step.accept [where ctx = "(1, 2, 3)" and now = 1000]]
  have acc: "race_reachable XmBase_nat 8 (race_demo\<lparr>top := (top race_demo)\<lparr>accepted_ordinal := 1\<rparr>, total := 1, pc := Store 0 demo_record\<rparr>)"
    by (simp add: demo_record_def)
  let ?t = "(top race_demo)\<lparr>accepted_ordinal := 1, master := Some demo_record\<rparr>"
  from race_reachable.step [OF acc race_step.store]
  have "race_reachable XmBase_nat 8 (race_demo\<lparr>total := 1, top := ?t, pc := Fan 0 demo_record 0\<rparr>)" by simp
  from race_reachable.step [OF this race_step.fan_load]
  have "race_reachable XmBase_nat 8 (race_demo\<lparr>total := 1, top := ?t, pc := FanAt 0 demo_record 0 0\<rparr>)" by simp
  from race_reachable.step [OF this race_step.fan_put]
  have "race_reachable XmBase_nat 8 (race_demo\<lparr>total := 1, top := set_core 0 (deliver_core XmBase_nat demo_record (sub_retained ?t ! 0)) ?t,
      hist := log 0 (Put demo_record) (hist race_demo), pc := Fan 0 demo_record 1\<rparr>)" by simp
  from race_reachable.step [OF this race_step.fan_load]
  have fin: "race_reachable XmBase_nat 8 (race_demo\<lparr>total := 1, top := set_core 0 (deliver_core XmBase_nat demo_record (sub_retained ?t ! 0)) ?t,
      hist := log 0 (Put demo_record) (hist race_demo), pc := FanAt 0 demo_record 1 1\<rparr>)" by simp
  show thesis
    by (rule that [OF fin, of "PubCore_init (Qos_default\<lparr>reliability := kReliable\<rparr>)"]) (simp_all add: PubCore_init_def SubCore_init_def deliver_core_def Qos_default_def
        LatestOnly_def Queue_def)
qed

text \<open>One best-effort publisher and one latest-only subscriber in the first slot.\<close>

definition solo :: "nat \<Rightarrow> (nat, nat MailRecord option, nat \<times> nat MailRecord list) race \<Rightarrow> bool" where
  "solo n s \<longleftrightarrow> race_reachable XmBase_nat 8 s \<and> pc s = Idle \<and> (\<exists>pub. pubs s 0 = Some pub \<and> pub_reliability pub = kBestEffort) \<and>
     sub_slots (top s) = Some 0 # replicate 63 None \<and> length (sub_retained (top s)) = 1 \<and> latest (sub_retained (top s) ! 0) \<noteq> None \<and> total s = n"

lemma solo_start: "\<exists>s. solo 0 s \<and> hist s 0 = []"
proof -
  define t where "t = snd (AddSubscriber XmBase_nat Qos_default (Topic_init XmBase_nat ''pose'' 7 ''Pose''))"
  let ?i = "race_init XmBase_nat ''pose'' 7 ''Pose''"
  have q: "hist_depth (history Qos_default) \<noteq> 0" by (simp add: Qos_default_def LatestOnly_def)
  obtain st out t' where a: "AddPublisher Qos_default t = (st, out :: nat PubCore option, t')" by (rule prod_cases3)
  have "race_reachable XmBase_nat 8 (?i\<lparr>top := t\<rparr>)"
    using race_subscribe [OF race_reachable.start [of XmBase_nat 8 "''pose''" 7 "''Pose''"] _ q] by (simp add: race_init_def t_def)
  from race_reachable.step [OF this race_step.advertise [of _ 0 Qos_default st out t']] a
  have r: "race_reachable XmBase_nat 8 (?i\<lparr>top := t', pubs := (pubs ?i)(0 := out)\<rparr>)" by (simp add: race_init_def)
  have t: "sub_slots t = Some 0 # replicate 63 None" "sub_retained t = [SubCore_init XmBase_nat Qos_default]" "publisher_count t = 0"
    by (simp_all add: t_def AddSubscriber_def attach_core_def free_slot_def scan_def Topic_init_def kMaxSubscribers_def seed_core_def
      SubCore_init_def Qos_default_def LatestOnly_def numeral_eq_Suc)
  have out: "out = Some (PubCore_init Qos_default)" "sub_slots t' = sub_slots t" "sub_retained t' = sub_retained t"
    using a t(3) by (auto simp: AddPublisher_def Let_def)
  have "solo 0 (?i\<lparr>top := t', pubs := (pubs ?i)(0 := out)\<rparr>)"
    using r t out by (simp add: solo_def race_init_def PubCore_init_def SubCore_init_def Qos_default_def LatestOnly_def)
  moreover have "hist (?i\<lparr>top := t', pubs := (pubs ?i)(0 := out)\<rparr>) 0 = []" by (simp add: race_init_def)
  ultimately show ?thesis by blast
qed

lemma race_skip_run:
  assumes "race_reachable X sz (s\<lparr>pc := Fan k r 1\<rparr>)" "sub_slots (top s) = Some 0 # replicate m None" "n \<le> m"
  shows "race_reachable X sz (s\<lparr>pc := Fan k r (Suc n)\<rparr>)"
  using assms(3)
proof (induction n)
  case (Suc n)
  then have "race_reachable X sz (s\<lparr>pc := Fan k r (Suc n)\<rparr>)" by simp
  from race_reachable.step [OF this race_step.fan_skip [where k = k and r = r and i = "Suc n"]] Suc.prems assms(2)
  show ?case by simp
qed (use assms(1) in simp)

text \<open>An uninterrupted publish.\<close>

lemma solo_publish:
  assumes "solo n s"
  shows "\<exists>s' r. solo (Suc n) s' \<and> hist s' 0 = hist s 0 @ [Put r]"
proof -
  obtain pub where s: "race_reachable XmBase_nat 8 s" "pc s = Idle" "pubs s 0 = Some pub" "pub_reliability pub = kBestEffort"
    "sub_slots (top s) = Some 0 # replicate 63 None" "length (sub_retained (top s)) = 1" "latest (sub_retained (top s) ! 0) \<noteq> None" "total s = n"
    using assms by (auto simp: solo_def)
  define r where "r = \<lparr>envelope = make_envelope XmBase_nat (1, 2, 3) 1000 None, ordinal = accepted_ordinal (top s) + 1, payload = 42 :: nat\<rparr>"
  define t where "t = (top s)\<lparr>accepted_ordinal := accepted_ordinal (top s) + 1, master := slot_store XmBase_nat (master (top s)) r\<rparr>"
  define u where "u = s\<lparr>total := Suc n, top := set_core 0 (deliver_core XmBase_nat r (sub_retained t ! 0)) t, hist := log 0 (Put r) (hist s)\<rparr>"
  have "race_reachable XmBase_nat 8 (s\<lparr>pc := Accept 0 42 None\<rparr>)"
    using race_reachable.step [OF s(1) race_step.call [of s 0 pub XmBase_nat 8 42 None]] s(2-4) by simp
  from race_reachable.step [OF this race_step.accept [where ctx = "(1, 2, 3)" and now = 1000]]
  have "race_reachable XmBase_nat 8 (s\<lparr>top := (top s)\<lparr>accepted_ordinal := accepted_ordinal (top s) + 1\<rparr>, total := Suc n, pc := Store 0 r\<rparr>)"
    by (simp add: r_def s(8))
  from race_reachable.step [OF this race_step.store]
  have "race_reachable XmBase_nat 8 (s\<lparr>total := Suc n, top := t, pc := Fan 0 r 0\<rparr>)" by (simp add: t_def)
  from race_reachable.step [OF this race_step.fan_load [where p = 0]]
  have "race_reachable XmBase_nat 8 (s\<lparr>total := Suc n, top := t, pc := FanAt 0 r 0 0\<rparr>)" by (simp add: t_def s(5))
  from race_reachable.step [OF this race_step.fan_put]
  have "race_reachable XmBase_nat 8 (u\<lparr>pc := Fan 0 r 1\<rparr>)" by (simp add: u_def)
  moreover have u: "sub_slots (top u) = Some 0 # replicate 63 None" "pubs u 0 = Some pub" by (simp_all add: u_def t_def s(3,5))
  ultimately have "race_reachable XmBase_nat 8 (u\<lparr>pc := Fan 0 r 64\<rparr>)" using race_skip_run [where s = u and k = 0 and r = r and m = 63 and n = 63] by simp
  from race_reachable.step [OF this race_step.fan_done [where k = 0 and r = r and i = 64 and pub = pub]] u
  have f: "race_reachable XmBase_nat 8 (u\<lparr>pc := Idle, pubs := (pubs u)(0 := Some (note_publish 8 pub))\<rparr>)" by simp
  have "solo (Suc n) (u\<lparr>pc := Idle, pubs := (pubs u)(0 := Some (note_publish 8 pub))\<rparr>)"
    using f u s(4,6,7) by (auto simp: solo_def u_def t_def note_publish_def deliver_core_def)
  moreover have "hist (u\<lparr>pc := Idle, pubs := (pubs u)(0 := Some (note_publish 8 pub))\<rparr>) 0 = hist s 0 @ [Put r]" by (simp add: u_def)
  ultimately show ?thesis by blast
qed

lemma solo_overwritten:
  "\<exists>s r1 r2 r3. race_reachable XmBase_nat 8 s \<and> total s = 3 \<and> 0 < length (sub_retained (top s)) \<and> latest (sub_retained (top s) ! 0) \<noteq> None \<and>
     hist s 0 = [Put r1, Put r2, Put r3, Get 5000]"
proof -
  obtain s0 where s0: "solo 0 s0" "hist s0 0 = []" using solo_start by blast
  obtain s1 r1 where s1: "solo 1 s1" "hist s1 0 = [Put r1]" using solo_publish [OF s0(1)] s0(2) by auto
  obtain s2 r2 where s2: "solo 2 s2" "hist s2 0 = [Put r1, Put r2]" using solo_publish [OF s1(1)] s1(2) by (auto simp: numeral_2_eq_2)
  obtain s r3 where s: "solo 3 s" "hist s 0 = [Put r1, Put r2, Put r3]" using solo_publish [OF s2(1)] s2(2) by (auto simp: numeral_3_eq_3 numeral_2_eq_2)
  let ?s = "s\<lparr>top := set_core 0 (snd (TakeLatest XmBase_nat 5000 (sub_retained (top s) ! 0))) (top s), hist := log 0 (Get 5000) (hist s)\<rparr>"
  have "race_reachable XmBase_nat 8 ?s" by (rule race_reachable.step [OF _ race_step.take_latest]) (use s(1) in \<open>simp_all add: solo_def\<close>)
  moreover have "latest (sub_retained (top ?s) ! 0) \<noteq> None" using s(1) by (auto simp: solo_def TakeLatest_def split: option.splits)
  ultimately show ?thesis using s by (intro exI [of _ ?s] exI [of _ r1] exI [of _ r2] exI [of _ r3]) (simp add: solo_def)
qed

section \<open>Properties\<close>

text \<open>C27. Exact overwrite accounting under concurrency: whatever takes, joins, leaves and seedings interleave with the steps of the
  publishes, at every moment the values really delivered into a latest-only mailbox are the ones charged to its 64-bit overwrite
  counter, the ones its takes returned (each once) and the ones delivered since its last take. So right after a take the counter is
  exactly the number of values delivered and never read; between takes it does not move, and the values overwritten in the
  meantime are charged by the next take. Values published before or while it joined, and never delivered to it, are not charged.
  The bound says that fewer than $2^{64}-1$ values were accepted.\<close>

theorem race_overwrite_exact:
  assumes "xmbase X items capacity" "race_reachable X sz s" "total s < 2 ^ 64 - 1"
    and "p < length (sub_retained (top s))" "latest (sub_retained (top s) ! p) \<noteq> None"
  shows "overwrite_count (sub_retained (top s) ! p) + of_nat (values_read False (hist s p)) + of_nat (since_last_take (hist s p)) =
     of_nat (length (deliveries (hist s p)))"
  unfolding xmbase.overwrite_exact [OF assms] overwritten_ledger_of [symmetric] by simp

theorem race_overwrite_exact_witness:
  "\<exists>s. race_reachable XmBase_nat 8 s \<and> length (deliveries (hist s 0)) = 3 \<and> overwrite_count (sub_retained (top s) ! 0) = 2"
proof -
  from solo_overwritten obtain s r1 r2 r3 where s: "race_reachable XmBase_nat 8 s" "total s = 3" "0 < length (sub_retained (top s))"
    "latest (sub_retained (top s) ! 0) \<noteq> None" "hist s 0 = [Put r1, Put r2, Put r3, Get 5000]" by metis
  from race_overwrite_exact [OF ref.xmbase_axioms s(1) _ s(3,4)] s
  have "overwrite_count (sub_retained (top s) ! 0) + 1 = 3" by (simp add: since_last_take_def)
  then have "overwrite_count (sub_retained (top s) ! 0) + 1 - 1 = 2" by simp
  then show ?thesis using s by (intro exI [of _ s]) simp
qed

text \<open>C29. Queue conservation under concurrency: in every interleaving, for every queue subscriber the
  values delivered to it are exactly the values taken, the values dropped at a full ring (each
  counted once) and the values still in the ring.\<close>

theorem race_queue_conservation:
  assumes "xmbase X items capacity" "race_reachable X sz s" "total s < 2 ^ 64 - 1"
    and "p < length (sub_retained (top s))" "latest (sub_retained (top s) ! p) = None"
  shows "take_count (sub_retained (top s) ! p) + drop_count (sub_retained (top s) ! p) +
     of_nat (ring_size X (the (queue (sub_retained (top s) ! p)))) = of_nat (length (deliveries (hist s p)))"
  using assms by (rule xmbase.queue_conserved)

theorem race_queue_conservation_witness:
  "\<exists>s. race_reachable XmBase_nat 8 s \<and> length (sub_retained (top s)) = 2 \<and>
     take_count (sub_retained (top s) ! 1) + drop_count (sub_retained (top s) ! 1) +
     of_nat (ring_size XmBase_nat (the (queue (sub_retained (top s) ! 1)))) = of_nat (length (deliveries (hist s 1)))"
proof -
  obtain s where s: "race_reachable XmBase_nat 8 s" "total s = 1" "length (sub_retained (top s)) = 2"
    "latest (sub_retained (top s) ! 1) = None"
    by (rule race_demo_fan)
  from race_queue_conservation [OF ref.xmbase_axioms s(1), of 1] s show ?thesis by auto
qed

text \<open>C28. A reliable publisher never makes a subscriber drop: once its all-or-nothing pre-check has
  passed, the delivery into every ring it reaches finds room, even when subscribers join, leave
  and take between the check and the delivery.\<close>

theorem race_reliable_no_drop:
  assumes "xmbase X items capacity" "race_reachable X sz s" "pc s = FanAt k r i p"
    and "pubs s k = Some pub" "pub_reliability pub = kReliable"
  shows "drop_count (deliver_core X r (sub_retained (top s) ! p)) = drop_count (sub_retained (top s) ! p)"
  using assms by (rule xmbase.reliable_no_drop)

theorem race_reliable_no_drop_witness:
  "\<exists>s. race_reachable XmBase_nat 8 s \<and> pc s = FanAt 0 demo_record 1 1 \<and>
     drop_count (deliver_core XmBase_nat demo_record (sub_retained (top s) ! 1)) = drop_count (sub_retained (top s) ! 1)"
proof -
  obtain s pub where s: "race_reachable XmBase_nat 8 s" "pc s = FanAt 0 demo_record 1 1" "pubs s 0 = Some pub"
    "pub_reliability pub = kReliable"
    by (rule race_demo_fan)
  from race_reliable_no_drop [OF ref.xmbase_axioms s(1-4)] s show ?thesis by auto
qed

text \<open>A take is linearisable at its mailbox load: deliveries that land between the load and the
  counter updates of \<^verbatim>\<open>TakeLatest\<close> leave exactly the core that the same deliveries leave after an
  uninterrupted take, also when the loaded record is the warm-start seed and the first of the
  deliveries stamps the baseline.\<close>

lemma take_overlap:
  assumes "latest sub = Some m" "slot_load X m = Some r" "ordinal r = of_nat k" "k \<le> n" "n < 2 ^ 64 - 1"
    and "numbered ordinal n rs"
  shows "account_latest now r (fold (deliver_core X) rs sub) =
     fold (deliver_core X) rs (snd (TakeLatest X now sub))"
proof -
  have "account_latest now r (fold (deliver_core X) rs sub) = fold (deliver_core X) rs (account_latest now r sub)"
    using assms(1,4-6)
  proof (induction rs arbitrary: sub m n)
    case (Cons r' rs)
    have ord: "ordinal r' - 1 = of_nat n" "k < 2 ^ 64 - 1" using Cons.prems by simp_all
    have "ordinal r \<noteq> kBaselineUnset" using of_nat_u64_neq_max [OF ord(2)] assms(3) by (simp add: kBaselineUnset_def)
    moreover have "ordinal r \<le> ordinal r' - 1"
      unfolding ord(1) assms(3) using Cons.prems(2,3) by (simp add: word_le_nat_alt unat_of_nat)
    ultimately have "account_latest now r (deliver_core X r' sub) = deliver_core X r' (account_latest now r sub)"
      using Cons.prems(1) by (intro account_deliver_commute) auto
    moreover obtain m' where "latest (deliver_core X r' sub) = Some m'"
      using Cons.prems(1) by (simp add: deliver_core_def)
    ultimately show ?case using Cons.IH [of "deliver_core X r' sub" m' "Suc n"] Cons.prems by simp
  qed simp
  with TakeLatest_split [OF assms(1,2)] show ?thesis by simp
qed

lemma take_overlap_example:
  "account_latest 9000 (demo_mail 2) (fold (deliver_core XmBase_nat) [demo_mail 4, demo_mail 5]
     ((SubCore_init XmBase_nat Qos_default)\<lparr>latest := Some (Some (demo_mail 2))\<rparr>)) =
   fold (deliver_core XmBase_nat) [demo_mail 4, demo_mail 5]
     (snd (TakeLatest XmBase_nat 9000 ((SubCore_init XmBase_nat Qos_default)\<lparr>latest := Some (Some (demo_mail 2))\<rparr>)))"
  by (rule take_overlap [where k = 2 and n = 3 and m = "Some (demo_mail 2)"]) (simp_all add: demo_mail_def)

end
