(* ===== verification/Rpc_Topic.thy ===== *)
theory Rpc_Topic
  imports Topic_Fanout
begin

text \<open>
  Request/reply, \<^verbatim>\<open>RpcTopic<Req, Rsp>\<close> of \<^verbatim>\<open>include/xmmsg/detail/in_process.hpp\<close>: eight
  preallocated call slots driven by one atomic state word each, and correlation tokens that tie a
  reply to the call it answers. First the operations as they run uninterrupted, then every atomic
  access as a separate step of any number of calling threads and one serving thread. The
  expiry of a caller's deadline (\<^verbatim>\<open>EventCount::WaitUntil\<close> returning false) may happen at any time.
\<close>

section \<open>State\<close>

datatype CallSlotState = kFree | kClaimed | kPending | kTaken | kReplied | kAbandoned

text \<open>\<open>None\<close> in the payload fields is the value-initialised \<^verbatim>\<open>Req{}\<close> or \<^verbatim>\<open>Rsp{}\<close>.\<close>

record ('req, 'rsp) CallSlot =
  state :: CallSlotState
  correlation :: u64
  slot_envelope :: Envelope
  request :: "'req option"
  response :: "'rsp option"

definition Envelope_zero :: Envelope where
  "Envelope_zero = \<lparr>context_bytes = replicate kEnvelopeContextSize 0, publish_stamp_ns = 0,
     origin_stamp_ns = 0, hop_count = 0, flags = 0\<rparr>"

definition CallSlot_init :: "('req, 'rsp) CallSlot" where
  "CallSlot_init = \<lparr>state = kFree, correlation = 0, slot_envelope = Envelope_zero, request = None, response = None\<rparr>"

record ('req, 'rsp) RpcTopic = TopicBase +
  rpc_slots :: "('req, 'rsp) CallSlot list"
  next_correlation :: u64

definition kMaxInFlight :: nat where
  "kMaxInFlight = 8"

definition kIndexBits :: nat where
  "kIndexBits = 4"

definition RpcTopic_init :: "string \<Rightarrow> u64 \<Rightarrow> string \<Rightarrow> ('req, 'rsp) RpcTopic" where
  "RpcTopic_init nm h ty = \<lparr>name = nm, schema_hash = h, type_id = ty, publisher_count = 0,
     subscriber_count = 0, declared_ownership = kExclusive, accepted_ordinal = 0,
     rpc_slots = replicate kMaxInFlight CallSlot_init, next_correlation = 0\<rparr>"

section \<open>Wiring\<close>

definition AddServer :: "('req, 'rsp) RpcTopic \<Rightarrow> AdvertiseStatus \<times> ('req, 'rsp) RpcTopic" where
  "AddServer t = (if publisher_count t > 0 then (Advertise_kOwnershipRefused, t)
     else (Advertise_kOk, t\<lparr>publisher_count := publisher_count t + 1\<rparr>))"

definition RemoveServer :: "('req, 'rsp) RpcTopic \<Rightarrow> ('req, 'rsp) RpcTopic" where
  "RemoveServer t = t\<lparr>publisher_count := publisher_count t - 1\<rparr>"

definition AddClient :: "('req, 'rsp) RpcTopic \<Rightarrow> ('req, 'rsp) RpcTopic" where
  "AddClient t = t\<lparr>subscriber_count := subscriber_count t + 1\<rparr>"

definition RemoveClient :: "('req, 'rsp) RpcTopic \<Rightarrow> ('req, 'rsp) RpcTopic" where
  "RemoveClient t = t\<lparr>subscriber_count := subscriber_count t - 1\<rparr>"

section \<open>Slot operations\<close>

definition state_at :: "('req, 'rsp) RpcTopic \<Rightarrow> nat \<Rightarrow> CallSlotState" where
  "state_at t i = state (rpc_slots t ! i)"

definition upd_slot :: "nat \<Rightarrow> (('req, 'rsp) CallSlot \<Rightarrow> ('req, 'rsp) CallSlot) \<Rightarrow>
  ('req, 'rsp) RpcTopic \<Rightarrow> ('req, 'rsp) RpcTopic" where
  "upd_slot i f t = t\<lparr>rpc_slots := (rpc_slots t)[i := f (rpc_slots t ! i)]\<rparr>"

definition set_state :: "nat \<Rightarrow> CallSlotState \<Rightarrow> ('req, 'rsp) RpcTopic \<Rightarrow> ('req, 'rsp) RpcTopic" where
  "set_state i st = upd_slot i (\<lambda>s. s\<lparr>state := st\<rparr>)"

text \<open>\<^verbatim>\<open>compare_exchange_strong\<close> on a slot's state word.\<close>

definition cas_state :: "nat \<Rightarrow> CallSlotState \<Rightarrow> CallSlotState \<Rightarrow> ('req, 'rsp) RpcTopic \<Rightarrow>
  bool \<times> ('req, 'rsp) RpcTopic" where
  "cas_state i expected desired t =
     (if state_at t i = expected then (True, set_state i desired t) else (False, t))"

definition TryClaim :: "('req, 'rsp) RpcTopic \<Rightarrow> nat option \<times> ('req, 'rsp) RpcTopic" where
  "TryClaim t = (case scan kMaxInFlight (\<lambda>i. state_at t i = kFree) of
     None \<Rightarrow> (None, t) | Some i \<Rightarrow> (Some i, set_state i kClaimed t))"

definition ReleaseSlot :: "nat \<Rightarrow> ('req, 'rsp) RpcTopic \<Rightarrow> ('req, 'rsp) RpcTopic" where
  "ReleaseSlot i = set_state i kFree"

definition AnyPending :: "('req, 'rsp) RpcTopic \<Rightarrow> bool" where
  "AnyPending t = list_ex (\<lambda>s. state s = kPending) (rpc_slots t)"

section \<open>Calls\<close>

definition make_token :: "u64 \<Rightarrow> nat \<Rightarrow> u64" where
  "make_token n i = push_bit kIndexBits (n + 1) OR of_nat i"

definition token_index :: "u64 \<Rightarrow> nat" where
  "token_index tok = unat (tok AND (2 ^ kIndexBits - 1))"

text \<open>The writes of \<^verbatim>\<open>Call\<close> while it owns the slot, before the release store of \<^verbatim>\<open>kPending\<close>.\<close>

definition call_fill :: "('a, 's, 'q, 'c) XmBase \<Rightarrow> 'c \<Rightarrow> nanos \<Rightarrow> u64 \<Rightarrow> nat \<Rightarrow> 'req \<Rightarrow>
  ('req, 'rsp) RpcTopic \<Rightarrow> ('req, 'rsp) RpcTopic" where
  "call_fill X ctx now tok i req = upd_slot i (\<lambda>s. s\<lparr>correlation := tok,
     slot_envelope := make_envelope X ctx now None, request := Some req\<rparr>)"

record ('rsp) Result =
  res_status :: CallStatus
  res_value :: "'rsp option"

definition Result_init :: "'rsp Result" where
  "Result_init = \<lparr>res_status = Call_kNoServer, res_value = None\<rparr>"

text \<open>The part of \<^verbatim>\<open>Call\<close> before its reply wait, on a topic where a slot is free: \<open>Inl\<close> a final
  result, \<open>Inr\<close> the slot and token the caller then waits on.\<close>

definition Call_begin :: "('a, 's, 'q, 'c) XmBase \<Rightarrow> 'c \<Rightarrow> nanos \<Rightarrow> 'req \<Rightarrow> ('req, 'rsp) RpcTopic \<Rightarrow>
  ('rsp Result + nat \<times> u64) \<times> ('req, 'rsp) RpcTopic" where
  "Call_begin X ctx now req t =
     (if publisher_count t = 0 then (Inl Result_init, t)
      else case TryClaim t of
        (None, t1) \<Rightarrow> (Inl (Result_init\<lparr>res_status := Call_kDeadlineExpired\<rparr>), t1)
      | (Some i, t1) \<Rightarrow>
          let tok = make_token (next_correlation t1) i;
              t2 = t1\<lparr>next_correlation := next_correlation t1 + 1\<rparr>
          in (Inr (i, tok), set_state i kPending (call_fill X ctx now tok i req t2)))"

definition Call_consume :: "nat \<Rightarrow> ('req, 'rsp) RpcTopic \<Rightarrow> 'rsp Result \<times> ('req, 'rsp) RpcTopic" where
  "Call_consume i t = (\<lparr>res_status = Call_kOk, res_value = response (rpc_slots t ! i)\<rparr>, ReleaseSlot i t)"

text \<open>The part after the reply wait; \<open>replied\<close> is what the wait returned.\<close>

definition Call_finish :: "bool \<Rightarrow> nat \<Rightarrow> ('req, 'rsp) RpcTopic \<Rightarrow> 'rsp Result \<times> ('req, 'rsp) RpcTopic" where
  "Call_finish replied i t =
     (let expired = Result_init\<lparr>res_status := Call_kDeadlineExpired\<rparr>
      in if replied then Call_consume i t
         else case cas_state i kPending kFree t of
           (True, t1) \<Rightarrow> (expired, t1)
         | (False, t1) \<Rightarrow> (case cas_state i kTaken kAbandoned t1 of
             (True, t2) \<Rightarrow> (expired, t2)
           | (False, t2) \<Rightarrow> Call_consume i t2))"

section \<open>Serving\<close>

record ('req, 'c) Request =
  req_value :: "'req option"
  req_context :: 'c
  req_stamp :: nanos
  req_correlation :: u64
  req_freshness :: Freshness

definition Request_init :: "'c \<Rightarrow> ('req, 'c) Request" where
  "Request_init null_ctx = \<lparr>req_value = None, req_context = null_ctx, req_stamp = 0, req_correlation = 0,
     req_freshness = kNone\<rparr>"

definition read_request :: "('a, 's, 'q, 'c) XmBase \<Rightarrow> ('req, 'rsp) CallSlot \<Rightarrow> ('req, 'c) Request" where
  "read_request X s = \<lparr>req_value = request s, req_context = ctx_extract X (context_bytes (slot_envelope s)),
     req_stamp = publish_stamp_ns (slot_envelope s), req_correlation = correlation s, req_freshness = kFresh\<rparr>"

definition TakeRequest :: "('a, 's, 'q, 'c) XmBase \<Rightarrow> ('req, 'rsp) RpcTopic \<Rightarrow>
  ('req, 'c) Request \<times> ('req, 'rsp) RpcTopic" where
  "TakeRequest X t = (case scan (length (rpc_slots t)) (\<lambda>i. state_at t i = kPending) of
     None \<Rightarrow> (Request_init (ctx_null X), t)
   | Some i \<Rightarrow> (read_request X (rpc_slots t ! i), set_state i kTaken t))"

definition Reply :: "u64 \<Rightarrow> 'rsp \<Rightarrow> ('req, 'rsp) RpcTopic \<Rightarrow> ReplyStatus \<times> ('req, 'rsp) RpcTopic" where
  "Reply tok rsp t =
     (if tok = 0 then (Reply_kExpired, t)
      else
        let i = token_index tok
        in if state_at t i = kTaken \<and> correlation (rpc_slots t ! i) = tok
           then (Reply_kOk, set_state i kReplied (upd_slot i (\<lambda>s. s\<lparr>response := Some rsp\<rparr>) t))
           else if state_at t i = kAbandoned \<and> correlation (rpc_slots t ! i) = tok
           then (Reply_kExpired, set_state i kFree t)
           else (Reply_kExpired, t))"

definition WaitForWork :: "(bool \<Rightarrow> bool) \<Rightarrow> ('req, 'rsp) RpcTopic \<Rightarrow> bool" where
  "WaitForWork wait_for t = wait_for (AnyPending t)"

section \<open>Frames\<close>

lemma upd_slot_simps [simp]:
  "length (rpc_slots (upd_slot i f t)) = length (rpc_slots t)"
  "next_correlation (upd_slot i f t) = next_correlation t"
  "publisher_count (upd_slot i f t) = publisher_count t"
  "rpc_slots (t\<lparr>next_correlation := n\<rparr>) = rpc_slots t"
  "j < length (rpc_slots t) \<Longrightarrow> rpc_slots (upd_slot i f t) ! j = (if j = i then f (rpc_slots t ! i) else rpc_slots t ! j)"
  by (auto simp: upd_slot_def nth_list_update_if)

lemma set_state_simps [simp]:
  "length (rpc_slots (set_state i st t)) = length (rpc_slots t)"
  "next_correlation (set_state i st t) = next_correlation t"
  "publisher_count (set_state i st t) = publisher_count t"
  "j < length (rpc_slots t) \<Longrightarrow> rpc_slots (set_state i st t) ! j =
     (if j = i then (rpc_slots t ! i)\<lparr>state := st\<rparr> else rpc_slots t ! j)"
  by (simp_all add: set_state_def)

section \<open>Tokens\<close>

text \<open>A token names its slot, and the tokens of the first $2^{60} - 1$ calls are different and not zero.\<close>

lemma small_index: "i < 16 \<Longrightarrow> (of_nat i :: u64) = take_bit 4 (of_nat i)"
  using take_bit_nat_eq_self [of i 4] by (simp add: take_bit_of_nat)

lemma token_index_make:
  assumes "i < 16"
  shows "token_index (make_token n i) = i"
proof -
  have "(15 :: u64) = mask 4" by (simp add: mask_eq_exp_minus_1)
  then have "make_token n i AND 15 = take_bit 4 (make_token n i)" by (simp add: take_bit_eq_mask)
  also have "\<dots> = take_bit 4 (of_nat i)"
    by (rule bit_eqI) (auto simp: make_token_def kIndexBits_def bit_simps)
  finally have "make_token n i AND 15 = of_nat i" using small_index [OF assms] by simp
  then show ?thesis using assms by (simp add: token_index_def kIndexBits_def unat_of_nat)
qed

lemma token_bits: "i < 16 \<Longrightarrow> k < 60 \<Longrightarrow> bit (make_token n i) (k + 4) = bit (n + 1) k"
  by (subst make_token_def, subst small_index) (auto simp: kIndexBits_def bit_simps)

lemma counter_bits:
  fixes w :: u64
  assumes "unat w + 1 < 2 ^ 60" "bit (w + 1) k"
  shows "k < 60"
proof -
  have "unat (w + 1) < 2 ^ 60" using assms(1) by (simp add: unat_plus_one_less)
  then have "take_bit 60 (unat (w + 1)) = unat (w + 1)" by (simp add: take_bit_nat_eq_self)
  then have "bit (take_bit 60 (unat (w + 1))) k" using assms(2) by (simp add: bit_unsigned_iff)
  then show ?thesis by (simp add: bit_take_bit_iff)
qed

lemma token_counter_inj:
  assumes "make_token n i = make_token m j" "i < 16" "j < 16" "unat n + 1 < 2 ^ 60" "unat m + 1 < 2 ^ 60"
  shows "n = m"
proof -
  have "n + 1 = m + 1"
  proof (rule bit_eqI)
    fix k
    show "bit (n + 1) k = bit (m + 1) k"
      using token_bits [OF assms(2), of k n] token_bits [OF assms(3), of k m] assms(1)
        counter_bits [OF assms(4), of k] counter_bits [OF assms(5), of k]
      by (cases "k < 60") auto
  qed
  then show ?thesis by simp
qed

lemma token_nonzero:
  assumes "i < 16" "unat n + 1 < 2 ^ 60"
  shows "make_token n i \<noteq> 0"
proof
  assume zero: "make_token n i = 0"
  have "n + 1 = 0"
    by (rule bit_eqI) (use token_bits [OF assms(1), of _ n] counter_bits [OF assms(2)] zero in \<open>auto\<close>)
  moreover have "unat (n + 1) = unat n + 1" using assms(2) by (simp add: unat_plus_one_less)
  ultimately show False by simp
qed

section \<open>Interleaved calls\<close>

datatype ('req, 'rsp) client_pc =
    C_Idle
  | C_Call 'req
  | C_Scan 'req nat
  | C_Claimed 'req nat
  | C_Fill 'req nat u64
  | C_Filled 'req nat u64
  | C_Wait 'req nat u64
  | C_Revoke 'req nat u64
  | C_Abandon 'req nat u64
  | C_Consume 'req nat u64
  | C_Free 'req nat u64 "'rsp option"
  | C_Done 'req u64 "'rsp Result"

datatype 'rsp server_pc =
    S_Idle
  | S_Scan nat
  | S_Took nat
  | S_Reply u64 'rsp
  | S_Write u64 'rsp
  | S_Cas u64 'rsp
  | S_Late u64
  | S_Reclaim u64

record ('req, 'rsp) rpc_sys =
  rt :: "('req, 'rsp) RpcTopic"
  cl :: "nat \<Rightarrow> ('req, 'rsp) client_pc"
  sv :: "'rsp server_pc"
  calls :: nat
  sent :: "(u64 \<times> 'req) list"
  taken :: "(u64 \<times> 'req option) list"
  answered :: "(u64 \<times> 'rsp) list"

datatype actor = Client nat | Server | Wiring

definition rpc_init :: "string \<Rightarrow> u64 \<Rightarrow> string \<Rightarrow> ('req, 'rsp) rpc_sys" where
  "rpc_init nm h ty = \<lparr>rt = RpcTopic_init nm h ty, cl = (\<lambda>_. C_Idle), sv = S_Idle, calls = 0,
     sent = [], taken = [], answered = []\<rparr>"

definition go :: "nat \<Rightarrow> ('req, 'rsp) client_pc \<Rightarrow> ('req, 'rsp) rpc_sys \<Rightarrow> ('req, 'rsp) rpc_sys" where
  "go c p s = s\<lparr>cl := (cl s)(c := p)\<rparr>"

definition expired_result :: "'rsp Result" where
  "expired_result = Result_init\<lparr>res_status := Call_kDeadlineExpired\<rparr>"

text \<open>One step of \<^verbatim>\<open>Call\<close>, of \<^verbatim>\<open>TakeRequest\<close>/\<^verbatim>\<open>Reply\<close> on the serving thread, or of wiring. The
  application may reply to any request it was ever given, also twice or late. Runs have fewer
  than $2^{60} - 1$ calls.\<close>

inductive rpc_step :: "('a, 's, 'q, 'c) XmBase \<Rightarrow> actor \<Rightarrow> ('req, 'rsp) rpc_sys \<Rightarrow> ('req, 'rsp) rpc_sys \<Rightarrow> bool"
  for X :: "('a, 's, 'q, 'c) XmBase" where
  serve: "AddServer (rt s) = (st, t') \<Longrightarrow> rpc_step X Wiring s (s\<lparr>rt := t'\<rparr>)"
| unserve: "publisher_count (rt s) > 0 \<Longrightarrow> rpc_step X Wiring s (s\<lparr>rt := RemoveServer (rt s)\<rparr>)"
| call: "cl s c = C_Idle \<Longrightarrow> rpc_step X (Client c) s (go c (C_Call req) s)"
| no_server: "cl s c = C_Call req \<Longrightarrow> publisher_count (rt s) = 0 \<Longrightarrow>
    rpc_step X (Client c) s (go c (C_Done req 0 Result_init) s)"
| enter: "cl s c = C_Call req \<Longrightarrow> publisher_count (rt s) \<noteq> 0 \<Longrightarrow>
    rpc_step X (Client c) s (go c (C_Scan req 0) s)"
| claim: "cl s c = C_Scan req i \<Longrightarrow> i < kMaxInFlight \<Longrightarrow> cas_state i kFree kClaimed (rt s) = (True, t') \<Longrightarrow>
    rpc_step X (Client c) s (go c (C_Claimed req i) (s\<lparr>rt := t'\<rparr>))"
| busy: "cl s c = C_Scan req i \<Longrightarrow> i < kMaxInFlight \<Longrightarrow> cas_state i kFree kClaimed (rt s) = (False, t') \<Longrightarrow>
    rpc_step X (Client c) s (go c (C_Scan req (Suc i)) s)"
| rescan: "cl s c = C_Scan req i \<Longrightarrow> i = kMaxInFlight \<Longrightarrow> rpc_step X (Client c) s (go c (C_Scan req 0) s)"
| no_slot: "cl s c = C_Scan req i \<Longrightarrow> i = kMaxInFlight \<Longrightarrow>
    rpc_step X (Client c) s (go c (C_Done req 0 expired_result) s)"
| number: "cl s c = C_Claimed req i \<Longrightarrow> calls s + 1 < 2 ^ 60 - 1 \<Longrightarrow> tok = make_token (next_correlation (rt s)) i \<Longrightarrow>
    rpc_step X (Client c) s (go c (C_Fill req i tok) (s\<lparr>rt := (rt s)\<lparr>next_correlation := next_correlation (rt s) + 1\<rparr>,
      calls := calls s + 1, sent := (tok, req) # sent s\<rparr>))"
| fill: "cl s c = C_Fill req i tok \<Longrightarrow>
    rpc_step X (Client c) s (go c (C_Filled req i tok) (s\<lparr>rt := call_fill X ctx now tok i req (rt s)\<rparr>))"
| post: "cl s c = C_Filled req i tok \<Longrightarrow>
    rpc_step X (Client c) s (go c (C_Wait req i tok) (s\<lparr>rt := set_state i kPending (rt s)\<rparr>))"
| woken: "cl s c = C_Wait req i tok \<Longrightarrow> state_at (rt s) i = kReplied \<Longrightarrow>
    rpc_step X (Client c) s (go c (C_Consume req i tok) s)"
| timeout: "cl s c = C_Wait req i tok \<Longrightarrow> rpc_step X (Client c) s (go c (C_Revoke req i tok) s)"
| revoked: "cl s c = C_Revoke req i tok \<Longrightarrow> cas_state i kPending kFree (rt s) = (True, t') \<Longrightarrow>
    rpc_step X (Client c) s (go c (C_Done req tok expired_result) (s\<lparr>rt := t'\<rparr>))"
| not_pending: "cl s c = C_Revoke req i tok \<Longrightarrow> cas_state i kPending kFree (rt s) = (False, t') \<Longrightarrow>
    rpc_step X (Client c) s (go c (C_Abandon req i tok) s)"
| abandoned: "cl s c = C_Abandon req i tok \<Longrightarrow> cas_state i kTaken kAbandoned (rt s) = (True, t') \<Longrightarrow>
    rpc_step X (Client c) s (go c (C_Done req tok expired_result) (s\<lparr>rt := t'\<rparr>))"
| not_taken: "cl s c = C_Abandon req i tok \<Longrightarrow> cas_state i kTaken kAbandoned (rt s) = (False, t') \<Longrightarrow>
    rpc_step X (Client c) s (go c (C_Consume req i tok) s)"
| consume: "cl s c = C_Consume req i tok \<Longrightarrow>
    rpc_step X (Client c) s (go c (C_Free req i tok (response (rpc_slots (rt s) ! i))) s)"
| free: "cl s c = C_Free req i tok v \<Longrightarrow>
    rpc_step X (Client c) s (go c (C_Done req tok \<lparr>res_status = Call_kOk, res_value = v\<rparr>) (s\<lparr>rt := ReleaseSlot i (rt s)\<rparr>))"
| finish: "cl s c = C_Done req tok res \<Longrightarrow> rpc_step X (Client c) s (go c C_Idle s)"
| take: "sv s = S_Idle \<Longrightarrow> rpc_step X Server s (s\<lparr>sv := S_Scan 0\<rparr>)"
| take_ok: "sv s = S_Scan i \<Longrightarrow> i < length (rpc_slots (rt s)) \<Longrightarrow> cas_state i kPending kTaken (rt s) = (True, t') \<Longrightarrow>
    rpc_step X Server s (s\<lparr>sv := S_Took i, rt := t'\<rparr>)"
| take_next: "sv s = S_Scan i \<Longrightarrow> i < length (rpc_slots (rt s)) \<Longrightarrow> cas_state i kPending kTaken (rt s) = (False, t') \<Longrightarrow>
    rpc_step X Server s (s\<lparr>sv := S_Scan (Suc i)\<rparr>)"
| take_none: "sv s = S_Scan i \<Longrightarrow> i = length (rpc_slots (rt s)) \<Longrightarrow> rpc_step X Server s (s\<lparr>sv := S_Idle\<rparr>)"
| took: "sv s = S_Took i \<Longrightarrow> r = (read_request X (rpc_slots (rt s) ! i) :: ('req, 'c) Request) \<Longrightarrow>
    rpc_step X Server s (s\<lparr>sv := S_Idle, taken := (req_correlation r, req_value r) # taken s\<rparr>)"
| reply: "sv s = S_Idle \<Longrightarrow> tok \<in> fst ` set (taken s) \<Longrightarrow> rpc_step X Server s (s\<lparr>sv := S_Reply tok rsp\<rparr>)"
| reply_mine: "sv s = S_Reply tok rsp \<Longrightarrow> i = token_index tok \<Longrightarrow> state_at (rt s) i = kTaken \<Longrightarrow>
    correlation (rpc_slots (rt s) ! i) = tok \<Longrightarrow> rpc_step X Server s (s\<lparr>sv := S_Write tok rsp\<rparr>)"
| reply_other: "sv s = S_Reply tok rsp \<Longrightarrow> i = token_index tok \<Longrightarrow>
    \<not> (state_at (rt s) i = kTaken \<and> correlation (rpc_slots (rt s) ! i) = tok) \<Longrightarrow>
    rpc_step X Server s (s\<lparr>sv := S_Late tok\<rparr>)"
| reply_write: "sv s = S_Write tok rsp \<Longrightarrow>
    rpc_step X Server s (s\<lparr>sv := S_Cas tok rsp,
      rt := upd_slot (token_index tok) (\<lambda>sl. sl\<lparr>response := Some rsp\<rparr>) (rt s)\<rparr>)"
| reply_ok: "sv s = S_Cas tok rsp \<Longrightarrow> cas_state (token_index tok) kTaken kReplied (rt s) = (True, t') \<Longrightarrow>
    rpc_step X Server s (s\<lparr>sv := S_Idle, rt := t', answered := (tok, rsp) # answered s\<rparr>)"
| reply_lost: "sv s = S_Cas tok rsp \<Longrightarrow> cas_state (token_index tok) kTaken kReplied (rt s) = (False, t') \<Longrightarrow>
    rpc_step X Server s (s\<lparr>sv := S_Late tok\<rparr>)"
| late_mine: "sv s = S_Late tok \<Longrightarrow> i = token_index tok \<Longrightarrow> state_at (rt s) i = kAbandoned \<Longrightarrow>
    correlation (rpc_slots (rt s) ! i) = tok \<Longrightarrow> rpc_step X Server s (s\<lparr>sv := S_Reclaim tok\<rparr>)"
| late_other: "sv s = S_Late tok \<Longrightarrow> i = token_index tok \<Longrightarrow>
    \<not> (state_at (rt s) i = kAbandoned \<and> correlation (rpc_slots (rt s) ! i) = tok) \<Longrightarrow>
    rpc_step X Server s (s\<lparr>sv := S_Idle\<rparr>)"
| reclaim: "sv s = S_Reclaim tok \<Longrightarrow>
    rpc_step X Server s (s\<lparr>sv := S_Idle, rt := set_state (token_index tok) kFree (rt s)\<rparr>)"

inductive rpc_reachable :: "('a, 's, 'q, 'c) XmBase \<Rightarrow> ('req, 'rsp) rpc_sys \<Rightarrow> bool"
  for X :: "('a, 's, 'q, 'c) XmBase" where
  start: "rpc_reachable X (rpc_init nm h ty)"
| step: "rpc_reachable X s \<Longrightarrow> rpc_step X a s s' \<Longrightarrow> rpc_reachable X s'"

section \<open>Invariant\<close>

fun pc_slot :: "('req, 'rsp) client_pc \<Rightarrow> nat option" where
  "pc_slot (C_Claimed req i) = Some i"
| "pc_slot (C_Fill req i tok) = Some i"
| "pc_slot (C_Filled req i tok) = Some i"
| "pc_slot (C_Wait req i tok) = Some i"
| "pc_slot (C_Revoke req i tok) = Some i"
| "pc_slot (C_Abandon req i tok) = Some i"
| "pc_slot (C_Consume req i tok) = Some i"
| "pc_slot (C_Free req i tok v) = Some i"
| "pc_slot _ = None"

text \<open>What each point of a call knows about its slot and its token.\<close>

fun pc_ok :: "(u64 \<times> 'req) list \<Rightarrow> (u64 \<times> 'rsp) list \<Rightarrow> ('req, 'rsp) CallSlot list \<Rightarrow> ('req, 'rsp) client_pc \<Rightarrow> bool" where
  "pc_ok se an sl (C_Scan req i) \<longleftrightarrow> i \<le> kMaxInFlight"
| "pc_ok se an sl (C_Claimed req i) \<longleftrightarrow> state (sl ! i) = kClaimed"
| "pc_ok se an sl (C_Fill req i tok) \<longleftrightarrow> state (sl ! i) = kClaimed \<and> (tok, req) \<in> set se \<and> token_index tok = i \<and>
     tok \<notin> fst ` set an"
| "pc_ok se an sl (C_Filled req i tok) \<longleftrightarrow> state (sl ! i) = kClaimed \<and> correlation (sl ! i) = tok \<and> token_index tok = i \<and>
     tok \<notin> fst ` set an \<and> request (sl ! i) = Some req \<and> (tok, req) \<in> set se"
| "pc_ok se an sl (C_Wait req i tok) \<longleftrightarrow> state (sl ! i) \<in> {kPending, kTaken, kReplied} \<and> correlation (sl ! i) = tok \<and> (tok, req) \<in> set se"
| "pc_ok se an sl (C_Revoke req i tok) \<longleftrightarrow> state (sl ! i) \<in> {kPending, kTaken, kReplied} \<and> correlation (sl ! i) = tok \<and> (tok, req) \<in> set se"
| "pc_ok se an sl (C_Abandon req i tok) \<longleftrightarrow> state (sl ! i) \<in> {kTaken, kReplied} \<and> correlation (sl ! i) = tok \<and> (tok, req) \<in> set se"
| "pc_ok se an sl (C_Consume req i tok) \<longleftrightarrow> state (sl ! i) = kReplied \<and> correlation (sl ! i) = tok \<and> (tok, req) \<in> set se"
| "pc_ok se an sl (C_Free req i tok v) \<longleftrightarrow> state (sl ! i) = kReplied \<and> correlation (sl ! i) = tok \<and> response (sl ! i) = v \<and> (tok, req) \<in> set se"
| "pc_ok se an sl (C_Done req tok res) \<longleftrightarrow> (res_status res = Call_kOk \<longrightarrow> (tok, req) \<in> set se \<and> (\<exists>v. res_value res = Some v \<and> (tok, v) \<in> set an))"
| "pc_ok se an sl _ \<longleftrightarrow> True"

definition slot_ok :: "(u64 \<times> 'req) list \<Rightarrow> (u64 \<times> 'rsp) list \<Rightarrow> nat \<Rightarrow> ('req, 'rsp) CallSlot \<Rightarrow> bool" where
  "slot_ok se an i s \<longleftrightarrow>
     (state s \<in> {kPending, kTaken, kReplied, kAbandoned} \<longrightarrow> token_index (correlation s) = i \<and>
        (\<exists>req. request s = Some req \<and> (correlation s, req) \<in> set se)) \<and>
     (state s = kReplied \<longrightarrow> (\<exists>v. response s = Some v \<and> (correlation s, v) \<in> set an)) \<and>
     (state s \<in> {kPending, kTaken, kAbandoned} \<longrightarrow> correlation s \<notin> fst ` set an)"

definition holds :: "('req, 'rsp) CallSlot list \<Rightarrow> u64 \<Rightarrow> bool" where
  "holds sl tok \<longleftrightarrow> token_index tok < length sl \<and> state (sl ! token_index tok) \<in> {kTaken, kAbandoned} \<and>
     correlation (sl ! token_index tok) = tok"

fun server_ok :: "('req, 'rsp) CallSlot list \<Rightarrow> 'rsp server_pc \<Rightarrow> bool" where
  "server_ok sl (S_Took i) \<longleftrightarrow> i < length sl \<and> state (sl ! i) \<in> {kTaken, kAbandoned}"
| "server_ok sl (S_Reply tok rsp) \<longleftrightarrow> token_index tok < length sl"
| "server_ok sl (S_Late tok) \<longleftrightarrow> token_index tok < length sl"
| "server_ok sl (S_Write tok rsp) \<longleftrightarrow> holds sl tok"
| "server_ok sl (S_Cas tok rsp) \<longleftrightarrow> holds sl tok \<and> response (sl ! token_index tok) = Some rsp"
| "server_ok sl (S_Reclaim tok) \<longleftrightarrow> holds sl tok \<and> state (sl ! token_index tok) = kAbandoned"
| "server_ok sl _ \<longleftrightarrow> True"

fun sv_token :: "'rsp server_pc \<Rightarrow> u64 option" where
  "sv_token (S_Reply tok rsp) = Some tok"
| "sv_token (S_Write tok rsp) = Some tok"
| "sv_token (S_Cas tok rsp) = Some tok"
| "sv_token _ = None"

definition busy_slots :: "('req, 'rsp) CallSlot list \<Rightarrow> nat set" where
  "busy_slots sl = {i. i < length sl \<and> state (sl ! i) \<notin> {kFree, kAbandoned}}"

definition issued :: "nat \<Rightarrow> u64 \<Rightarrow> bool" where
  "issued n tok \<longleftrightarrow> (\<exists>m i. m < n \<and> i < kMaxInFlight \<and> tok = make_token (of_nat m) i)"

definition taken_ok :: "(u64 \<times> 'req) list \<Rightarrow> u64 \<times> 'req option \<Rightarrow> bool" where
  "taken_ok se x \<longleftrightarrow> (\<exists>req. snd x = Some req \<and> (fst x, req) \<in> set se)"

definition log_ok :: "('req, 'rsp) rpc_sys \<Rightarrow> bool" where
  "log_ok s \<longleftrightarrow> next_correlation (rt s) = of_nat (calls s) \<and> calls s < 2 ^ 60 - 1 \<and>
     distinct (map fst (sent s)) \<and> list_all (issued (calls s)) (map fst (sent s)) \<and>
     distinct (map fst (answered s)) \<and> fst ` set (answered s) \<subseteq> fst ` set (sent s) \<and>
     list_all (taken_ok (sent s)) (taken s) \<and> fst ` set (answered s) \<subseteq> fst ` set (taken s) \<and>
     (\<forall>tok. sv_token (sv s) = Some tok \<longrightarrow> tok \<in> fst ` set (taken s))"

definition rpc_inv :: "('req, 'rsp) rpc_sys \<Rightarrow> bool" where
  "rpc_inv s \<longleftrightarrow> length (rpc_slots (rt s)) = kMaxInFlight \<and>
     owns (pc_slot \<circ> cl s) (busy_slots (rpc_slots (rt s))) \<and>
     (\<forall>c. pc_ok (sent s) (answered s) (rpc_slots (rt s)) (cl s c)) \<and>
     server_ok (rpc_slots (rt s)) (sv s) \<and>
     (\<forall>i<kMaxInFlight. slot_ok (sent s) (answered s) i (rpc_slots (rt s) ! i)) \<and> log_ok s"


lemma cas_state_iff [simp]:
  "cas_state i e d t = (True, t') \<longleftrightarrow> state_at t i = e \<and> t' = set_state i d t"
  "cas_state i e d t = (False, t') \<longleftrightarrow> state_at t i \<noteq> e \<and> t' = t"
  by (auto simp: cas_state_def)

lemma slots_set_state [simp]: "rpc_slots (set_state i st t) = (rpc_slots t)[i := (rpc_slots t ! i)\<lparr>state := st\<rparr>]"
  by (simp add: set_state_def upd_slot_def)

lemma go_simps [simp]:
  "rt (go c p s) = rt s" "sv (go c p s) = sv s" "calls (go c p s) = calls s" "sent (go c p s) = sent s"
  "taken (go c p s) = taken s" "answered (go c p s) = answered s" "cl (go c p s) = (cl s)(c := p)"
  by (simp_all add: go_def)

declare set_state_simps(4) [simp del]

lemma pc_ok_frame: "pc_slot p \<noteq> Some i \<Longrightarrow> pc_ok se an (sl[i := x]) p = pc_ok se an sl p"
  by (cases p) auto

lemma pc_ok_sent: "pc_ok se an sl p \<Longrightarrow> pc_ok (x # se) an sl p"
  by (cases p) auto

lemma server_ok_frame: "server_ok sl p \<Longrightarrow> state (sl ! i) \<notin> {kTaken, kAbandoned} \<Longrightarrow> server_ok (sl[i := x]) p"
  by (cases p) (auto simp: holds_def nth_list_update_if)

lemma server_ok_abandon:
  "server_ok sl p \<Longrightarrow> state (sl ! i) = kTaken \<Longrightarrow> server_ok (sl[i := (sl ! i)\<lparr>state := kAbandoned\<rparr>]) p"
  by (cases p) (auto simp: holds_def nth_list_update_if)

lemma busy_update:
  "i < length sl \<Longrightarrow> busy_slots (sl[i := x]) =
     (if state x \<in> {kFree, kAbandoned} then busy_slots sl - {i} else insert i (busy_slots sl))"
  by (auto simp: busy_slots_def nth_list_update_if)

lemma rpc_inv_slotD:
  assumes "rpc_inv s" "pc_slot (cl s c) = Some i"
  shows "i < kMaxInFlight" "i < length (rpc_slots (rt s))" "d \<noteq> c \<Longrightarrow> pc_slot (cl s d) \<noteq> Some i"
    "slot_ok (sent s) (answered s) i (rpc_slots (rt s) ! i)" "pc_ok (sent s) (answered s) (rpc_slots (rt s)) (cl s c)"
proof -
  have own: "owns (pc_slot \<circ> cl s) (busy_slots (rpc_slots (rt s)))" using assms(1) by (simp add: rpc_inv_def)
  then have "i \<in> busy_slots (rpc_slots (rt s))" using owns_mem [OF own, of c i] assms(2) by simp
  then show "i < kMaxInFlight" "i < length (rpc_slots (rt s))" using assms(1) by (auto simp: busy_slots_def rpc_inv_def)
  then show "slot_ok (sent s) (answered s) i (rpc_slots (rt s) ! i)" using assms(1) by (simp add: rpc_inv_def)
  show "pc_ok (sent s) (answered s) (rpc_slots (rt s)) (cl s c)" using assms(1) by (simp add: rpc_inv_def)
  show "d \<noteq> c \<Longrightarrow> pc_slot (cl s d) \<noteq> Some i" using owns_unique [OF own, of c i d] assms(2) by auto
qed

text \<open>A client step that touches no slot.\<close>

lemma rpc_inv_pc:
  assumes "rpc_inv s" "pc_slot p = pc_slot (cl s c)" "pc_ok (sent s) (answered s) (rpc_slots (rt s)) p"
  shows "rpc_inv (go c p s)"
  using assms by (auto simp: rpc_inv_def fun_upd_comp owns_same log_ok_def)

text \<open>A client step that rewrites the slot it holds, or a free one.\<close>

lemma rpc_inv_slot:
  assumes inv: "rpc_inv s" and i: "i < kMaxInFlight"
    and slots: "rpc_slots t' = (rpc_slots (rt s))[i := x]" and nxt: "next_correlation t' = next_correlation (rt s)"
    and own: "owns ((pc_slot \<circ> cl s)(c := pc_slot p)) (busy_slots ((rpc_slots (rt s))[i := x]))"
    and others: "\<And>d. d \<noteq> c \<Longrightarrow> pc_slot (cl s d) \<noteq> Some i"
    and mine: "pc_ok (sent s) (answered s) ((rpc_slots (rt s))[i := x]) p"
    and slot: "slot_ok (sent s) (answered s) i x"
    and server: "server_ok ((rpc_slots (rt s))[i := x]) (sv s)"
  shows "rpc_inv (go c p (s\<lparr>rt := t'\<rparr>))"
  using inv i own mine slot server others
  by (auto simp: rpc_inv_def slots nxt fun_upd_comp log_ok_def pc_ok_frame nth_list_update_if)

text \<open>A step of the serving thread that rewrites one slot and leaves the same slots busy.\<close>

lemma rpc_inv_server:
  assumes inv: "rpc_inv s" and i: "i < kMaxInFlight"
    and slots: "rpc_slots t' = (rpc_slots (rt s))[i := x]" and nxt: "next_correlation t' = next_correlation (rt s)"
    and busy: "state x \<in> {kFree, kAbandoned} \<longleftrightarrow> state (rpc_slots (rt s) ! i) \<in> {kFree, kAbandoned}"
    and clients: "\<And>d. pc_ok (sent s) (answered s) (rpc_slots (rt s)) (cl s d) \<Longrightarrow>
       pc_ok (sent s) (answered s) ((rpc_slots (rt s))[i := x]) (cl s d)"
    and slot: "slot_ok (sent s) (answered s) i x"
    and server: "server_ok ((rpc_slots (rt s))[i := x]) q" "sv_token q \<in> {None, sv_token (sv s)}"
  shows "rpc_inv (s\<lparr>sv := q, rt := t'\<rparr>)"
proof -
  have "busy_slots ((rpc_slots (rt s))[i := x]) = busy_slots (rpc_slots (rt s))"
    using busy by (auto simp: busy_slots_def nth_list_update_if split: if_splits)
  then show ?thesis
    using inv i slot server clients by (auto simp: rpc_inv_def slots nxt log_ok_def nth_list_update_if)
qed

lemma slot_okD:
  assumes "slot_ok se an i s"
  shows "state s = kPending \<Longrightarrow> slot_ok se an i (s\<lparr>state := kTaken\<rparr>)"
    and "state s = kTaken \<Longrightarrow> slot_ok se an i (s\<lparr>state := kAbandoned\<rparr>)"
    and "slot_ok se an i (s\<lparr>state := kFree\<rparr>)" "slot_ok se an i (s\<lparr>state := kClaimed\<rparr>)"
    and "state s \<noteq> kReplied \<Longrightarrow> slot_ok se an i (s\<lparr>response := v\<rparr>)"
  using assms by (auto simp: slot_ok_def)

lemma pc_ok_take:
  "pc_ok se an sl p \<Longrightarrow> state (sl ! i) = kPending \<Longrightarrow> pc_ok se an (sl[i := (sl ! i)\<lparr>state := kTaken\<rparr>]) p"
  by (cases p) (auto simp: nth_list_update_if)

lemma pc_ok_write:
  "pc_ok se an sl p \<Longrightarrow> state (sl ! i) \<in> {kTaken, kAbandoned} \<Longrightarrow> pc_ok se an (sl[i := (sl ! i)\<lparr>response := v\<rparr>]) p"
  by (cases p) (auto simp: nth_list_update_if)

lemma pc_ok_answer:
  "pc_ok se an sl p \<Longrightarrow> state (sl ! token_index tok) = kTaken \<Longrightarrow>
   pc_ok se ((tok, v) # an) (sl[token_index tok := (sl ! token_index tok)\<lparr>state := kReplied\<rparr>]) p"
  by (cases p) (auto simp: nth_list_update_if)

lemma taken_index:
  assumes "log_ok s" "tok \<in> fst ` set (sent s)"
  shows "token_index tok < kMaxInFlight"
proof -
  have "issued (calls s) tok" using assms by (auto simp: log_ok_def list_all_iff)
  then show ?thesis by (auto simp: issued_def token_index_make kMaxInFlight_def)
qed

lemma issued_mono: "issued n tok \<Longrightarrow> issued (Suc n) tok"
  unfolding issued_def using less_SucI by blast

lemma issued_new: "i < kMaxInFlight \<Longrightarrow> issued (Suc n) (make_token (of_nat n) i)"
  unfolding issued_def by blast

lemma taken_ok_mono: "taken_ok se x \<Longrightarrow> taken_ok (y # se) x"
  by (auto simp: taken_ok_def)

lemma fresh_token:
  assumes "log_ok s" "i < kMaxInFlight"
  shows "make_token (next_correlation (rt s)) i \<notin> fst ` set (sent s)"
proof
  assume "make_token (next_correlation (rt s)) i \<in> fst ` set (sent s)"
  then have "issued (calls s) (make_token (next_correlation (rt s)) i)"
    using assms(1) by (auto simp: log_ok_def list_all_iff)
  then obtain n j where nj: "n < calls s" "j < kMaxInFlight" "make_token (next_correlation (rt s)) i = make_token (of_nat n) j"
    unfolding issued_def by blast
  have c: "next_correlation (rt s) = of_nat (calls s)" "calls s < 2 ^ 60 - 1" using assms(1) by (simp_all add: log_ok_def)
  have u: "unat (of_nat (calls s) :: u64) = calls s" "unat (of_nat n :: u64) = n"
    using c(2) nj(1) by (simp_all add: unat_of_nat)
  have "unat (of_nat (calls s) :: u64) + 1 < 2 ^ 60" "unat (of_nat n :: u64) + 1 < 2 ^ 60"
    using c(2) nj(1) unfolding u by simp_all
  from token_counter_inj [OF nj(3) _ _ this [folded c(1)]] assms(2) nj(2)
  have "(of_nat (calls s) :: u64) = of_nat n" by (simp add: c(1) kMaxInFlight_def)
  then show False using u nj(1) by (metis less_irrefl)
qed

lemma rpc_inv_number:
  assumes inv: "rpc_inv s" and pc: "cl s c = C_Claimed req i" and bound: "calls s + 1 < 2 ^ 60 - 1"
    and tok: "tok = make_token (next_correlation (rt s)) i"
  shows "rpc_inv (go c (C_Fill req i tok) (s\<lparr>rt := (rt s)\<lparr>next_correlation := next_correlation (rt s) + 1\<rparr>,
      calls := calls s + 1, sent := (tok, req) # sent s\<rparr>))"
proof -
  have i: "i < kMaxInFlight" and claimed: "state (rpc_slots (rt s) ! i) = kClaimed"
    using rpc_inv_slotD [OF inv, of c i] pc by simp_all
  have lg: "log_ok s" using inv by (simp add: rpc_inv_def)
  have fresh: "tok \<notin> fst ` set (sent s)" unfolding tok by (rule fresh_token [OF lg i])
  have idx: "token_index tok = i" using i by (simp add: tok token_index_make kMaxInFlight_def)
  have pcs: "pc_ok ((tok, req) # sent s) (answered s) (rpc_slots (rt s)) (cl s d)" for d
    using inv by (simp add: rpc_inv_def pc_ok_sent)
  have sl: "slot_ok ((tok, req) # sent s) (answered s) j (rpc_slots (rt s) ! j)" if "j < kMaxInFlight" for j
    using inv that by (auto simp: rpc_inv_def slot_ok_def)
  have nxt: "next_correlation (rt s) = of_nat (calls s)" using lg by (simp add: log_ok_def)
  have "log_ok (s\<lparr>rt := (rt s)\<lparr>next_correlation := next_correlation (rt s) + 1\<rparr>, calls := calls s + 1, sent := (tok, req) # sent s\<rparr>)"
    using lg fresh bound nxt issued_new [OF i, of "calls s"]
    by (auto simp: log_ok_def list_all_iff tok intro: issued_mono taken_ok_mono)
  then show ?thesis
    using inv pcs sl claimed idx fresh lg pc
    by (auto simp: rpc_inv_def fun_upd_comp owns_same log_ok_def)
qed

lemma rpc_inv_answer:
  assumes inv: "rpc_inv s" and sv: "sv s = S_Cas tok rsp" and st: "state (rpc_slots (rt s) ! token_index tok) = kTaken"
  shows "rpc_inv (s\<lparr>sv := S_Idle, rt := set_state (token_index tok) kReplied (rt s), answered := (tok, rsp) # answered s\<rparr>)"
proof -
  let ?i = "token_index tok" and ?sl = "rpc_slots (rt s)"
  let ?sl' = "?sl[?i := (?sl ! ?i)\<lparr>state := kReplied\<rparr>]"
  have h: "?i < kMaxInFlight" "correlation (?sl ! ?i) = tok" "response (?sl ! ?i) = Some rsp"
    and len: "length ?sl = kMaxInFlight" using inv sv by (simp_all add: rpc_inv_def holds_def)
  have ok: "slot_ok (sent s) (answered s) j (?sl ! j)" if "j < kMaxInFlight" for j using inv that by (simp add: rpc_inv_def)
  have "tok \<notin> fst ` set (answered s)" "tok \<in> fst ` set (sent s)"
    using ok [OF h(1)] st h(2) by (force simp: slot_ok_def)+
  then have "log_ok (s\<lparr>sv := S_Idle, rt := set_state ?i kReplied (rt s), answered := (tok, rsp) # answered s\<rparr>)"
    using inv sv by (simp add: rpc_inv_def log_ok_def)
  moreover have "slot_ok (sent s) ((tok, rsp) # answered s) j (?sl' ! j)" if j: "j < kMaxInFlight" for j
    using ok [OF j] h st len j by (cases "j = ?i") (auto simp: slot_ok_def)
  moreover have "busy_slots ?sl' = busy_slots ?sl" using st by (auto simp: busy_slots_def nth_list_update_if)
  moreover have "pc_ok (sent s) ((tok, rsp) # answered s) ?sl' (cl s d)" for d
    using inv st by (intro pc_ok_answer) (simp_all add: rpc_inv_def)
  ultimately show ?thesis using inv by (simp add: rpc_inv_def)
qed

text \<open>A caller that rewrites the slot it holds and keeps it, and one that gives its slot up.\<close>

lemma rpc_inv_keep:
  assumes inv: "rpc_inv s" and pc: "pc_slot (cl s c) = Some i" "pc_slot p = Some i"
    and t': "rpc_slots t' = (rpc_slots (rt s))[i := x]" "next_correlation t' = next_correlation (rt s)"
    and st: "state x \<notin> {kFree, kAbandoned}" "state (rpc_slots (rt s) ! i) \<notin> {kTaken, kAbandoned}"
    and ok: "pc_ok (sent s) (answered s) ((rpc_slots (rt s))[i := x]) p" "slot_ok (sent s) (answered s) i x"
  shows "rpc_inv (go c p (s\<lparr>rt := t'\<rparr>))"
proof -
  note D = rpc_inv_slotD [OF inv pc(1)]
  have own: "owns (pc_slot \<circ> cl s) (busy_slots (rpc_slots (rt s)))" using inv by (simp add: rpc_inv_def)
  show ?thesis
    by (rule rpc_inv_slot [OF inv D(1) t'])
      (use D own owns_mem [OF own, of c i] pc st ok inv in
        \<open>simp_all add: busy_update insert_absorb owns_same server_ok_frame rpc_inv_def\<close>)
qed

lemma rpc_inv_drop:
  assumes inv: "rpc_inv s" and pc: "pc_slot (cl s c) = Some i" "pc_slot p = None"
    and t': "rpc_slots t' = (rpc_slots (rt s))[i := x]" "next_correlation t' = next_correlation (rt s)"
    and st: "state x \<in> {kFree, kAbandoned}" "server_ok ((rpc_slots (rt s))[i := x]) (sv s)"
    and ok: "pc_ok (sent s) (answered s) ((rpc_slots (rt s))[i := x]) p" "slot_ok (sent s) (answered s) i x"
  shows "rpc_inv (go c p (s\<lparr>rt := t'\<rparr>))"
proof -
  note D = rpc_inv_slotD [OF inv pc(1)]
  have own: "owns (pc_slot \<circ> cl s) (busy_slots (rpc_slots (rt s)))" using inv by (simp add: rpc_inv_def)
  show ?thesis
    by (rule rpc_inv_slot [OF inv D(1) t'])
      (use D owns_drop [OF own, of c i] pc st ok in \<open>simp_all add: busy_update\<close>)
qed

lemma rpc_inv_server_ok: "rpc_inv s \<Longrightarrow> server_ok (rpc_slots (rt s)) (sv s)"
  by (simp add: rpc_inv_def)

text \<open>The steps of a caller, one by one.\<close>

lemma rpc_inv_local:
  assumes "rpc_inv s"
  shows "cl s c = C_Idle \<Longrightarrow> rpc_inv (go c (C_Call req) s)"
    and "cl s c = C_Call req \<Longrightarrow> rpc_inv (go c (C_Done req 0 Result_init) s)"
    and "cl s c = C_Call req \<Longrightarrow> rpc_inv (go c (C_Scan req 0) s)"
    and "cl s c = C_Scan req i \<Longrightarrow> i < kMaxInFlight \<Longrightarrow> rpc_inv (go c (C_Scan req (Suc i)) s)"
    and "cl s c = C_Scan req i \<Longrightarrow> rpc_inv (go c (C_Scan req 0) s)"
    and "cl s c = C_Scan req i \<Longrightarrow> rpc_inv (go c (C_Done req 0 expired_result) s)"
    and "cl s c = C_Done req tok res \<Longrightarrow> rpc_inv (go c C_Idle s)"
  by (rule rpc_inv_pc [OF assms]; simp add: Result_init_def expired_result_def)+

lemma rpc_inv_waiting:
  assumes inv: "rpc_inv s"
  shows "cl s c = C_Wait req i tok \<Longrightarrow> state_at (rt s) i = kReplied \<Longrightarrow> rpc_inv (go c (C_Consume req i tok) s)"
    and "cl s c = C_Wait req i tok \<Longrightarrow> rpc_inv (go c (C_Revoke req i tok) s)"
    and "cl s c = C_Revoke req i tok \<Longrightarrow> state_at (rt s) i \<noteq> kPending \<Longrightarrow> rpc_inv (go c (C_Abandon req i tok) s)"
    and "cl s c = C_Abandon req i tok \<Longrightarrow> state_at (rt s) i \<noteq> kTaken \<Longrightarrow> rpc_inv (go c (C_Consume req i tok) s)"
    and "cl s c = C_Consume req i tok \<Longrightarrow> rpc_inv (go c (C_Free req i tok (response (rpc_slots (rt s) ! i))) s)"
  using rpc_inv_slotD(5) [OF inv, of c i] by (auto intro!: rpc_inv_pc [OF inv] simp: state_at_def)

lemma rpc_inv_claim:
  assumes inv: "rpc_inv s" and pc: "cl s c = C_Scan req i" "i < kMaxInFlight" and st: "state_at (rt s) i = kFree"
  shows "rpc_inv (go c (C_Claimed req i) (s\<lparr>rt := set_state i kClaimed (rt s)\<rparr>))"
proof -
  have own: "owns (pc_slot \<circ> cl s) (busy_slots (rpc_slots (rt s)))" and len: "length (rpc_slots (rt s)) = kMaxInFlight"
    using inv by (simp_all add: rpc_inv_def)
  have idle: "i \<notin> busy_slots (rpc_slots (rt s))" using st by (simp add: busy_slots_def state_at_def)
  then have others: "pc_slot (cl s d) \<noteq> Some i" for d using owns_mem [OF own, of d i] by auto
  show ?thesis
    by (rule rpc_inv_slot [OF inv pc(2), where x = "(rpc_slots (rt s) ! i)\<lparr>state := kClaimed\<rparr>"])
      (use inv pc len st idle others owns_claim [OF own, of c i] in
        \<open>simp_all add: state_at_def busy_update slot_okD server_ok_frame rpc_inv_def\<close>)
qed

lemma rpc_inv_fill:
  assumes inv: "rpc_inv s" and pc: "cl s c = C_Fill req i tok"
  shows "rpc_inv (go c (C_Filled req i tok) (s\<lparr>rt := call_fill X ctx now tok i req (rt s)\<rparr>))"
  by (rule rpc_inv_keep [OF inv, where i = i and x = "(rpc_slots (rt s) ! i)\<lparr>correlation := tok,
        slot_envelope := make_envelope X ctx now None, request := Some req\<rparr>"])
    (use pc rpc_inv_slotD [OF inv, of c i] in \<open>simp_all add: call_fill_def upd_slot_def slot_ok_def\<close>)

lemma rpc_inv_post:
  assumes inv: "rpc_inv s" and pc: "cl s c = C_Filled req i tok"
  shows "rpc_inv (go c (C_Wait req i tok) (s\<lparr>rt := set_state i kPending (rt s)\<rparr>))"
  by (rule rpc_inv_keep [OF inv, where i = i and x = "(rpc_slots (rt s) ! i)\<lparr>state := kPending\<rparr>"])
    (use pc rpc_inv_slotD [OF inv, of c i] in \<open>simp_all add: slot_ok_def\<close>)

lemma rpc_inv_revoked:
  assumes inv: "rpc_inv s" and pc: "cl s c = C_Revoke req i tok" and st: "state_at (rt s) i = kPending"
  shows "rpc_inv (go c (C_Done req tok expired_result) (s\<lparr>rt := set_state i kFree (rt s)\<rparr>))"
  by (rule rpc_inv_drop [OF inv, where i = i and x = "(rpc_slots (rt s) ! i)\<lparr>state := kFree\<rparr>"])
    (use pc st rpc_inv_slotD [OF inv, of c i] in
      \<open>simp_all add: state_at_def slot_okD server_ok_frame rpc_inv_server_ok [OF inv] expired_result_def\<close>)

lemma rpc_inv_abandoned:
  assumes inv: "rpc_inv s" and pc: "cl s c = C_Abandon req i tok" and st: "state_at (rt s) i = kTaken"
  shows "rpc_inv (go c (C_Done req tok expired_result) (s\<lparr>rt := set_state i kAbandoned (rt s)\<rparr>))"
  by (rule rpc_inv_drop [OF inv, where i = i and x = "(rpc_slots (rt s) ! i)\<lparr>state := kAbandoned\<rparr>"])
    (use pc st rpc_inv_slotD [OF inv, of c i] in
      \<open>simp_all add: state_at_def slot_okD server_ok_abandon rpc_inv_server_ok [OF inv] expired_result_def\<close>)

lemma rpc_inv_free:
  assumes inv: "rpc_inv s" and pc: "cl s c = C_Free req i tok v"
  shows "rpc_inv (go c (C_Done req tok \<lparr>res_status = Call_kOk, res_value = v\<rparr>) (s\<lparr>rt := ReleaseSlot i (rt s)\<rparr>))"
proof -
  note D = rpc_inv_slotD [OF inv, of c i]
  have "\<exists>w. v = Some w \<and> (tok, w) \<in> set (answered s)" using D(4,5) pc by (auto simp: slot_ok_def)
  then show ?thesis
    by (intro rpc_inv_drop [OF inv, where i = i and x = "(rpc_slots (rt s) ! i)\<lparr>state := kFree\<rparr>"])
      (use D pc in \<open>simp_all add: ReleaseSlot_def slot_okD server_ok_frame rpc_inv_server_ok [OF inv]\<close>)
qed

text \<open>The steps of the serving thread.\<close>

lemma rpc_inv_take_ok:
  assumes inv: "rpc_inv s" and i: "i < length (rpc_slots (rt s))" and st: "state_at (rt s) i = kPending"
  shows "rpc_inv (s\<lparr>sv := S_Took i, rt := set_state i kTaken (rt s)\<rparr>)"
  by (rule rpc_inv_server [OF inv, where i = i and x = "(rpc_slots (rt s) ! i)\<lparr>state := kTaken\<rparr>"])
    (use inv i st in \<open>simp_all add: state_at_def pc_ok_take slot_okD rpc_inv_def\<close>)

lemma rpc_inv_took:
  assumes inv: "rpc_inv s" and sv: "sv s = S_Took i" and r: "r = read_request X (rpc_slots (rt s) ! i)"
  shows "rpc_inv (s\<lparr>sv := S_Idle, taken := (req_correlation r, req_value r) # taken s\<rparr>)"
proof -
  have "i < kMaxInFlight" "state (rpc_slots (rt s) ! i) \<in> {kTaken, kAbandoned}" using inv sv by (simp_all add: rpc_inv_def)
  then have "\<exists>req. request (rpc_slots (rt s) ! i) = Some req \<and> (correlation (rpc_slots (rt s) ! i), req) \<in> set (sent s)"
    using inv by (auto simp: rpc_inv_def slot_ok_def)
  then show ?thesis using inv sv r by (auto simp: rpc_inv_def log_ok_def read_request_def taken_ok_def)
qed

lemma rpc_inv_reply:
  assumes inv: "rpc_inv s" and tok: "tok \<in> fst ` set (taken s)"
  shows "rpc_inv (s\<lparr>sv := S_Reply tok rsp\<rparr>)"
proof -
  obtain r where "(tok, r) \<in> set (taken s)" using tok by auto
  with inv have "taken_ok (sent s) (tok, r)" by (auto simp: rpc_inv_def log_ok_def list_all_iff)
  then have "tok \<in> fst ` set (sent s)" by (force simp: taken_ok_def)
  with inv have "token_index tok < kMaxInFlight" using taken_index [of s tok] by (simp add: rpc_inv_def)
  with inv tok show ?thesis by (simp add: rpc_inv_def log_ok_def)
qed

lemma rpc_inv_reply_write:
  assumes inv: "rpc_inv s" and sv: "sv s = S_Write tok rsp"
  shows "rpc_inv (s\<lparr>sv := S_Cas tok rsp, rt := upd_slot (token_index tok) (\<lambda>sl. sl\<lparr>response := Some rsp\<rparr>) (rt s)\<rparr>)"
  by (rule rpc_inv_server [OF inv, where i = "token_index tok" and
        x = "(rpc_slots (rt s) ! token_index tok)\<lparr>response := Some rsp\<rparr>"])
    (use inv sv in \<open>auto simp: upd_slot_def rpc_inv_def holds_def intro!: pc_ok_write slot_okD(5)\<close>)

lemma rpc_inv_reclaim:
  assumes inv: "rpc_inv s" and sv: "sv s = S_Reclaim tok"
  shows "rpc_inv (s\<lparr>sv := S_Idle, rt := set_state (token_index tok) kFree (rt s)\<rparr>)"
proof -
  let ?i = "token_index tok"
  have own: "owns (pc_slot \<circ> cl s) (busy_slots (rpc_slots (rt s)))" using inv by (simp add: rpc_inv_def)
  have st: "state (rpc_slots (rt s) ! ?i) = kAbandoned" "?i < kMaxInFlight"
    using inv sv by (simp_all add: rpc_inv_def holds_def)
  then have "pc_slot (cl s d) \<noteq> Some ?i" for d using owns_mem [OF own, of d ?i] by (auto simp: busy_slots_def)
  with st inv show ?thesis
    by (intro rpc_inv_server [OF inv, where i = ?i and x = "(rpc_slots (rt s) ! ?i)\<lparr>state := kFree\<rparr>"])
      (simp_all add: rpc_inv_def slot_okD pc_ok_frame)
qed

lemmas rpc_inv_client_steps =
  rpc_inv_local rpc_inv_waiting rpc_inv_claim rpc_inv_number rpc_inv_fill rpc_inv_post rpc_inv_revoked
  rpc_inv_abandoned rpc_inv_free

lemmas rpc_inv_server_steps =
  rpc_inv_take_ok rpc_inv_took rpc_inv_reply rpc_inv_reply_write rpc_inv_answer rpc_inv_reclaim

lemma rpc_inv_step: "rpc_step X a s s' \<Longrightarrow> rpc_inv s \<Longrightarrow> rpc_inv s'"
proof (induction rule: rpc_step.induct)
  case (serve s st t')
  then show ?case by (auto simp: AddServer_def rpc_inv_def log_ok_def split: if_splits)
next
  case (unserve s)
  then show ?case by (simp add: RemoveServer_def rpc_inv_def log_ok_def)
next
  case (number s c req i tok)
  then show ?case by (intro rpc_inv_number)
next
  case (reply_ok s tok rsp t')
  then show ?case using rpc_inv_answer [of s tok rsp] by (simp add: state_at_def)
next
  case (reply_mine s tok rsp i)
  then show ?case by (auto simp: rpc_inv_def log_ok_def holds_def state_at_def)
next
  case (late_mine s tok i)
  then show ?case by (auto simp: rpc_inv_def log_ok_def holds_def state_at_def)
qed (simp_all add: rpc_inv_client_steps rpc_inv_server_steps, simp_all add: rpc_inv_def log_ok_def holds_def)

lemma rpc_reachable_inv: "rpc_reachable X s \<Longrightarrow> rpc_inv s"
proof (induction rule: rpc_reachable.induct)
  case (start nm h ty)
  show ?case
    by (auto simp: rpc_inv_def rpc_init_def RpcTopic_init_def busy_slots_def CallSlot_init_def slot_ok_def log_ok_def
        comp_def)
qed (rule rpc_inv_step)

section \<open>Expired calls stay expired\<close>

fun pc_tok :: "('req, 'rsp) client_pc \<Rightarrow> u64 option" where
  "pc_tok (C_Fill req i tok) = Some tok"
| "pc_tok (C_Filled req i tok) = Some tok"
| "pc_tok (C_Wait req i tok) = Some tok"
| "pc_tok (C_Revoke req i tok) = Some tok"
| "pc_tok (C_Abandon req i tok) = Some tok"
| "pc_tok (C_Consume req i tok) = Some tok"
| "pc_tok (C_Free req i tok v) = Some tok"
| "pc_tok (C_Done req tok res) = (if tok = 0 then None else Some tok)"
| "pc_tok _ = None"

text \<open>A token whose call has given up: never answered, and in no slot that a reply could still answer.\<close>

definition dead :: "('req, 'rsp) rpc_sys \<Rightarrow> u64 \<Rightarrow> bool" where
  "dead s tok \<longleftrightarrow> tok \<notin> fst ` set (answered s) \<and>
     (\<forall>i<kMaxInFlight. correlation (rpc_slots (rt s) ! i) = tok \<longrightarrow>
        state (rpc_slots (rt s) ! i) \<in> {kFree, kClaimed, kAbandoned})"

fun gave_up :: "('req, 'rsp) client_pc \<Rightarrow> u64 option" where
  "gave_up (C_Done req tok res) = (if tok \<noteq> 0 \<and> res_status res = Call_kDeadlineExpired then Some tok else None)"
| "gave_up _ = None"

definition rpc_tok :: "('req, 'rsp) rpc_sys \<Rightarrow> bool" where
  "rpc_tok s \<longleftrightarrow> (\<forall>c d tok. pc_tok (cl s c) = Some tok \<longrightarrow> pc_tok (cl s d) = Some tok \<longrightarrow> c = d) \<and>
     (\<forall>c tok. pc_tok (cl s c) = Some tok \<longrightarrow> tok \<in> fst ` set (sent s)) \<and>
     (\<forall>c tok. gave_up (cl s c) = Some tok \<longrightarrow> dead s tok)"

lemma gave_up_tok: "gave_up p = Some tok \<Longrightarrow> pc_tok p = Some tok"
  by (cases p) (auto split: if_splits)

text \<open>Steps that keep the tokens in hand and the dead tokens dead.\<close>

lemma rpc_tok_frame:
  assumes "rpc_tok s" "sent s' = sent s"
    and "\<And>d. d \<noteq> c \<Longrightarrow> cl s' d = cl s d" "pc_tok (cl s' c) \<in> {None, pc_tok (cl s c)}"
    and "\<And>tok. gave_up (cl s' c) = Some tok \<Longrightarrow> dead s' tok"
    and "\<And>d tok. d \<noteq> c \<Longrightarrow> gave_up (cl s d) = Some tok \<Longrightarrow> dead s tok \<Longrightarrow> dead s' tok"
  shows "rpc_tok s'"
proof -
  have tok: "pc_tok (cl s' d) = Some tok \<Longrightarrow> pc_tok (cl s d) = Some tok" for d tok
    using assms(3,4) by (cases "d = c") auto
  have "dead s' tok" if "gave_up (cl s' d) = Some tok" for d tok
    using that assms(1,3,5,6) by (cases "d = c") (auto simp: rpc_tok_def)
  with tok assms(1,2) show ?thesis unfolding rpc_tok_def by metis
qed

lemma dead_frame:
  assumes "dead s tok" "answered s' = answered s"
    and "rpc_slots (rt s') = (rpc_slots (rt s))[i := x]"
    and "state x \<in> {kFree, kClaimed, kAbandoned} \<or> correlation x \<noteq> tok"
  shows "dead s' tok"
  using assms by (auto simp: dead_def nth_list_update_if)

lemma dead_same: "answered s' = answered s \<Longrightarrow> rpc_slots (rt s') = rpc_slots (rt s) \<Longrightarrow> dead s' tok = dead s tok"
  by (simp add: dead_def)

lemma rpc_tok_server:
  assumes "rpc_tok s" "cl s' = cl s" "sent s' = sent s" "\<And>tok. dead s tok \<Longrightarrow> dead s' tok"
  shows "rpc_tok s'"
  by (rule rpc_tok_frame [OF assms(1), where c = 0]) (use assms in \<open>auto simp: rpc_tok_def\<close>)

lemma rpc_tok_pc:
  assumes "rpc_tok s" "pc_tok p \<in> {None, pc_tok (cl s c)}" "gave_up p = None"
  shows "rpc_tok (go c p s)"
  by (rule rpc_tok_frame [OF assms(1), where c = c]) (use assms dead_same [of "go c p s" s] in simp_all)

lemma rpc_tok_updates [simp]:
  "rpc_tok (s\<lparr>sv := q\<rparr>) = rpc_tok s" "rpc_tok (s\<lparr>sv := q, taken := l\<rparr>) = rpc_tok s"
  by (simp_all add: rpc_tok_def dead_def)

lemma dead_not_live:
  "dead s tok \<Longrightarrow> i < kMaxInFlight \<Longrightarrow> state (rpc_slots (rt s) ! i) \<in> {kPending, kTaken, kReplied} \<Longrightarrow>
   correlation (rpc_slots (rt s) ! i) \<noteq> tok"
  by (auto simp: dead_def)

text \<open>The caller's last compare-and-swap leaves its token dead.\<close>

lemma dead_given_up:
  assumes inv: "rpc_inv s" and i: "i < kMaxInFlight" "correlation (rpc_slots (rt s) ! i) = tok"
    and st: "state (rpc_slots (rt s) ! i) \<in> {kPending, kTaken}" and x: "state x \<in> {kFree, kAbandoned}"
    and s': "answered s' = answered s" "rpc_slots (rt s') = (rpc_slots (rt s))[i := x]"
  shows "dead s' tok"
proof -
  have sl: "slot_ok (sent s) (answered s) j (rpc_slots (rt s) ! j)" if "j < kMaxInFlight" for j
    using inv that by (simp add: rpc_inv_def)
  have idx: "token_index tok = i" "tok \<notin> fst ` set (answered s)" using sl [OF i(1)] i(2) st by (auto simp: slot_ok_def)
  have "state (rpc_slots (rt s) ! j) \<in> {kFree, kClaimed, kAbandoned}"
    if "j < kMaxInFlight" "correlation (rpc_slots (rt s) ! j) = tok" "j \<noteq> i" for j
    using sl [OF that(1)] that idx(1) by (cases "state (rpc_slots (rt s) ! j)") (auto simp: slot_ok_def)
  then show ?thesis using idx(2) x inv by (auto simp: dead_def s' nth_list_update_if rpc_inv_def)
qed

lemma rpc_tok_given_up:
  assumes inv: "rpc_inv s" and tk: "rpc_tok s" "pc_tok (cl s c) = Some tok"
    and i: "i < kMaxInFlight" "correlation (rpc_slots (rt s) ! i) = tok"
    and st: "state (rpc_slots (rt s) ! i) \<in> {kPending, kTaken}" and x: "state x \<in> {kFree, kAbandoned}"
    and t': "rpc_slots t' = (rpc_slots (rt s))[i := x]"
  shows "rpc_tok (go c (C_Done req tok expired_result) (s\<lparr>rt := t'\<rparr>))"
proof (rule rpc_tok_frame [OF tk(1), where c = c])
  let ?s' = "go c (C_Done req tok expired_result) (s\<lparr>rt := t'\<rparr>)"
  have "dead ?s' tok" by (rule dead_given_up [OF inv i st x]) (simp_all add: t')
  then show "dead ?s' tk" if "gave_up (cl ?s' c) = Some tk" for tk
    using that by (simp split: if_splits)
  show "dead ?s' tk" if "dead s tk" for tk
    by (rule dead_frame [OF that, where i = i and x = x]) (use x t' in simp_all, auto)
qed (use tk(2) in simp_all)

lemma rpc_tok_number:
  assumes inv: "rpc_inv s" and tk: "rpc_tok s" and pc: "cl s c = C_Claimed req i"
    and tok: "tok = make_token (next_correlation (rt s)) i"
  shows "rpc_tok (go c (C_Fill req i tok) (s\<lparr>rt := (rt s)\<lparr>next_correlation := next_correlation (rt s) + 1\<rparr>,
      calls := calls s + 1, sent := (tok, req) # sent s\<rparr>))"
proof -
  have fresh: "tok \<notin> fst ` set (sent s)"
    using fresh_token [of s i] rpc_inv_slotD(1) [OF inv, of c i] inv pc tok by (simp add: rpc_inv_def)
  have dead: "dead (go c (C_Fill req i tok) (s\<lparr>rt := (rt s)\<lparr>next_correlation := next_correlation (rt s) + 1\<rparr>,
      calls := calls s + 1, sent := (tok, req) # sent s\<rparr>)) tk' = dead s tk'" for tk'
    by (rule dead_same) simp_all
  have old: "tk' \<in> fst ` set (sent s)" if "pc_tok (cl s d) = Some tk'" for d tk'
    using tk that by (auto simp: rpc_tok_def)
  from tk fresh old show ?thesis unfolding rpc_tok_def dead by (auto split: if_splits)
qed

lemma rpc_tok_post:
  assumes inv: "rpc_inv s" and tk: "rpc_tok s" and pc: "cl s c = C_Filled req i tok"
  shows "rpc_tok (go c (C_Wait req i tok) (s\<lparr>rt := set_state i kPending (rt s)\<rparr>))"
proof -
  have corr: "correlation (rpc_slots (rt s) ! i) = tok" using pc rpc_inv_slotD(5) [OF inv, of c i] by simp
  have ne: "tk' \<noteq> tok" if "d \<noteq> c" "gave_up (cl s d) = Some tk'" for d tk'
    using tk pc gave_up_tok [OF that(2)] that(1) by (auto simp: rpc_tok_def)
  have D: "dead (go c (C_Wait req i tok) (s\<lparr>rt := set_state i kPending (rt s)\<rparr>)) tk'" if "dead s tk'" "tk' \<noteq> tok" for tk'
    by (rule dead_frame [OF that(1), where i = i and x = "(rpc_slots (rt s) ! i)\<lparr>state := kPending\<rparr>"])
      (use corr that in simp_all)
  show ?thesis by (rule rpc_tok_frame [OF tk, where c = c]) (use pc ne D in simp_all)
qed

text \<open>A step of the serving thread that rewrites a slot a live call holds.\<close>

lemma rpc_tok_live:
  assumes tk: "rpc_tok s" and i: "i < kMaxInFlight"
    and s': "cl s' = cl s" "sent s' = sent s" "answered s' = answered s" "rpc_slots (rt s') = (rpc_slots (rt s))[i := x]"
    and x: "state x \<in> {kFree, kClaimed, kAbandoned} \<or>
       state (rpc_slots (rt s) ! i) \<in> {kPending, kTaken, kReplied} \<and> correlation x = correlation (rpc_slots (rt s) ! i)"
  shows "rpc_tok s'"
proof (rule rpc_tok_server [OF tk s'(1,2)])
  show "dead s' tok" if "dead s tok" for tok
    by (rule dead_frame [OF that s'(3,4)]) (use dead_not_live [OF that i] x in auto)
qed

lemma rpc_tok_answer:
  assumes inv: "rpc_inv s" and tk: "rpc_tok s" and sv: "sv s = S_Cas tok rsp" "state_at (rt s) (token_index tok) = kTaken"
  shows "rpc_tok (s\<lparr>sv := S_Idle, rt := set_state (token_index tok) kReplied (rt s), answered := (tok, rsp) # answered s\<rparr>)"
    (is "rpc_tok ?s'")
proof (rule rpc_tok_server [OF tk])
  let ?i = "token_index tok"
  have i: "?i < kMaxInFlight" "correlation (rpc_slots (rt s) ! ?i) = tok" "state (rpc_slots (rt s) ! ?i) = kTaken"
    "length (rpc_slots (rt s)) = kMaxInFlight"
    using inv sv by (auto simp: rpc_inv_def holds_def state_at_def)
  show "dead ?s' tk'" if "dead s tk'" for tk'
    using that dead_not_live [OF that i(1)] i by (auto simp: dead_def nth_list_update_if)
qed simp_all

lemma rpc_tok_step:
  assumes "rpc_step X a s s'" "rpc_inv s" "rpc_tok s"
  shows "rpc_tok s'"
  using assms
proof (induction rule: rpc_step.induct)
  case (serve s st t')
  then have "rpc_slots t' = rpc_slots (rt s)" by (auto simp: AddServer_def split: if_splits)
  then show ?case using dead_same [of "s\<lparr>rt := t'\<rparr>" s] by (intro rpc_tok_server [OF serve.prems(2)]) simp_all
next
  case (unserve s)
  then show ?case
    using dead_same [of "s\<lparr>rt := RemoveServer (rt s)\<rparr>" s]
    by (intro rpc_tok_server [OF unserve.prems(2)]) (simp_all add: RemoveServer_def)
next
  case (claim s c req i t')
  then show ?case by (intro rpc_tok_frame [OF claim.prems(2), where c = c]) (auto intro: dead_frame [where i = i])
next
  case (fill s c req i tok ctx now)
  then have "state (rpc_slots (rt s) ! i) = kClaimed" using rpc_inv_slotD(5) [OF fill.prems(1), of c i] by simp
  then show ?case using fill.hyps
    by (intro rpc_tok_frame [OF fill.prems(2), where c = c])
      (auto simp: call_fill_def upd_slot_def intro: dead_frame [where i = i])
next
  case (revoked s c req i tok t')
  then show ?case
    using rpc_inv_slotD [OF revoked.prems(1), of c i]
    by (intro rpc_tok_given_up [OF revoked.prems, where i = i and x = "(rpc_slots (rt s) ! i)\<lparr>state := kFree\<rparr>"])
      (simp_all add: state_at_def)
next
  case (abandoned s c req i tok t')
  then show ?case
    using rpc_inv_slotD [OF abandoned.prems(1), of c i]
    by (intro rpc_tok_given_up [OF abandoned.prems, where i = i and x = "(rpc_slots (rt s) ! i)\<lparr>state := kAbandoned\<rparr>"])
      (simp_all add: state_at_def)
next
  case (free s c req i tok v)
  then show ?case
    by (intro rpc_tok_frame [OF free.prems(2), where c = c]) (auto simp: ReleaseSlot_def intro: dead_frame [where i = i])
next
  case (take_ok s i t')
  then show ?case
    by (intro rpc_tok_live [OF take_ok.prems(2), where i = i and x = "(rpc_slots (rt s) ! i)\<lparr>state := kTaken\<rparr>"])
      (simp_all add: state_at_def rpc_inv_def)
next
  case (reply_write s tok rsp)
  then show ?case
    by (intro rpc_tok_live [OF reply_write.prems(2), where i = "token_index tok" and
          x = "(rpc_slots (rt s) ! token_index tok)\<lparr>response := Some rsp\<rparr>"])
      (auto simp: upd_slot_def rpc_inv_def holds_def)
next
  case (reclaim s tok)
  then show ?case
    by (intro rpc_tok_live [OF reclaim.prems(2), where i = "token_index tok" and
          x = "(rpc_slots (rt s) ! token_index tok)\<lparr>state := kFree\<rparr>"])
      (simp_all add: rpc_inv_def holds_def)
next
  case (number s c req i tok)
  then show ?case by (intro rpc_tok_number)
qed (simp_all add: rpc_tok_pc rpc_tok_post rpc_tok_answer)

lemma rpc_reachable_tok: "rpc_reachable X s \<Longrightarrow> rpc_tok s"
proof (induction rule: rpc_reachable.induct)
  case (start nm h ty)
  show ?case by (simp add: rpc_tok_def rpc_init_def)
next
  case (step s a s')
  then show ?case using rpc_tok_step rpc_reachable_inv by blast
qed

end
