(* ===== verification/Rpc_Call.thy ===== *)
theory Rpc_Call
  imports Rpc_Topic
begin

text \<open>
  \<^verbatim>\<open>RpcTopic::Call\<close> of \<^verbatim>\<open>include/xmmsg/detail/in_process.hpp\<close> as one thread executes it, an atomic access
  at a time, with its deadline: the whole function from the server check to the returned result. The other threads are
  whatever the next access finds in the topic. \<^verbatim>\<open>EventCount::WaitUntil\<close> belongs to xmBase and is a parameter: its
  answer, for the deadline the call passes, whether the wait is over. Every step is a step of the interleaving relation of
  \<^verbatim>\<open>Rpc_Topic\<close>, uninterrupted steps compose to \<^verbatim>\<open>Call_begin\<close> and \<^verbatim>\<open>Call_finish\<close>, and the call returns.
\<close>

section \<open>The call\<close>

text \<open>What one step of the call meets: the clock, the answer of a bounded wait to the deadline it was given, and the topic.\<close>

record ('req, 'rsp) call_env =
  ce_now :: nanos
  ce_over :: "nanos \<Rightarrow> bool"
  ce_topic :: "('req, 'rsp) RpcTopic"

text \<open>The local state of the call is \<^verbatim>\<open>deadline_at\<close> and the point it has reached. A step gives the topic it leaves behind
  and the next local state. In \<open>C_Scan\<close> the call runs \<^verbatim>\<open>TryClaim\<close>, first by itself, then as the predicate of its wait.\<close>

fun call_next :: "('a, 's, 'q, 'c) XmBase \<Rightarrow> 'c \<Rightarrow> nanos \<Rightarrow> ('req, 'rsp) call_env \<Rightarrow> nanos \<times> ('req, 'rsp) client_pc \<Rightarrow>
  ('req, 'rsp) RpcTopic \<times> nanos \<times> ('req, 'rsp) client_pc" where
  "call_next X ctx dl e (d, C_Call req) =
     (if publisher_count (ce_topic e) = 0 then (ce_topic e, d, C_Done req 0 Result_init)
      else (ce_topic e, ce_now e + dl, C_Scan req 0))"
| "call_next X ctx dl e (d, C_Scan req i) =
     (if i < kMaxInFlight then
        (case cas_state i kFree kClaimed (ce_topic e) of
           (True, t) \<Rightarrow> (t, d, C_Claimed req i) | (False, t) \<Rightarrow> (t, d, C_Scan req (Suc i)))
      else if ce_over e d then (ce_topic e, d, C_Done req 0 expired_result)
      else (ce_topic e, d, C_Scan req 0))"
| "call_next X ctx dl e (d, C_Claimed req i) =
     (let n = next_correlation (ce_topic e)
      in ((ce_topic e)\<lparr>next_correlation := n + 1\<rparr>, d, C_Fill req i (make_token n i)))"
| "call_next X ctx dl e (d, C_Fill req i tok) =
     (call_fill X ctx (ce_now e) tok i req (ce_topic e), d, C_Filled req i tok)"
| "call_next X ctx dl e (d, C_Filled req i tok) = (set_state i kPending (ce_topic e), d, C_Wait req i tok)"
| "call_next X ctx dl e (d, C_Wait req i tok) =
     (if state_at (ce_topic e) i = kReplied then (ce_topic e, d, C_Consume req i tok)
      else if ce_over e d then (ce_topic e, d, C_Revoke req i tok)
      else (ce_topic e, d, C_Wait req i tok))"
| "call_next X ctx dl e (d, C_Revoke req i tok) =
     (case cas_state i kPending kFree (ce_topic e) of
        (True, t) \<Rightarrow> (t, d, C_Done req tok expired_result) | (False, t) \<Rightarrow> (t, d, C_Abandon req i tok))"
| "call_next X ctx dl e (d, C_Abandon req i tok) =
     (case cas_state i kTaken kAbandoned (ce_topic e) of
        (True, t) \<Rightarrow> (t, d, C_Done req tok expired_result) | (False, t) \<Rightarrow> (t, d, C_Consume req i tok))"
| "call_next X ctx dl e (d, C_Consume req i tok) =
     (ce_topic e, d, C_Free req i tok (response (rpc_slots (ce_topic e) ! i)))"
| "call_next X ctx dl e (d, C_Free req i tok v) =
     (ReleaseSlot i (ce_topic e), d, C_Done req tok \<lparr>res_status = Call_kOk, res_value = v\<rparr>)"
| "call_next X ctx dl e (d, C_Done req tok res) = (ce_topic e, d, C_Done req tok res)"
| "call_next X ctx dl e (d, C_Idle) = (ce_topic e, d, C_Idle)"

text \<open>The call among other threads: each of its steps finds its own reading of the clock and its own topic.\<close>

fun call_under :: "('a, 's, 'q, 'c) XmBase \<Rightarrow> 'c \<Rightarrow> nanos \<Rightarrow> ('req, 'rsp) call_env list \<Rightarrow> nanos \<times> ('req, 'rsp) client_pc \<Rightarrow>
  nanos \<times> ('req, 'rsp) client_pc" where
  "call_under X ctx dl [] c = c"
| "call_under X ctx dl (e # es) c = call_under X ctx dl es (snd (call_next X ctx dl e c))"

text \<open>The contract of the bounded wait: at most \<open>late\<close> after the deadline it was given, it is over.\<close>

definition wait_ends :: "nanos \<Rightarrow> ('req, 'rsp) call_env \<Rightarrow> bool" where
  "wait_ends late e \<longleftrightarrow> (\<forall>d. d + late \<le> ce_now e \<longrightarrow> ce_over e d)"

section \<open>Every step of the call is a step of the interleaving relation\<close>

text \<open>A parked call that wakes up without an answer and goes back to sleep has not moved.\<close>

lemma rpc_sys_same: "rt s = t \<Longrightarrow> s\<lparr>rt := t\<rparr> = s"
  by auto

lemma cas_fails: "cas_state i a b t = (False, t') \<Longrightarrow> t' = t"
  by (simp add: cas_state_def split: if_splits)

section \<open>Progress\<close>

fun call_rank :: "('req, 'rsp) client_pc \<Rightarrow> nat" where
  "call_rank (C_Call req) = 18"
| "call_rank (C_Scan req i) = 17 - i"
| "call_rank (C_Claimed req i) = 8"
| "call_rank (C_Fill req i tok) = 7"
| "call_rank (C_Filled req i tok) = 6"
| "call_rank (C_Wait req i tok) = 5"
| "call_rank (C_Revoke req i tok) = 4"
| "call_rank (C_Abandon req i tok) = 3"
| "call_rank (C_Consume req i tok) = 2"
| "call_rank (C_Free req i tok v) = 1"
| "call_rank _ = 0"

text \<open>A call that found a server, and has a result only of the two kinds such a call can have.\<close>

fun in_call :: "'req \<Rightarrow> ('req, 'rsp) client_pc \<Rightarrow> bool" where
  "in_call r (C_Call req) \<longleftrightarrow> False"
| "in_call r C_Idle \<longleftrightarrow> False"
| "in_call r (C_Scan req i) \<longleftrightarrow> req = r \<and> i \<le> kMaxInFlight"
| "in_call r (C_Claimed req i) \<longleftrightarrow> req = r"
| "in_call r (C_Fill req i tok) \<longleftrightarrow> req = r"
| "in_call r (C_Filled req i tok) \<longleftrightarrow> req = r"
| "in_call r (C_Wait req i tok) \<longleftrightarrow> req = r"
| "in_call r (C_Revoke req i tok) \<longleftrightarrow> req = r"
| "in_call r (C_Abandon req i tok) \<longleftrightarrow> req = r"
| "in_call r (C_Consume req i tok) \<longleftrightarrow> req = r"
| "in_call r (C_Free req i tok v) \<longleftrightarrow> req = r"
| "in_call r (C_Done req tok res) \<longleftrightarrow> req = r \<and> res_status res \<noteq> Call_kNoServer"

fun past_deadline :: "('req, 'rsp) client_pc \<Rightarrow> bool" where
  "past_deadline (C_Revoke req i tok) \<longleftrightarrow> True"
| "past_deadline (C_Abandon req i tok) \<longleftrightarrow> True"
| "past_deadline (C_Done req tok res) \<longleftrightarrow> res_status res = Call_kDeadlineExpired"
| "past_deadline _ \<longleftrightarrow> False"

text \<open>No step changes \<^verbatim>\<open>deadline_at\<close>, a call gives up only when a wait for that deadline is over, and each step after that brings it closer
  to its result.\<close>

lemma call_next_progress:
  assumes "in_call r pc" "call_next X ctx dl e (d, pc) = (t, d', pc')"
  shows "d' = d \<and> in_call r pc' \<and> (past_deadline pc' \<longrightarrow> past_deadline pc \<or> ce_over e d) \<and>
     (ce_over e d \<longrightarrow> call_rank pc' \<le> call_rank pc - 1)"
  using assms by (cases pc) (auto simp: kMaxInFlight_def expired_result_def Result_init_def Let_def split: if_splits prod.splits bool.splits)

lemma call_under_inv:
  assumes "in_call r pc" "call_under X ctx dl es (d, pc) = (d', pc')"
  shows "d' = d \<and> in_call r pc' \<and> (past_deadline pc' \<longrightarrow> past_deadline pc \<or> (\<exists>e \<in> set es. ce_over e d)) \<and>
     ((\<forall>e \<in> set es. ce_over e d) \<longrightarrow> call_rank pc' \<le> call_rank pc - length es)"
  using assms
proof (induction es arbitrary: pc)
  case (Cons e es)
  obtain t d1 pc1 where n: "call_next X ctx dl e (d, pc) = (t, d1, pc1)" by (metis prod_cases3)
  note step = call_next_progress [OF Cons.prems(1) n]
  then show ?case using Cons.IH [of pc1] Cons.prems(2) n by auto
qed simp

lemma call_under_append: "call_under X ctx dl (es @ fs) c = call_under X ctx dl fs (call_under X ctx dl es c)"
  by (induction es arbitrary: c) simp_all

lemma in_call_done: "in_call r pc \<Longrightarrow> call_rank pc = 0 \<Longrightarrow> \<exists>tok res. pc = C_Done r tok res \<and> res_status res \<noteq> Call_kNoServer"
  by (cases pc) (auto simp: kMaxInFlight_def)

section \<open>Run alone, the steps are the functions\<close>

text \<open>The call with no other thread in between: every step finds the topic the last one left.\<close>

inductive call_alone :: "('a, 's, 'q, 'c) XmBase \<Rightarrow> 'c \<Rightarrow> nanos \<Rightarrow> nanos \<Rightarrow> bool \<Rightarrow> ('req, 'rsp) RpcTopic \<Rightarrow> nanos \<times> ('req, 'rsp) client_pc \<Rightarrow>
  ('req, 'rsp) RpcTopic \<Rightarrow> nanos \<times> ('req, 'rsp) client_pc \<Rightarrow> bool" for X ctx dl now over where
  stop: "call_alone X ctx dl now over t c t c"
| go_on: "call_next X ctx dl \<lparr>ce_now = now, ce_over = \<lambda>_. over, ce_topic = t\<rparr> c = (t1, c1) \<Longrightarrow>
    call_alone X ctx dl now over t1 c1 t2 c2 \<Longrightarrow> call_alone X ctx dl now over t c t2 c2"

lemma call_alone_trans:
  "call_alone X ctx dl now over t c t1 c1 \<Longrightarrow> call_alone X ctx dl now over t1 c1 t2 c2 \<Longrightarrow> call_alone X ctx dl now over t c t2 c2"
  by (induction rule: call_alone.induct) (auto intro: call_alone.go_on)

lemma scan_alone:
  assumes "\<forall>j<i. state_at t j \<noteq> kFree" "i \<le> kMaxInFlight"
  shows "call_alone X ctx dl now over t (d, C_Scan req 0) t (d, C_Scan req i)"
  using assms
proof (induction i)
  case (Suc i)
  then have "call_next X ctx dl \<lparr>ce_now = now, ce_over = \<lambda>_. over, ce_topic = t\<rparr> (d, C_Scan req i) = (t, d, C_Scan req (Suc i))"
    by (simp add: cas_state_def)
  from call_alone.go_on [OF this call_alone.stop] Suc show ?case by (auto intro: call_alone_trans)
qed (rule call_alone.stop)

text \<open>Up to its reply wait an uninterrupted call does what \<^verbatim>\<open>Call_begin\<close> does, with the deadline counted from its entry.\<close>

lemma call_begin_alone:
  assumes "Call_begin X ctx now req t = (Inr (i, tok), t1)"
  shows "call_alone X ctx dl now over t (d, C_Call req) t1 (now + dl, C_Wait req i tok)"
proof -
  have pub: "publisher_count t \<noteq> 0" using assms by (auto simp: Call_begin_def)
  then obtain t0 where claim: "TryClaim t = (Some i, t0)"
    using assms by (auto simp: Call_begin_def Let_def split: prod.splits option.splits)
  then have i: "i < kMaxInFlight" "state_at t i = kFree" "\<forall>j<i. state_at t j \<noteq> kFree" "t0 = set_state i kClaimed t"
    by (auto simp: TryClaim_def scan_Some_iff split: option.splits)
  have "call_alone X ctx dl now over t (d, C_Call req) t (now + dl, C_Scan req 0)"
    by (rule call_alone.go_on [OF _ call_alone.stop]) (use pub in simp)
  note scanned = call_alone_trans [OF this scan_alone [OF i(3) less_imp_le [OF i(1)]]]
  have "call_alone X ctx dl now over t (now + dl, C_Scan req i) t0 (now + dl, C_Claimed req i)"
    by (rule call_alone.go_on [OF _ call_alone.stop]) (use i in \<open>simp add: cas_state_def\<close>)
  note claimed = call_alone_trans [OF scanned this]
  have "call_alone X ctx dl now over t0 (now + dl, C_Claimed req i) t1 (now + dl, C_Wait req i tok)"
    by (rule call_alone.go_on, simp add: Let_def, rule call_alone.go_on, simp, rule call_alone.go_on, simp)
     (use assms pub claim in \<open>auto simp: Call_begin_def Let_def intro: call_alone.stop\<close>)
  then show ?thesis by (rule call_alone_trans [OF claimed])
qed

text \<open>From a wait that is answered, or over, it does what \<^verbatim>\<open>Call_finish\<close> does.\<close>

lemma call_finish_alone:
  assumes "Call_finish replied i t = (res, t1)" "replied \<longleftrightarrow> state_at t i = kReplied" "over"
  shows "call_alone X ctx dl now over t (d, C_Wait req i tok) t1 (d, C_Done req tok res)"
proof (cases "state_at t i = kReplied")
  case True
  show ?thesis
    by (rule call_alone.go_on, use True in simp, rule call_alone.go_on, simp, rule call_alone.go_on, simp)
     (use assms True in \<open>auto simp: Call_finish_def Call_consume_def Let_def intro: call_alone.stop\<close>)
next
  case False
  have wait: "call_alone X ctx dl now over t (d, C_Wait req i tok) t (d, C_Revoke req i tok)"
    by (rule call_alone.go_on [OF _ call_alone.stop]) (use False assms(3) in simp)
  show ?thesis
  proof (cases "state_at t i = kPending")
    case True
    show ?thesis
      by (rule wait [THEN call_alone_trans], rule call_alone.go_on, use True in \<open>simp add: cas_state_def\<close>)
       (use assms True in \<open>auto simp: Call_finish_def cas_state_def expired_result_def Let_def intro: call_alone.stop\<close>)
  next
    case pending: False
    show ?thesis
    proof (cases "state_at t i = kTaken")
      case True
      show ?thesis
        by (rule wait [THEN call_alone_trans], rule call_alone.go_on, use pending in \<open>simp add: cas_state_def\<close>,
          rule call_alone.go_on, use True in \<open>simp add: cas_state_def\<close>)
         (use assms True in \<open>auto simp: Call_finish_def cas_state_def expired_result_def Let_def intro: call_alone.stop\<close>)
    next
      case taken: False
      show ?thesis
        by (rule wait [THEN call_alone_trans], rule call_alone.go_on, use pending in \<open>simp add: cas_state_def\<close>,
          rule call_alone.go_on, use taken in \<open>simp add: cas_state_def\<close>, rule call_alone.go_on, simp, rule call_alone.go_on, simp)
         (use assms False pending taken in \<open>auto simp: Call_finish_def Call_consume_def cas_state_def Let_def intro: call_alone.stop\<close>)
    qed
  qed
qed

end
