(* ===== verification/Rpc_Properties.thy ===== *)
theory Rpc_Properties
  imports Rpc_Call
begin

text \<open>
  What request/reply promises: the answer a call returns is the one given to its own request, both
  sides agree on whether a call was answered, the call as a thread runs it is a run of the interleaving
  relation and returns within seventeen of its own steps after its deadline, and the uninterrupted operations compose to a
  round trip.
\<close>

section \<open>A run\<close>

text \<open>One call on a served topic, up to the point where the caller has consumed the reply.\<close>

definition demo_rt :: "u64 \<Rightarrow> u64 \<Rightarrow> (nat, nat) CallSlot \<Rightarrow> (nat, nat) RpcTopic" where
  "demo_rt servers n x = (RpcTopic_init ''add'' 5 ''rpc'')\<lparr>publisher_count := servers, next_correlation := n,
     rpc_slots := x # replicate 7 CallSlot_init\<rparr>"

definition demo_sys :: "(nat, nat) RpcTopic \<Rightarrow> (nat, nat) client_pc \<Rightarrow> nat server_pc \<Rightarrow> nat \<Rightarrow>
  (u64 \<times> nat) list \<Rightarrow> (u64 \<times> nat option) list \<Rightarrow> (u64 \<times> nat) list \<Rightarrow> (nat, nat) rpc_sys" where
  "demo_sys t p q n se ta an = \<lparr>rt = t, cl = (\<lambda>_. C_Idle)(0 := p), sv = q, calls = n, sent = se, taken = ta, answered = an\<rparr>"

definition demo_slot :: "CallSlotState \<Rightarrow> nat option \<Rightarrow> (nat, nat) CallSlot" where
  "demo_slot st v = \<lparr>state = st, correlation = 16, slot_envelope = make_envelope XmBase_nat (1, 2, 3) 100 None,
     request = Some 7, response = v\<rparr>"

lemma demo_simps [simp]:
  "rt (demo_sys t p q n se ta an) = t" "cl (demo_sys t p q n se ta an) 0 = p" "sv (demo_sys t p q n se ta an) = q"
  "go 0 p' (demo_sys t p q n se ta an) = demo_sys t p' q n se ta an"
  "calls (demo_sys t p q n se ta an) = n" "taken (demo_sys t p q n se ta an) = ta"
  "answered (demo_sys t p q n se ta an) = an" "sent (demo_sys t p q n se ta an) = se"
  "(demo_sys t p q n se ta an)\<lparr>rt := t'\<rparr> = demo_sys t' p q n se ta an"
  "(demo_sys t p q n se ta an)\<lparr>sv := q'\<rparr> = demo_sys t p q' n se ta an"
  "(demo_sys t p q n se ta an)\<lparr>calls := n'\<rparr> = demo_sys t p q n' se ta an"
  "(demo_sys t p q n se ta an)\<lparr>sent := se'\<rparr> = demo_sys t p q n se' ta an"
  "(demo_sys t p q n se ta an)\<lparr>taken := ta'\<rparr> = demo_sys t p q n se ta' an"
  "(demo_sys t p q n se ta an)\<lparr>answered := an'\<rparr> = demo_sys t p q n se ta an'"
  by (simp_all add: demo_sys_def go_def)

lemma demo_rt_simps [simp]:
  "publisher_count (demo_rt k n x) = k" "next_correlation (demo_rt k n x) = n" "length (rpc_slots (demo_rt k n x)) = 8"
  "rpc_slots (demo_rt k n x) ! 0 = x" "state_at (demo_rt k n x) 0 = state x"
  "set_state 0 st (demo_rt k n x) = demo_rt k n (x\<lparr>state := st\<rparr>)"
  "upd_slot 0 f (demo_rt k n x) = demo_rt k n (f x)" "(demo_rt k n x)\<lparr>next_correlation := n'\<rparr> = demo_rt k n' x"
  by (simp_all add: demo_rt_def state_at_def set_state_def upd_slot_def)

lemma demo_slot_simps [simp]:
  "state (demo_slot st v) = st" "correlation (demo_slot st v) = 16" "response (demo_slot st v) = v"
  "(demo_slot st v)\<lparr>state := st'\<rparr> = demo_slot st' v" "(demo_slot st v)\<lparr>response := v'\<rparr> = demo_slot st v'"
  "request (demo_slot st v) = Some 7"
  by (simp_all add: demo_slot_def)

lemma token_one [simp]: "make_token 0 0 = 16" "token_index 16 = 0"
  by (simp_all add: make_token_def token_index_def kIndexBits_def)

lemma rpc_demo_posted:
  "rpc_reachable XmBase_nat (demo_sys (demo_rt 1 1 (demo_slot kPending None)) (C_Wait 7 0 16) S_Idle 1 [(16, 7)] [] [])"
proof -
  let ?R = "rpc_reachable XmBase_nat"
  have "rpc_init ''add'' 5 ''rpc'' = demo_sys (demo_rt 0 0 CallSlot_init) C_Idle S_Idle 0 [] [] []"
    by (simp add: rpc_init_def demo_sys_def demo_rt_def RpcTopic_init_def kMaxInFlight_def numeral_eq_Suc fun_eq_iff)
  with rpc_reachable.start have "?R (demo_sys (demo_rt 0 0 CallSlot_init) C_Idle S_Idle 0 [] [] [])" by metis
  from rpc_reachable.step [OF this rpc_step.serve, of Advertise_kOk "demo_rt 1 0 CallSlot_init"]
  have "?R (demo_sys (demo_rt 1 0 CallSlot_init) C_Idle S_Idle 0 [] [] [])"
    by (simp add: AddServer_def demo_rt_def RpcTopic_init_def)
  from rpc_reachable.step [OF this rpc_step.call [of _ 0 _ 7]]
  have "?R (demo_sys (demo_rt 1 0 CallSlot_init) (C_Call 7) S_Idle 0 [] [] [])" by simp
  from rpc_reachable.step [OF this rpc_step.enter [of _ 0 7]]
  have "?R (demo_sys (demo_rt 1 0 CallSlot_init) (C_Scan 7 0) S_Idle 0 [] [] [])" by simp
  from rpc_reachable.step [OF this rpc_step.claim [of _ 0 7 0 "demo_rt 1 0 (CallSlot_init\<lparr>state := kClaimed\<rparr>)"]]
  have "?R (demo_sys (demo_rt 1 0 (CallSlot_init\<lparr>state := kClaimed\<rparr>)) (C_Claimed 7 0) S_Idle 0 [] [] [])"
    by (simp add: kMaxInFlight_def CallSlot_init_def)
  from rpc_reachable.step [OF this rpc_step.number [of _ 0 7 0 16]]
  have "?R (demo_sys (demo_rt 1 1 (CallSlot_init\<lparr>state := kClaimed\<rparr>)) (C_Fill 7 0 16) S_Idle 1 [(16, 7)] [] [])" by simp
  from rpc_reachable.step [OF this rpc_step.fill [of _ 0 7 0 16 XmBase_nat "(1, 2, 3)" 100]]
  have "?R (demo_sys (demo_rt 1 1 (demo_slot kClaimed None)) (C_Filled 7 0 16) S_Idle 1 [(16, 7)] [] [])"
    by (simp add: call_fill_def demo_slot_def CallSlot_init_def)
  from rpc_reachable.step [OF this rpc_step.post [of _ 0 7 0 16]]
  show ?thesis by simp
qed

lemma rpc_demo_replied:
  "rpc_reachable XmBase_nat (demo_sys (demo_rt 1 1 (demo_slot kReplied (Some 49))) (C_Wait 7 0 16) S_Idle 1
     [(16, 7)] [(16, Some 7)] [(16, 49)])"
proof -
  let ?R = "rpc_reachable XmBase_nat"
  let ?S = "\<lambda>st v q. demo_sys (demo_rt 1 1 (demo_slot st v)) (C_Wait 7 0 16) q 1 [(16, 7)]"
  from rpc_reachable.step [OF rpc_demo_posted rpc_step.take]
  have "?R (?S kPending None (S_Scan 0) [] [])" by simp
  from rpc_reachable.step [OF this rpc_step.take_ok [of _ 0 "demo_rt 1 1 (demo_slot kTaken None)"]]
  have "?R (?S kTaken None (S_Took 0) [] [])" by simp
  from rpc_reachable.step [OF this rpc_step.took [of _ 0]]
  have "?R (?S kTaken None S_Idle [(16, Some 7)] [])" by (simp add: read_request_def)
  from rpc_reachable.step [OF this rpc_step.reply [of _ 16 XmBase_nat 49]]
  have "?R (?S kTaken None (S_Reply 16 49) [(16, Some 7)] [])" by simp
  from rpc_reachable.step [OF this rpc_step.reply_mine [of _ 16 49 0]]
  have "?R (?S kTaken None (S_Write 16 49) [(16, Some 7)] [])" by simp
  from rpc_reachable.step [OF this rpc_step.reply_write [of _ 16 49]]
  have "?R (?S kTaken (Some 49) (S_Cas 16 49) [(16, Some 7)] [])" by simp
  from rpc_reachable.step [OF this rpc_step.reply_ok [of _ 16 49 "demo_rt 1 1 (demo_slot kReplied (Some 49))"]]
  show ?thesis by simp
qed

lemma rpc_demo_ok:
  "rpc_reachable XmBase_nat (demo_sys (demo_rt 1 1 (demo_slot kFree (Some 49)))
     (C_Done 7 16 \<lparr>res_status = Call_kOk, res_value = Some 49\<rparr>) S_Idle 1 [(16, 7)] [(16, Some 7)] [(16, 49)])"
proof -
  let ?R = "rpc_reachable XmBase_nat"
  from rpc_reachable.step [OF rpc_demo_replied rpc_step.woken [of _ 0 7 0 16]]
  have "?R (demo_sys (demo_rt 1 1 (demo_slot kReplied (Some 49))) (C_Consume 7 0 16) S_Idle 1 [(16, 7)] [(16, Some 7)] [(16, 49)])"
    by simp
  from rpc_reachable.step [OF this rpc_step.consume [of _ 0 7 0 16]]
  have "?R (demo_sys (demo_rt 1 1 (demo_slot kReplied (Some 49))) (C_Free 7 0 16 (Some 49)) S_Idle 1 [(16, 7)] [(16, Some 7)] [(16, 49)])"
    by simp
  from rpc_reachable.step [OF this rpc_step.free [of _ 0 7 0 16 "Some 49"]]
  show ?thesis by (simp add: ReleaseSlot_def)
qed

section \<open>Properties\<close>

text \<open>C2. The answer belongs to the call: when a call returns \<^verbatim>\<open>kOk\<close>, its value is exactly what the server
  passed to the one successful \<^verbatim>\<open>Reply\<close> for this call's token, and the request the server took under
  that token is this call's argument. Late and duplicate replies to other tokens, and slots
  recycled by other calls, never surface here.\<close>

theorem rpc_ok_is_reply:
  assumes "rpc_reachable X s" "cl s c = C_Done req tok res" "res_status res = Call_kOk"
  shows "\<exists>v. res_value res = Some v \<and> (\<forall>w. (tok, w) \<in> set (answered s) \<longleftrightarrow> w = v) \<and>
     (\<forall>r. (tok, r) \<in> set (taken s) \<longrightarrow> r = Some req) \<and> tok \<in> fst ` set (taken s)"
proof -
  have inv: "rpc_inv s" by (rule rpc_reachable_inv [OF assms(1)])
  then have "pc_ok (sent s) (answered s) (rpc_slots (rt s)) (cl s c)" by (simp add: rpc_inv_def)
  then obtain v where v: "res_value res = Some v" "(tok, v) \<in> set (answered s)" "(tok, req) \<in> set (sent s)"
    using assms(2,3) by auto
  have lg: "distinct (map fst (answered s))" "distinct (map fst (sent s))" "list_all (taken_ok (sent s)) (taken s)"
    "fst ` set (answered s) \<subseteq> fst ` set (taken s)"
    using inv by (simp_all add: rpc_inv_def log_ok_def)
  have "w = v" if "(tok, w) \<in> set (answered s)" for w using eq_key_imp_eq_value [OF lg(1) that v(2)] .
  moreover have "r = Some req" if "(tok, r) \<in> set (taken s)" for r
  proof -
    have "taken_ok (sent s) (tok, r)" using lg(3) that by (auto simp: list_all_iff)
    then obtain q where "r = Some q" "(tok, q) \<in> set (sent s)" by (auto simp: taken_ok_def)
    then show ?thesis using eq_key_imp_eq_value [OF lg(2) _ v(3)] by simp
  qed
  moreover have "tok \<in> fst ` set (taken s)" using v(2) lg(4) by force
  ultimately show ?thesis using v by blast
qed

theorem rpc_ok_is_reply_witness:
  "\<exists>s :: (nat, nat) rpc_sys. rpc_reachable XmBase_nat s \<and> (\<exists>v. Some 49 = Some v \<and> (\<forall>w. (16, w) \<in> set (answered s) \<longleftrightarrow> w = v))"
  using rpc_ok_is_reply [OF rpc_demo_ok, of 0 7 16 "\<lparr>res_status = Call_kOk, res_value = Some 49\<rparr>"] rpc_demo_ok
  by (metis demo_simps(2) Result.select_convs)

text \<open>C3. Both sides agree: a finished call that claimed a slot returned \<^verbatim>\<open>kDeadlineExpired\<close> exactly when no
  \<^verbatim>\<open>Reply\<close> for its token ever returned \<^verbatim>\<open>kOk\<close>, and none will as long as the call's result is held.\<close>

theorem rpc_agreement:
  assumes "rpc_reachable X s" "cl s c = C_Done req tok res" "tok \<noteq> 0" "res_status res \<noteq> Call_kNoServer"
  shows "res_status res = Call_kDeadlineExpired \<longleftrightarrow> tok \<notin> fst ` set (answered s)"
proof (cases "res_status res = Call_kDeadlineExpired")
  case True
  then have "gave_up (cl s c) = Some tok" using assms(2,3) by simp
  then show ?thesis using True rpc_reachable_tok [OF assms(1)] by (auto simp: rpc_tok_def dead_def)
next
  case False
  then have ok: "res_status res = Call_kOk" using assms(4) by (cases "res_status res") simp_all
  have "pc_ok (sent s) (answered s) (rpc_slots (rt s)) (cl s c)"
    using rpc_reachable_inv [OF assms(1)] by (simp add: rpc_inv_def)
  then show ?thesis using False ok assms(2) by force
qed

theorem rpc_agreement_witness:
  "\<exists>s :: (nat, nat) rpc_sys. rpc_reachable XmBase_nat s \<and> 16 \<in> fst ` set (answered s)"
proof -
  let ?s = "demo_sys (demo_rt 1 1 (demo_slot kFree (Some 49)))
     (C_Done 7 16 \<lparr>res_status = Call_kOk, res_value = Some 49\<rparr>) S_Idle 1 [(16, 7)] [(16, Some 7)] [(16, 49)]"
  have "16 \<in> fst ` set (answered ?s)"
    using rpc_agreement [OF rpc_demo_ok, of 0 7 16 "\<lparr>res_status = Call_kOk, res_value = Some 49\<rparr>"] by simp
  then show ?thesis using rpc_demo_ok by (intro exI [of _ ?s] conjI)
qed

text \<open>C4. Every call returns. Whatever the other threads do to the topic between its steps: once the bounded waits of the call are
  due (at most \<open>late\<close> after the deadline counted from the call's entry), the call has its result within
  seventeen further steps of its own; it is \<^verbatim>\<open>kNoServer\<close> exactly when no server was there at entry, and
  \<^verbatim>\<open>kDeadlineExpired\<close> only when a wait for that very deadline was over.\<close>

theorem call_returns:
  assumes "\<forall>e \<in> set fs. wait_ends late e \<and> ce_now e0 + dl + late \<le> ce_now e" "17 \<le> length fs"
  shows "\<exists>d tok res. call_under X ctx dl (e0 # es @ fs) (d0, C_Call req) = (d, C_Done req tok res) \<and>
     (res_status res = Call_kNoServer \<longleftrightarrow> publisher_count (ce_topic e0) = 0) \<and>
     (res_status res = Call_kDeadlineExpired \<longrightarrow> (\<exists>e \<in> set (es @ fs). ce_over e (ce_now e0 + dl)))"
proof (cases "publisher_count (ce_topic e0) = 0")
  case True
  have "call_under X ctx dl gs (d0, C_Done req 0 Result_init) = (d0, C_Done req 0 Result_init)" for gs
    by (induction gs) simp_all
  then have "call_under X ctx dl (e0 # es @ fs) (d0, C_Call req) = (d0, C_Done req 0 Result_init)" using True by simp
  moreover have "res_status (Result_init :: 'b Result) = Call_kNoServer" by (simp add: Result_init_def)
  ultimately show ?thesis using True by (metis CallStatus.distinct)
next
  case False
  let ?D = "ce_now e0 + dl"
  obtain d1 pc1 where es: "call_under X ctx dl es (?D, C_Scan req 0) = (d1, pc1)" by fastforce
  have pc1: "d1 = ?D" "in_call req pc1" "past_deadline pc1 \<longrightarrow> (\<exists>e \<in> set es. ce_over e ?D)"
    using call_under_inv [OF _ es, of req] by simp_all
  obtain d2 pc2 where fs: "call_under X ctx dl fs (?D, pc1) = (d2, pc2)" by fastforce
  have "\<forall>e \<in> set fs. ce_over e ?D" using assms(1) by (auto simp: wait_ends_def)
  then have pc2: "in_call req pc2" "past_deadline pc2 \<longrightarrow> past_deadline pc1 \<or> (\<exists>e \<in> set fs. ce_over e ?D)" "call_rank pc2 \<le> call_rank pc1 - 17"
    using call_under_inv [OF pc1(2) fs] assms(2) by auto
  moreover have "call_rank pc1 \<le> 17" using pc1(2) by (cases pc1) auto
  ultimately obtain tok res where "pc2 = C_Done req tok res" "res_status res \<noteq> Call_kNoServer" using in_call_done by fastforce
  then show ?thesis using False es fs pc1 pc2(2) by (auto simp: call_under_append)
qed

text \<open>A topic whose eight slots are all taken: the call scans in vain until its deadline.\<close>

definition crowded :: "(nat, nat) RpcTopic" where
  "crowded = (demo_rt 1 8 (demo_slot kPending None))\<lparr>rpc_slots := replicate 8 (demo_slot kPending None)\<rparr>"

theorem call_returns_witness:
  "\<exists>d tok res. call_under XmBase_nat (1, 2, 3) 100 (replicate 30 \<lparr>ce_now = 5, ce_over = \<lambda>d. d + 20 \<le> 5, ce_topic = crowded\<rparr> @
       replicate 17 \<lparr>ce_now = 130, ce_over = \<lambda>d. d + 20 \<le> 130, ce_topic = crowded\<rparr>) (0, C_Call 7) = (d, C_Done 7 tok res) \<and>
     res_status res \<noteq> Call_kNoServer"
  using call_returns [of "replicate 17 \<lparr>ce_now = 130, ce_over = \<lambda>d. d + 20 \<le> 130, ce_topic = crowded\<rparr>" 20
      "\<lparr>ce_now = 5, ce_over = \<lambda>d. d + 20 \<le> 5, ce_topic = crowded\<rparr>" 100 XmBase_nat "(1, 2, 3)"
      "replicate 29 \<lparr>ce_now = 5, ce_over = \<lambda>d. d + 20 \<le> 5, ce_topic = crowded\<rparr>" 0 7]
  by (auto simp: wait_ends_def crowded_def demo_rt_def numeral_eq_Suc)



text \<open>The uninterrupted operations compose to a round trip: a call posted on a served topic with a free
  slot and no older request is taken with its argument, its caller's trace context and its
  stamp; the reply is accepted; the caller gets the replied value; and the slot is free again.\<close>

lemma rpc_round_trip:
  assumes "xmbase X items capacity" "length (rpc_slots t) = kMaxInFlight" "publisher_count t \<noteq> 0"
    and "\<not> AnyPending t" "\<exists>j<kMaxInFlight. state_at t j = kFree" "unat (next_correlation t) + 1 < 2 ^ 60"
  shows "\<exists>i tok t1 t2 t3 t4. Call_begin X ctx now req t = (Inr (i, tok), t1) \<and>
     TakeRequest X t1 = (\<lparr>req_value = Some req, req_context = ctx, req_stamp = now, req_correlation = tok,
       req_freshness = kFresh\<rparr>, t2) \<and>
     Reply tok rsp t2 = (Reply_kOk, t3) \<and>
     Call_finish True i t3 = (\<lparr>res_status = Call_kOk, res_value = Some rsp\<rparr>, t4) \<and>
     state_at t4 i = kFree \<and> (\<forall>j. j \<noteq> i \<longrightarrow> rpc_slots t4 ! j = rpc_slots t ! j)"
proof -
  obtain i where sc: "scan kMaxInFlight (\<lambda>j. state_at t j = kFree) = Some i"
    using scan_total [OF assms(5)] by blast
  then have i: "i < kMaxInFlight" "state_at t i = kFree" by (auto dest: scan_SomeD)
  define tok where "tok = make_token (next_correlation t) i"
  have tok: "tok \<noteq> 0" "token_index tok = i"
    using i(1) assms(6) token_nonzero token_index_make by (simp_all add: tok_def kMaxInFlight_def)
  let ?x = "(rpc_slots t ! i)\<lparr>correlation := tok, slot_envelope := make_envelope X ctx now None,
    request := Some req, state := kPending\<rparr>"
  obtain t1 where t1: "Call_begin X ctx now req t = (Inr (i, tok), t1)" "rpc_slots t1 = (rpc_slots t)[i := ?x]"
    using assms(2,3) sc i(1)
    by (simp add: Call_begin_def TryClaim_def Let_def call_fill_def upd_slot_def tok_def)
  have "state s \<noteq> kPending" if "s \<in> set (rpc_slots t)" for s using assms(4) that by (auto simp: AnyPending_def list_ex_iff)
  then have pend: "scan (length (rpc_slots t1)) (\<lambda>j. state_at t1 j = kPending) = Some i"
    using i(1) assms(2) by (auto simp: scan_Some_iff t1(2) state_at_def nth_list_update_if)
  have ctx: "ctx_extract X (take kEnvelopeContextSize (ctx_inject X ctx)) = ctx"
    using xmbase.extract_inject [OF assms(1)] xmbase.length_inject [OF assms(1)] by simp
  obtain t2 where t2: "TakeRequest X t1 = (\<lparr>req_value = Some req, req_context = ctx, req_stamp = now, req_correlation = tok,
       req_freshness = kFresh\<rparr>, t2)" "rpc_slots t2 = (rpc_slots t)[i := ?x\<lparr>state := kTaken\<rparr>]"
    using pend i(1) assms(2) ctx by (simp add: TakeRequest_def read_request_def t1(2) make_envelope_def)
  obtain t3 where t3: "Reply tok rsp t2 = (Reply_kOk, t3)"
    "rpc_slots t3 = (rpc_slots t)[i := ?x\<lparr>response := Some rsp, state := kReplied\<rparr>]"
    using i(1) assms(2) tok by (simp add: Reply_def Let_def state_at_def t2(2) upd_slot_def)
  obtain t4 where t4: "Call_finish True i t3 = (\<lparr>res_status = Call_kOk, res_value = Some rsp\<rparr>, t4)"
    "rpc_slots t4 = (rpc_slots t)[i := ?x\<lparr>response := Some rsp, state := kFree\<rparr>]"
    using i(1) assms(2) by (simp add: Call_finish_def Let_def Call_consume_def ReleaseSlot_def t3(2))
  have "state_at t4 i = kFree" "\<forall>j. j \<noteq> i \<longrightarrow> rpc_slots t4 ! j = rpc_slots t ! j"
    using i(1) assms(2) by (simp_all add: state_at_def t4(2))
  with t1(1) t2(1) t3(1) t4(1) show ?thesis by blast
qed

lemma rpc_round_trip_example:
  "\<exists>i tok t1 t2 t3 t4. Call_begin XmBase_nat (1, 2, 3) 100 7 (demo_rt 1 0 CallSlot_init) = (Inr (i, tok), t1) \<and>
     TakeRequest XmBase_nat t1 = (\<lparr>req_value = Some 7, req_context = (1, 2, 3), req_stamp = 100, req_correlation = tok,
       req_freshness = kFresh\<rparr>, t2) \<and> Reply tok 49 t2 = (Reply_kOk, t3) \<and>
     Call_finish True i t3 = (\<lparr>res_status = Call_kOk, res_value = Some 49\<rparr>, t4)"
proof -
  have "\<not> AnyPending (demo_rt 1 0 CallSlot_init)"
    by (simp add: AnyPending_def demo_rt_def CallSlot_init_def numeral_eq_Suc)
  moreover have "state_at (demo_rt 1 0 CallSlot_init) 0 = kFree" by (simp add: CallSlot_init_def)
  then have "\<exists>j<kMaxInFlight. state_at (demo_rt 1 0 CallSlot_init) j = kFree"
    by (intro exI [of _ 0]) (simp add: kMaxInFlight_def)
  ultimately show ?thesis
    using rpc_round_trip [OF ref.xmbase_axioms, of "demo_rt 1 0 CallSlot_init" "(1, 2, 3)" 100 7 49]
    by (simp add: kMaxInFlight_def) blast
qed

end
