(* ===== verification/Text_Format.thy ===== *)
theory Text_Format
  imports Xm_Prelude
begin

text \<open>
  Text the sources render and parse: \<^verbatim>\<open>std::to_string\<close> and the hexadecimal forms of \<^verbatim>\<open>snprintf\<close>, with
  the facts the components share: decimal and hexadecimal rendering is injective and uses only
  digits, and a separator that occurs in no field splits a concatenation in one way.
\<close>

section \<open>Digits\<close>

definition digit :: "nat \<Rightarrow> char" where
  "digit d = ''0123456789abcdef'' ! d"

fun render :: "nat \<Rightarrow> nat \<Rightarrow> string" where
  "render b n = (if b < 2 \<or> n < b then [digit n] else render b (n div b) @ [digit (n mod b)])"

declare render.simps [simp del]

abbreviation decimal :: "nat \<Rightarrow> string" where
  "decimal \<equiv> render 10"

text \<open>\<^verbatim>\<open>%0*x\<close>: hexadecimal, zero-padded on the left to the width.\<close>

definition hex_pad :: "nat \<Rightarrow> nat \<Rightarrow> string" where
  "hex_pad w n = (let h = render 16 n in replicate (w - length h) CHR ''0'' @ h)"

lemma less_16_cases: "(n :: nat) < 16 \<Longrightarrow> n \<in> {0, 1, 2, 3, 4, 5, 6, 7, 8, 9, 10, 11, 12, 13, 14, 15}"
  unfolding insert_iff empty_iff by presburger

lemma digit_simps:
  "digit 0 = CHR ''0''" "digit 1 = CHR ''1''" "digit 2 = CHR ''2''" "digit 3 = CHR ''3''" "digit 4 = CHR ''4''"
  "digit 5 = CHR ''5''" "digit 6 = CHR ''6''" "digit 7 = CHR ''7''" "digit 8 = CHR ''8''" "digit 9 = CHR ''9''"
  "digit 10 = CHR ''a''" "digit 11 = CHR ''b''" "digit 12 = CHR ''c''" "digit 13 = CHR ''d''" "digit 14 = CHR ''e''"
  "digit 15 = CHR ''f''" "digit (Suc 0) = CHR ''1''"
  by (simp_all add: digit_def)

lemma digit_inj: "a < 16 \<Longrightarrow> b < 16 \<Longrightarrow> digit a = digit b \<longleftrightarrow> a = b"
  unfolding digit_def by (rule nth_eq_iff_index_eq) simp_all

lemma digit_mem: "d < 16 \<Longrightarrow> digit d \<in> set ''0123456789abcdef''"
  unfolding digit_def by (rule nth_mem) simp

lemma render_ne [simp]: "render b n \<noteq> []"
  by (subst render.simps) simp

lemma render_inj:
  assumes "2 \<le> b" "b \<le> 16" "render b m = render b n"
  shows "m = n"
  using assms(3)
proof (induction m arbitrary: n rule: less_induct)
  case (less m)
  have small: "render b k = [digit k] \<longleftrightarrow> k < b" "k < b \<Longrightarrow> k < 16" for k
    using assms(1,2) by (auto simp: render.simps [of b k])
  show ?case
  proof (cases "m < b")
    case True
    then have "render b m = [digit m]" using small by blast
    then have "render b n = [digit m]" using less.prems by simp
    moreover from this have "n < b"
      using assms(1) by (cases "n < b") (auto simp: render.simps [of b n])
    ultimately have "digit m = digit n" "m < 16" "n < 16" using small True by (metis list.inject)+
    then show ?thesis using digit_inj by blast
  next
    case False
    then have m: "render b m = render b (m div b) @ [digit (m mod b)]" using assms(1) by (simp add: render.simps [of b m])
    have "\<not> n < b"
    proof
      assume "n < b"
      then have "render b n = [digit n]" using small by simp
      with m less.prems have "render b (m div b) @ [digit (m mod b)] = [] @ [digit n]" by simp
      then show False by (simp del: append_Nil)
    qed
    then have n: "render b n = render b (n div b) @ [digit (n mod b)]" using assms(1) by (simp add: render.simps [of b n])
    have eqs: "render b (m div b) = render b (n div b)" "digit (m mod b) = digit (n mod b)"
      using less.prems m n by simp_all
    have "m div b < m" using False assms(1) by (simp add: div_less_dividend)
    then have "m div b = n div b" using less.IH eqs(1) by blast
    moreover have "m mod b < 16" "n mod b < 16"
      using mod_less_divisor [of b m] mod_less_divisor [of b n] assms(1,2) by linarith+
    then have "m mod b = n mod b" using eqs(2) digit_inj by simp
    ultimately show ?thesis by (metis div_mult_mod_eq)
  qed
qed

lemma render_digits: "2 \<le> b \<Longrightarrow> b \<le> 16 \<Longrightarrow> set (render b n) \<subseteq> set ''0123456789abcdef''"
proof (induction n rule: less_induct)
  case (less n)
  show ?case
  proof (cases "n < b")
    case True
    then show ?thesis using less.prems digit_mem [of n] by (simp add: render.simps [of b n])
  next
    case False
    have "n mod b < 16" using mod_less_divisor [of b n] less.prems by linarith
    then have "digit (n mod b) \<in> set ''0123456789abcdef''" by (rule digit_mem)
    moreover have "n div b < n" using False less.prems by (simp add: div_less_dividend)
    ultimately show ?thesis using less.IH [of "n div b"] less.prems False by (simp add: render.simps [of b n])
  qed
qed

lemma decimal_no_sep: "c \<notin> set ''0123456789abcdef'' \<Longrightarrow> c \<notin> set (decimal n)"
  by (rule contra_subsetD [OF render_digits]) simp_all

section \<open>Separators\<close>

lemma split_unique:
  assumes "a @ c # x = b @ c # y" "c \<notin> set a" "c \<notin> set b"
  shows "a = b \<and> x = y"
  using assms
proof (induction a arbitrary: b)
  case Nil
  then show ?case by (cases b) auto
next
  case (Cons u a)
  then show ?case by (cases b) auto
qed

end
