(* ===== verification/Schema_Hash.thy ===== *)
theory Schema_Hash
  imports Text_Format
begin

text \<open>
  \<^verbatim>\<open>include/xmmsg/detail/schema_hash.hpp\<close>: the canonical type description of a payload, its
  completeness check and the FNV-1a hash over it, by which the endpoints of a topic recognise each
  other's type. A C++ payload type is a value of \<open>ctype\<close>; the template recursion of the source is
  recursion over it.
\<close>

section \<open>FNV-1a\<close>

definition kFnv1aOffsetBasis :: u64 where
  "kFnv1aOffsetBasis = 0xCBF29CE484222325"

definition kFnv1aPrime :: u64 where
  "kFnv1aPrime = 0x100000001B3"

definition fnv_step :: "char \<Rightarrow> u64 \<Rightarrow> u64" where
  "fnv_step c hash = (hash XOR of_nat (of_char c)) * kFnv1aPrime"

definition Fnv1a64 :: "string \<Rightarrow> u64 \<Rightarrow> u64" where
  "Fnv1a64 bytes hash = fold fnv_step bytes hash"

section \<open>Payload types\<close>

datatype scalar = uint8_t | uint16_t | uint32_t | uint64_t | int8_t | int16_t | int32_t | int64_t
  | float | double | bool_t | enum_of scalar

text \<open>A type is a scalar, an array \<^verbatim>\<open>E[N]\<close> or a described struct with its \<^verbatim>\<open>sizeof\<close> and, per
  \<^verbatim>\<open>XMMSG_FIELD\<close> of its \<^verbatim>\<open>XMMSG_DESCRIBE\<close>, the field's name, \<^verbatim>\<open>offsetof\<close> and type. Other types are
  rejected at compile time and have no value here.\<close>

datatype ctype = Scalar scalar | Array ctype nat | Struct nat "(string \<times> nat \<times> ctype) list"

fun ScalarToken :: "scalar \<Rightarrow> string" where
  "ScalarToken uint8_t = ''u8''"
| "ScalarToken uint16_t = ''u16''"
| "ScalarToken uint32_t = ''u32''"
| "ScalarToken uint64_t = ''u64''"
| "ScalarToken int8_t = ''i8''"
| "ScalarToken int16_t = ''i16''"
| "ScalarToken int32_t = ''i32''"
| "ScalarToken int64_t = ''i64''"
| "ScalarToken float = ''f32''"
| "ScalarToken double = ''f64''"
| "ScalarToken bool_t = ''u8''"
| "ScalarToken (enum_of s) = ScalarToken s"

fun scalar_size :: "scalar \<Rightarrow> nat" where
  "scalar_size s = (case s of uint8_t \<Rightarrow> 1 | uint16_t \<Rightarrow> 2 | uint32_t \<Rightarrow> 4 | uint64_t \<Rightarrow> 8
     | int8_t \<Rightarrow> 1 | int16_t \<Rightarrow> 2 | int32_t \<Rightarrow> 4 | int64_t \<Rightarrow> 8 | float \<Rightarrow> 4 | double \<Rightarrow> 8 | bool_t \<Rightarrow> 1
     | enum_of u \<Rightarrow> scalar_size u)"

fun sizeof :: "ctype \<Rightarrow> nat" where
  "sizeof (Scalar s) = scalar_size s"
| "sizeof (Array t n) = n * sizeof t"
| "sizeof (Struct sz _) = sz"

fun Base :: "ctype \<Rightarrow> ctype" where
  "Base (Array t _) = Base t"
| "Base t = t"

fun AppendDims :: "ctype \<Rightarrow> string" where
  "AppendDims (Array t n) = ''['' @ decimal n @ '']'' @ AppendDims t"
| "AppendDims _ = []"

fun IsWireDescribed :: "ctype \<Rightarrow> bool" where
  "IsWireDescribed (Struct _ _) = True"
| "IsWireDescribed _ = False"

fun base_token :: "ctype \<Rightarrow> string" where
  "base_token (Scalar s) = ScalarToken s"
| "base_token _ = []"

section \<open>The canonical description\<close>

record SchemaContext =
  ctx_text :: string
  extents :: "(nat \<times> nat) list"

definition newline :: char where
  "newline = CHR 10"

definition AppendLeafLine :: "ctype \<Rightarrow> SchemaContext \<Rightarrow> string \<Rightarrow> nat \<Rightarrow> SchemaContext" where
  "AppendLeafLine t ctx name offset = \<lparr>
     ctx_text = ctx_text ctx @ name @ '':'' @ base_token (Base t) @ AppendDims t @ '':'' @ decimal offset @ '':'' @
       decimal (sizeof t) @ [newline],
     extents = extents ctx @ [(offset, sizeof t)]\<rparr>"

fun DescribeField :: "ctype \<Rightarrow> string \<Rightarrow> string \<Rightarrow> nat \<Rightarrow> SchemaContext \<Rightarrow> SchemaContext" where
  "DescribeField (Scalar s) prefix name offset ctx = AppendLeafLine (Scalar s) ctx (prefix @ name) offset"
| "DescribeField (Array t n) prefix name offset ctx =
    (if IsWireDescribed (Base t)
     then fold (\<lambda>i. DescribeField t prefix (name @ ''['' @ decimal i @ '']'') (offset + i * sizeof t)) [0..<n] ctx
     else AppendLeafLine (Array t n) ctx (prefix @ name) offset)"
| "DescribeField (Struct sz fs) prefix name offset ctx =
    fold (\<lambda>(field, at, t). DescribeField t (prefix @ name @ ''.'') field (offset + at)) fs ctx"

text \<open>\<^verbatim>\<open>WireSchema<T>::AppendFields\<close>, the body \<^verbatim>\<open>XMMSG_DESCRIBE\<close> expands to.\<close>

definition AppendFields :: "(string \<times> nat \<times> ctype) list \<Rightarrow> string \<Rightarrow> nat \<Rightarrow> SchemaContext \<Rightarrow> SchemaContext" where
  "AppendFields fs prefix base ctx = fold (\<lambda>(field, at, t). DescribeField t prefix field (base + at)) fs ctx"

fun tile_from :: "nat \<Rightarrow> (nat \<times> nat) list \<Rightarrow> nat \<Rightarrow> bool" where
  "tile_from at [] bytes \<longleftrightarrow> at = bytes"
| "tile_from at ((offset, extent) # es) bytes \<longleftrightarrow> offset = at \<and> tile_from (offset + extent) es bytes"

definition ExtentsTile :: "SchemaContext \<Rightarrow> nat \<Rightarrow> bool" where
  "ExtentsTile ctx bytes = tile_from 0 (extents ctx) bytes"

definition canonical_ctx :: "nat \<Rightarrow> (string \<times> nat \<times> ctype) list \<Rightarrow> SchemaContext" where
  "canonical_ctx sz fs = AppendFields fs [] 0 \<lparr>ctx_text = ''size:'' @ decimal sz @ [newline], extents = []\<rparr>"

text \<open>The assertion of \<^verbatim>\<open>CanonicalDescription\<close>, evaluated by debug builds only: the described fields tile the payload.\<close>

definition tiling_assert :: "nat \<Rightarrow> (string \<times> nat \<times> ctype) list \<Rightarrow> bool" where
  "tiling_assert sz fs = ExtentsTile (canonical_ctx sz fs) sz"

text \<open>The release build returns the text whatever the assertion would have said.\<close>

definition CanonicalDescription :: "nat \<Rightarrow> (string \<times> nat \<times> ctype) list \<Rightarrow> string" where
  "CanonicalDescription sz fs = ctx_text (canonical_ctx sz fs)"

text \<open>A payload type as \<^verbatim>\<open>SchemaHashOf\<close> sees it: described, or any other with the compiler's
  \<^verbatim>\<open>typeid(T).name()\<close>, \<^verbatim>\<open>sizeof\<close> and \<^verbatim>\<open>alignof\<close>.\<close>

datatype payload = Described nat "(string \<times> nat \<times> ctype) list" | Undescribed string nat nat

fun schema_text :: "payload \<Rightarrow> string" where
  "schema_text (Described sz fs) = CanonicalDescription sz fs"
| "schema_text (Undescribed name sz al) =
    ''xmmsg-interim-schema:'' @ name @ '':'' @ decimal sz @ '':'' @ decimal al"

definition SchemaHashOf :: "payload \<Rightarrow> u64" where
  "SchemaHashOf p = Fnv1a64 (schema_text p) kFnv1aOffsetBasis"

definition RpcSchemaHash :: "payload \<Rightarrow> payload \<Rightarrow> u64" where
  "RpcSchemaHash req rsp = (SchemaHashOf req * kFnv1aPrime) XOR SchemaHashOf rsp"

section \<open>FNV-1a is a bijection of the hash for every byte string\<close>

text \<open>The prime is odd, so multiplication by it is invertible modulo \<open>2 ^ 64\<close>.\<close>

lemma fnv_prime_inverse: "kFnv1aPrime * 0xCE965057AFF6957B = 1"
  by (simp add: kFnv1aPrime_def)

lemma fnv_mult_inj: "a * kFnv1aPrime = b * kFnv1aPrime \<longleftrightarrow> a = b"
proof
  assume "a * kFnv1aPrime = b * kFnv1aPrime"
  then have "a * kFnv1aPrime * 0xCE965057AFF6957B = b * kFnv1aPrime * 0xCE965057AFF6957B" by simp
  then show "a = b" by (simp add: mult.assoc fnv_prime_inverse)
qed simp

lemma xor_left_cancel: "(a :: u64) XOR b = a XOR c \<longleftrightarrow> b = c"
proof
  assume "a XOR b = a XOR c"
  then have "a XOR (a XOR b) = a XOR (a XOR c)" by (rule arg_cong)
  then show "b = c" by (simp only: xor.assoc [symmetric] xor_self_eq xor.left_neutral)
qed simp

lemma xor_right_cancel: "(b :: u64) XOR a = c XOR a \<longleftrightarrow> b = c"
  using xor_left_cancel [of a b c] by (simp add: xor.commute)

lemma char_word_inj: "(of_nat (of_char c) :: u64) = of_nat (of_char d) \<longleftrightarrow> c = d"
proof
  assume "(of_nat (of_char c) :: u64) = of_nat (of_char d)"
  moreover have "of_char c < (2 ^ 64 :: nat)" "of_char d < (2 ^ 64 :: nat)"
    by (rule less_trans [OF nat_of_char_less_256], simp)+
  ultimately show "c = d" by (simp add: word_of_nat_eq_iff take_bit_nat_eq_self)
qed simp

lemma fnv_step_inj_hash: "fnv_step c a = fnv_step c b \<longleftrightarrow> a = b"
  by (simp add: fnv_step_def fnv_mult_inj xor_right_cancel)

lemma fnv_step_inj_char: "fnv_step c a = fnv_step d a \<longleftrightarrow> c = d"
  by (simp add: fnv_step_def fnv_mult_inj xor_left_cancel char_word_inj)

lemma Fnv1a64_append: "Fnv1a64 (xs @ ys) h = Fnv1a64 ys (Fnv1a64 xs h)"
  by (simp add: Fnv1a64_def)

lemma Fnv1a64_inj_hash: "Fnv1a64 bytes a = Fnv1a64 bytes b \<longleftrightarrow> a = b"
  unfolding Fnv1a64_def by (induction bytes arbitrary: a b) (auto simp: fnv_step_inj_hash)


section \<open>The leaves of a type\<close>

text \<open>Reference view of the template recursion: the leaf fields in declaration order, each with its
  dotted path, its type and its absolute offset.\<close>

fun leaves :: "ctype \<Rightarrow> string \<Rightarrow> nat \<Rightarrow> (string \<times> ctype \<times> nat) list" where
  "leaves (Scalar s) path offset = [(path, Scalar s, offset)]"
| "leaves (Array t n) path offset =
    (if IsWireDescribed (Base t)
     then concat (map (\<lambda>i. leaves t (path @ ''['' @ decimal i @ '']'') (offset + i * sizeof t)) [0..<n])
     else [(path, Array t n, offset)])"
| "leaves (Struct sz fs) path offset = concat (map (\<lambda>(field, at, t). leaves t (path @ ''.'' @ field) (offset + at)) fs)"

definition field_leaves :: "(string \<times> nat \<times> ctype) list \<Rightarrow> (string \<times> ctype \<times> nat) list" where
  "field_leaves fs = concat (map (\<lambda>(field, at, t). leaves t field at) fs)"

fun leaf_line :: "string \<times> ctype \<times> nat \<Rightarrow> string" where
  "leaf_line (path, t, offset) =
    path @ '':'' @ base_token (Base t) @ AppendDims t @ '':'' @ decimal offset @ '':'' @ decimal (sizeof t) @ [newline]"

fun leaf_extent :: "string \<times> ctype \<times> nat \<Rightarrow> nat \<times> nat" where
  "leaf_extent (path, t, offset) = (offset, sizeof t)"

definition add_leaves :: "(string \<times> ctype \<times> nat) list \<Rightarrow> SchemaContext \<Rightarrow> SchemaContext" where
  "add_leaves ls ctx = \<lparr>ctx_text = ctx_text ctx @ concat (map leaf_line ls), extents = extents ctx @ map leaf_extent ls\<rparr>"

lemma add_leaves_simps [simp]:
  "add_leaves [] ctx = ctx" "add_leaves ms (add_leaves ls ctx) = add_leaves (ls @ ms) ctx"
  "ctx_text (add_leaves ls ctx) = ctx_text ctx @ concat (map leaf_line ls)"
  "extents (add_leaves ls ctx) = extents ctx @ map leaf_extent ls"
  by (simp_all add: add_leaves_def)

lemma AppendLeafLine_leaf: "AppendLeafLine t ctx path offset = add_leaves [(path, t, offset)] ctx"
  by (simp add: AppendLeafLine_def add_leaves_def)

lemma fold_add_leaves: "(\<And>x ctx. x \<in> set xs \<Longrightarrow> f x ctx = add_leaves (g x) ctx) \<Longrightarrow>
    fold f xs ctx = add_leaves (concat (map g xs)) ctx"
  by (induction xs arbitrary: ctx) auto

text \<open>The recursion over the type appends exactly the lines and extents of its leaves.\<close>

lemma DescribeField_leaves:
  "DescribeField t prefix name offset ctx = add_leaves (leaves t (prefix @ name) offset) ctx"
proof (induction t prefix name offset ctx rule: DescribeField.induct)
  case (2 t n prefix name offset ctx)
  show ?case
  proof (cases "IsWireDescribed (Base t)")
    case True
    have "fold (\<lambda>i. DescribeField t prefix (name @ ''['' @ decimal i @ '']'') (offset + i * sizeof t)) [0..<n] ctx =
        add_leaves (concat (map (\<lambda>i. leaves t ((prefix @ name) @ ''['' @ decimal i @ '']'') (offset + i * sizeof t)) [0..<n])) ctx"
      by (rule fold_add_leaves) (use 2 True in auto)
    then show ?thesis using True by simp
  qed (simp add: AppendLeafLine_leaf)
next
  case (3 sz fs prefix name offset ctx)
  have "fold (\<lambda>(field, at, t). DescribeField t (prefix @ name @ ''.'') field (offset + at)) fs ctx =
      add_leaves (concat (map (\<lambda>(field, at, t). leaves t ((prefix @ name) @ ''.'' @ field) (offset + at)) fs)) ctx"
    by (rule fold_add_leaves) (use 3 in auto)
  then show ?case by simp
qed (simp add: AppendLeafLine_leaf)

lemma AppendFields_leaves: "AppendFields fs [] 0 ctx = add_leaves (field_leaves fs) ctx"
  unfolding AppendFields_def field_leaves_def
  by (rule fold_add_leaves) (auto simp: DescribeField_leaves)

lemma canonical_ctx_simps:
  "ctx_text (canonical_ctx sz fs) = ''size:'' @ decimal sz @ [newline] @ concat (map leaf_line (field_leaves fs))"
  "extents (canonical_ctx sz fs) = map leaf_extent (field_leaves fs)"
  by (simp_all add: canonical_ctx_def AppendFields_leaves)

end
