(* ===== verification/Schema_Properties.thy ===== *)
theory Schema_Properties
  imports Schema_Hash
begin

text \<open>
  What the schema hash promises: the canonical text determines the payload's wire layout, the
  tiling assertion holds exactly of the layouts without padding, and a one-byte change of the text
  always changes the hash. The published conformance vectors are evaluated as a test of the model.
\<close>

section \<open>The text determines the layout\<close>

text \<open>A C++ identifier, as \<^verbatim>\<open>XMMSG_FIELD\<close> stringises it.\<close>

definition ident_char :: "char \<Rightarrow> bool" where
  "ident_char c \<longleftrightarrow> List.member ''abcdefghijklmnopqrstuvwxyzABCDEFGHIJKLMNOPQRSTUVWXYZ0123456789_'' c"

definition ident :: "string \<Rightarrow> bool" where
  "ident s \<longleftrightarrow> s \<noteq> [] \<and> list_all ident_char s"

fun named :: "ctype \<Rightarrow> bool" where
  "named (Scalar _) = True"
| "named (Array t _) = named t"
| "named (Struct _ fs) = list_all (\<lambda>(field, _, t). ident field \<and> named t) fs"

fun dims :: "ctype \<Rightarrow> nat list" where
  "dims (Array t n) = n # dims t"
| "dims _ = []"

text \<open>What the wire contract compares of a leaf: path, scalar token, dimensions, offset, size.\<close>

fun wire_leaf :: "string \<times> ctype \<times> nat \<Rightarrow> string \<times> string \<times> nat list \<times> nat \<times> nat" where
  "wire_leaf (path, t, offset) = (path, base_token (Base t), dims t, offset, sizeof t)"

text \<open>No separator of a leaf line occurs in a path.\<close>

definition path_ok :: "string \<Rightarrow> bool" where
  "path_ok p \<longleftrightarrow> CHR '':'' \<notin> set p \<and> newline \<notin> set p"

lemma ident_path_ok: "ident s \<Longrightarrow> path_ok s"
proof -
  assume "ident s"
  then have "\<And>c. \<not> ident_char c \<Longrightarrow> c \<notin> set s" by (auto simp: ident_def list_all_iff)
  moreover have "\<not> ident_char (CHR '':'')" "\<not> ident_char newline" by (simp_all add: ident_char_def newline_def)
  ultimately show ?thesis by (simp add: path_ok_def)
qed

lemma decimal_seps: "CHR '':'' \<notin> set (decimal n)" "newline \<notin> set (decimal n)" "CHR '']'' \<notin> set (decimal n)"
  by (rule decimal_no_sep; simp add: newline_def)+

lemma path_ok_simps:
  "path_ok (p @ q) \<longleftrightarrow> path_ok p \<and> path_ok q" "path_ok (CHR ''['' # p) \<longleftrightarrow> path_ok p"
  "path_ok (CHR '']'' # p) \<longleftrightarrow> path_ok p" "path_ok (CHR ''.'' # p) \<longleftrightarrow> path_ok p" "path_ok []" "path_ok (decimal n)"
  by (auto simp: path_ok_def decimal_seps) (auto simp: newline_def)

lemma AppendDims_chars: "CHR '':'' \<notin> set (AppendDims t) \<and> newline \<notin> set (AppendDims t)"
  by (induction t rule: AppendDims.induct) (simp_all add: decimal_seps, simp_all add: newline_def)

lemma ScalarToken_chars: "CHR '':'' \<notin> set (ScalarToken s) \<and> newline \<notin> set (ScalarToken s) \<and> CHR ''['' \<notin> set (ScalarToken s)"
  by (induction s) (simp_all add: newline_def)

lemma base_token_chars: "CHR '':'' \<notin> set (base_token t) \<and> newline \<notin> set (base_token t) \<and> CHR ''['' \<notin> set (base_token t)"
  by (cases t) (use ScalarToken_chars in auto)

lemma AppendDims_cases: "AppendDims t = [] \<or> (\<exists>r. AppendDims t = CHR ''['' # r)"
  by (cases t) auto

lemma AppendDims_inj: "AppendDims t = AppendDims u \<Longrightarrow> dims t = dims u"
proof (induction t arbitrary: u)
  case (Array t n)
  then obtain v m where u: "u = Array v m" by (cases u) auto
  have "decimal n @ CHR '']'' # AppendDims t = decimal m @ CHR '']'' # AppendDims v" using Array.prems u by simp
  from split_unique [OF this] have "decimal n = decimal m" "AppendDims t = AppendDims v" by (simp_all add: decimal_seps)
  then show ?case using Array.IH u by (auto dest: render_inj [rotated 2])
next
  case (Scalar s)
  then show ?case by (cases u) auto
next
  case (Struct sz fs)
  then show ?case by (cases u) auto
qed

lemma token_dims_inj:
  assumes "a @ AppendDims t = b @ AppendDims u" "CHR ''['' \<notin> set a" "CHR ''['' \<notin> set b"
  shows "a = b \<and> dims t = dims u"
proof -
  have "takeWhile (\<lambda>c. c \<noteq> CHR ''['') (x @ AppendDims v) = x" if "CHR ''['' \<notin> set x" for x v
  proof -
    have "c \<noteq> CHR ''[''" if "c \<in> set x" for c using that \<open>CHR ''['' \<notin> set x\<close> by blast
    then have "takeWhile (\<lambda>c. c \<noteq> CHR ''['') (x @ AppendDims v) = x @ takeWhile (\<lambda>c. c \<noteq> CHR ''['') (AppendDims v)"
      by (rule takeWhile_append2)
    then show ?thesis by (cases v) simp_all
  qed
  from this [OF assms(2), of t] this [OF assms(3), of u] have "a = b" using assms(1) by simp
  moreover have "AppendDims t = AppendDims u" using assms(1) calculation by simp
  then have "dims t = dims u" by (rule AppendDims_inj)
  ultimately show ?thesis ..
qed

definition leaf_named :: "string \<times> ctype \<times> nat \<Rightarrow> bool" where
  "leaf_named l \<longleftrightarrow> path_ok (fst l)"

lemma leaf_line_inj:
  assumes "leaf_line l @ xs = leaf_line m @ ys" "leaf_named l" "leaf_named m"
  shows "wire_leaf l = wire_leaf m \<and> xs = ys"
proof -
  obtain p t i q u j where lm: "l = (p, t, i)" "m = (q, u, j)" by (metis prod_cases3)
  have n: "CHR '':'' \<notin> set p" "CHR '':'' \<notin> set q" using assms(2,3) lm by (simp_all add: leaf_named_def path_ok_def)
  have s0: "p @ CHR '':'' # (base_token (Base t) @ AppendDims t) @ CHR '':'' # decimal i @ CHR '':'' # decimal (sizeof t) @ newline # xs =
      q @ CHR '':'' # (base_token (Base u) @ AppendDims u) @ CHR '':'' # decimal j @ CHR '':'' # decimal (sizeof u) @ newline # ys"
    using assms(1) lm by simp
  note s1 = split_unique [OF s0 n]
  note s2 = split_unique [OF s1 [THEN conjunct2]]
  have s2': "base_token (Base t) @ AppendDims t = base_token (Base u) @ AppendDims u \<and>
      decimal i @ CHR '':'' # decimal (sizeof t) @ newline # xs = decimal j @ CHR '':'' # decimal (sizeof u) @ newline # ys"
    by (rule s2) (use AppendDims_chars base_token_chars in auto)
  have s3: "decimal i = decimal j \<and> decimal (sizeof t) @ newline # xs = decimal (sizeof u) @ newline # ys"
    by (rule split_unique [OF s2' [THEN conjunct2]]) (simp_all add: decimal_seps)
  have s4: "decimal (sizeof t) = decimal (sizeof u) \<and> xs = ys"
    by (rule split_unique [OF s3 [THEN conjunct2]]) (simp_all add: decimal_seps)
  have "base_token (Base t) = base_token (Base u) \<and> dims t = dims u"
    by (rule token_dims_inj [OF s2' [THEN conjunct1]]) (use base_token_chars in auto)
  then show ?thesis using s1 s3 s4 lm by (auto dest: render_inj [rotated 2])
qed

lemma leaf_line_ne [simp]: "leaf_line l \<noteq> []"
  by (cases l) simp

lemma leaf_lines_inj:
  "concat (map leaf_line ls) = concat (map leaf_line ms) \<Longrightarrow> list_all leaf_named ls \<Longrightarrow> list_all leaf_named ms \<Longrightarrow>
   map wire_leaf ls = map wire_leaf ms"
proof (induction ls arbitrary: ms)
  case Nil
  then show ?case by (cases ms) auto
next
  case (Cons l ls)
  then obtain m ms' where ms: "ms = m # ms'" by (cases ms) auto
  have "wire_leaf l = wire_leaf m \<and> concat (map leaf_line ls) = concat (map leaf_line ms')"
    by (rule leaf_line_inj) (use Cons ms in auto)
  then show ?case using Cons ms by simp
qed

lemma list_all_concat: "list_all P (concat xss) \<longleftrightarrow> list_all (list_all P) xss"
  by (induction xss) auto

lemma leaves_named: "named t \<Longrightarrow> path_ok path \<Longrightarrow> list_all leaf_named (leaves t path offset)"
proof (induction t path offset rule: leaves.induct)
  case (2 t n path offset)
  then show ?case by (auto simp: list_all_concat list_all_iff [of "list_all leaf_named"] path_ok_simps) (simp add: leaf_named_def)
next
  case (3 sz fs path offset)
  have "list_all leaf_named (leaves t (path @ ''.'' @ field) (offset + at))" if "(field, at, t) \<in> set fs" for field at t
  proof (rule "3.IH" [OF that refl refl])
    show "named t" "path_ok (path @ ''.'' @ field)"
      using that "3.prems" ident_path_ok by (auto simp: list_all_iff path_ok_simps)
  qed
  then show ?case by (simp add: list_all_concat list_all_iff [of "list_all leaf_named"]) auto
qed (simp add: leaf_named_def)

lemma field_leaves_named: "named (Struct sz fs) \<Longrightarrow> list_all leaf_named (field_leaves fs)"
proof -
  assume "named (Struct sz fs)"
  then have "list_all leaf_named (leaves t field at)" if "(field, at, t) \<in> set fs" for field at t
    using that ident_path_ok leaves_named by (auto simp: list_all_iff [of _ fs])
  then show ?thesis by (simp add: field_leaves_def list_all_concat list_all_iff [of "list_all leaf_named"]) auto
qed

text \<open>C5. Two described types with the same canonical text have the same \<^verbatim>\<open>sizeof\<close> and the same leaf fields in
  the same order: same dotted path, scalar token, array dimensions, absolute offset and size.\<close>

theorem canonical_determines_layout:
  assumes "named (Struct m fs)" "named (Struct n gs)"
    and "CanonicalDescription m fs = CanonicalDescription n gs"
  shows "m = n \<and> map wire_leaf (field_leaves fs) = map wire_leaf (field_leaves gs)"
proof -
  have "decimal m @ newline # concat (map leaf_line (field_leaves fs)) = decimal n @ newline # concat (map leaf_line (field_leaves gs))"
    using assms(3) by (simp add: CanonicalDescription_def canonical_ctx_simps)
  from split_unique [OF this] have "decimal m = decimal n" "concat (map leaf_line (field_leaves fs)) = concat (map leaf_line (field_leaves gs))"
    by (simp_all add: decimal_seps)
  moreover have "list_all leaf_named (field_leaves fs)" "list_all leaf_named (field_leaves gs)"
    using assms(1,2) field_leaves_named by blast+
  ultimately have "map wire_leaf (field_leaves fs) = map wire_leaf (field_leaves gs)" by (intro leaf_lines_inj)
  moreover have "m = n" using \<open>decimal m = decimal n\<close> by (rule render_inj [rotated 2]) simp_all
  ultimately show ?thesis by blast
qed

definition V1Pose2d :: "(string \<times> nat \<times> ctype) list" where
  "V1Pose2d = [(''x'', 0, Scalar double), (''y'', 8, Scalar double), (''theta'', 16, Scalar double)]"

definition V2Pose2dReordered :: "(string \<times> nat \<times> ctype) list" where
  "V2Pose2dReordered = [(''x'', 0, Scalar double), (''theta'', 8, Scalar double), (''y'', 16, Scalar double)]"

definition V3Pose2dTypeSwap :: "(string \<times> nat \<times> ctype) list" where
  "V3Pose2dTypeSwap = [(''x'', 0, Scalar double), (''y'', 8, Scalar double), (''theta'', 16, Scalar uint64_t)]"

definition V4StampedPose2d :: "(string \<times> nat \<times> ctype) list" where
  "V4StampedPose2d = [(''stamp'', 0, Scalar uint64_t), (''pose'', 8, Struct 24 V1Pose2d)]"

definition V5ImuSample :: "(string \<times> nat \<times> ctype) list" where
  "V5ImuSample = [(''stamp'', 0, Scalar uint64_t), (''accel'', 8, Array (Scalar float) 3), (''gyro'', 20, Array (Scalar float) 3)]"

definition V6ModeStatus :: "(string \<times> nat \<times> ctype) list" where
  "V6ModeStatus = [(''mode'', 0, Scalar uint8_t), (''_pad0'', 1, Array (Scalar uint8_t) 3), (''code'', 4, Scalar uint32_t)]"

lemma V1_text: "CanonicalDescription 24 V1Pose2d = ''size:24'' @ [newline] @ ''x:f64:0:8'' @ [newline] @
    ''y:f64:8:8'' @ [newline] @ ''theta:f64:16:8'' @ [newline]"
  by code_simp

text \<open>Two declarations with one wire layout: a status whose mode is a \<^verbatim>\<open>bool\<close>, and one whose mode is an enum over
  \<^verbatim>\<open>uint8_t\<close>; both nest a pose.\<close>

definition BoolStatus :: "(string \<times> nat \<times> ctype) list" where
  "BoolStatus = [(''pose'', 0, Struct 24 V1Pose2d), (''mode'', 24, Array (Scalar bool_t) 8)]"

definition EnumStatus :: "(string \<times> nat \<times> ctype) list" where
  "EnumStatus = [(''pose'', 0, Struct 24 V1Pose2d), (''mode'', 24, Array (Scalar (enum_of uint8_t)) 8)]"

lemma status_named: "named (Struct 32 BoolStatus)" "named (Struct 32 EnumStatus)"
  by code_simp+

lemma status_text: "CanonicalDescription 32 BoolStatus = CanonicalDescription 32 EnumStatus"
  by code_simp

theorem canonical_determines_layout_witness:
  "BoolStatus \<noteq> EnumStatus \<and> map wire_leaf (field_leaves BoolStatus) = map wire_leaf (field_leaves EnumStatus)"
  using canonical_determines_layout [OF status_named status_text] by (simp add: BoolStatus_def EnumStatus_def)

section \<open>Tiling and padding\<close>

lemma tile_from_append: "tile_from at (xs @ ys) n \<longleftrightarrow> (\<exists>m. tile_from at xs m \<and> tile_from m ys n)"
  by (induction at xs n rule: tile_from.induct) auto

lemma tile_from_sum: "tile_from at es n \<Longrightarrow> n = at + sum_list (map snd es)"
  by (induction at es n rule: tile_from.induct) auto

lemma tile_from_iff:
  assumes "\<forall>e \<in> set es. 0 < snd e" "at \<le> n"
  shows "tile_from at es n \<longleftrightarrow> sorted_wrt (\<lambda>e f. fst e + snd e \<le> fst f) es \<and>
     (\<forall>b. at \<le> b \<and> b < n \<longleftrightarrow> (\<exists>e \<in> set es. fst e \<le> b \<and> b < fst e + snd e))"
  using assms
proof (induction es arbitrary: at)
  case Nil
  then show ?case by (auto simp: order.antisym)
next
  case (Cons e es)
  obtain i k where e: "e = (i, k)" by fastforce
  let ?cov = "\<lambda>es b. \<exists>e \<in> set es. fst e \<le> b \<and> b < fst e + snd e"
  have k: "0 < k" using Cons.prems e by simp
  show ?case
  proof
    assume t: "tile_from at (e # es) n"
    then have i: "i = at" "tile_from (at + k) es n" using e by auto
    then have le: "at + k \<le> n" using tile_from_sum by fastforce
    have IH: "sorted_wrt (\<lambda>e f. fst e + snd e \<le> fst f) es" "\<And>b. at + k \<le> b \<and> b < n \<longleftrightarrow> ?cov es b"
      using Cons.IH [of "at + k"] i le Cons.prems by auto
    have "at + k \<le> fst f" if "f \<in> set es" for f
      using IH(2) [of "fst f"] that Cons.prems(1) by force
    moreover have "at \<le> b \<and> b < n \<longleftrightarrow> ?cov (e # es) b" for b
      using IH(2) [of b] e i(1) le k by auto
    ultimately show "sorted_wrt (\<lambda>e f. fst e + snd e \<le> fst f) (e # es) \<and> (\<forall>b. at \<le> b \<and> b < n \<longleftrightarrow> ?cov (e # es) b)"
      using IH(1) e i(1) by simp
  next
    assume h: "sorted_wrt (\<lambda>e f. fst e + snd e \<le> fst f) (e # es) \<and> (\<forall>b. at \<le> b \<and> b < n \<longleftrightarrow> ?cov (e # es) b)"
    then have cov: "at \<le> b \<and> b < n \<longleftrightarrow> (i \<le> b \<and> b < i + k) \<or> ?cov es b" for b using e by simp
    have later: "i + k \<le> b" if "?cov es b" for b using h that e by fastforce
    have "at \<le> i" "i < n" using cov [of i] k by simp_all
    have "at < n" using \<open>at \<le> i\<close> \<open>i < n\<close> by simp
    then have "i \<le> at \<or> ?cov es at" using cov [of at] by blast
    then have "i \<le> at" using later [of at] by linarith
    then have i: "i = at" using \<open>at \<le> i\<close> by simp
    have "i \<le> at + k - 1 \<and> at + k - 1 < i + k" using i k by linarith
    then have "at + k - 1 < n" using cov [of "at + k - 1"] by blast
    then have "at + k \<le> n" using k by linarith
    moreover have "at + k \<le> b \<and> b < n \<longleftrightarrow> ?cov es b" for b
      using cov [of b] later [of b] i by auto
    ultimately show "tile_from at (e # es) n" using Cons.IH [of "at + k"] Cons.prems h e i by simp
  qed
qed

text \<open>The completeness check accepts exactly the field lists whose extents lie in order without overlap and cover each byte of the
  payload and no other.\<close>

lemma ExtentsTile_iff:
  assumes "\<forall>e \<in> set (extents ctx). 0 < snd e"
  shows "ExtentsTile ctx n \<longleftrightarrow> sorted_wrt (\<lambda>e f. fst e + snd e \<le> fst f) (extents ctx) \<and>
     (\<forall>b. b < n \<longleftrightarrow> (\<exists>e \<in> set (extents ctx). fst e \<le> b \<and> b < fst e + snd e))"
  using tile_from_iff [OF assms, of 0 n] by (simp add: ExtentsTile_def)

text \<open>The compiler's layout of a type: arrays are not empty, and the fields of a struct lie in declaration order
  without overlap inside its size. \<open>packed\<close>: no padding between them, at any depth.\<close>

fun fields_fit :: "nat \<Rightarrow> (string \<times> nat \<times> ctype) list \<Rightarrow> nat \<Rightarrow> bool" where
  "fields_fit at [] sz \<longleftrightarrow> at \<le> sz"
| "fields_fit at ((_, off, t) # fs) sz \<longleftrightarrow> at \<le> off \<and> fields_fit (off + sizeof t) fs sz"

fun laid_out :: "ctype \<Rightarrow> bool" where
  "laid_out (Scalar _) = True"
| "laid_out (Array t n) \<longleftrightarrow> 0 < n \<and> laid_out t"
| "laid_out (Struct sz fs) \<longleftrightarrow> fields_fit 0 fs sz \<and> (\<forall>f \<in> set fs. laid_out (snd (snd f)))"

fun field_extent :: "string \<times> nat \<times> ctype \<Rightarrow> nat \<times> nat" where
  "field_extent (_, off, t) = (off, sizeof t)"

fun packed :: "ctype \<Rightarrow> bool" where
  "packed (Scalar _) = True"
| "packed (Array t n) = packed t"
| "packed (Struct sz fs) \<longleftrightarrow> tile_from 0 (map field_extent fs) sz \<and> (\<forall>f \<in> set fs. packed (snd (snd f)))"

fun leaf_bytes :: "ctype \<Rightarrow> nat" where
  "leaf_bytes (Scalar s) = scalar_size s"
| "leaf_bytes (Array t n) = n * leaf_bytes t"
| "leaf_bytes (Struct sz fs) = sum_list (map (\<lambda>f. leaf_bytes (snd (snd f))) fs)"

abbreviation leaf_extents :: "ctype \<Rightarrow> string \<Rightarrow> nat \<Rightarrow> (nat \<times> nat) list" where
  "leaf_extents t path offset \<equiv> map leaf_extent (leaves t path offset)"

lemma array_tiles:
  assumes "\<And>i path offset. i < n \<Longrightarrow> tile_from offset (leaf_extents t path offset) (offset + sizeof t)"
  shows "tile_from offset (map leaf_extent (concat (map (\<lambda>i. leaves t (path i) (offset + i * sizeof t)) [0..<n]))) (offset + n * sizeof t)"
  using assms
proof (induction n)
  case (Suc n)
  then show ?case
  proof -
    have "tile_from (offset + n * sizeof t) (leaf_extents t (path n) (offset + n * sizeof t)) (offset + n * sizeof t + sizeof t)"
      by (rule Suc.prems [of n]) simp
    moreover have "offset + n * sizeof t + sizeof t = offset + Suc n * sizeof t" by simp
    ultimately show ?thesis using Suc by (auto simp del: mult_Suc simp: tile_from_append)
  qed
qed simp

lemma fields_tile:
  assumes "\<And>f path offset. f \<in> set fs \<Longrightarrow> tile_from offset (leaf_extents (snd (snd f)) path offset) (offset + sizeof (snd (snd f)))"
    and "tile_from at (map field_extent fs) n"
  shows "tile_from (base + at) (map leaf_extent (concat (map (\<lambda>(field, at, t). leaves t (path field) (base + at)) fs))) (base + n)"
  using assms
proof (induction fs arbitrary: at)
  case (Cons f fs)
  obtain nm off t where f: "f = (nm, off, t)" by (metis prod_cases3)
  have off: "off = at" "tile_from (at + sizeof t) (map field_extent fs) n" using Cons.prems(2) unfolding f by auto
  have "tile_from (base + at) (leaf_extents t (path nm) (base + at)) (base + (at + sizeof t))"
    using Cons.prems(1) [of f "base + at" "path nm"] f by (simp add: add.assoc)
  then show ?case using Cons.IH [OF Cons.prems(1) off(2)] f off(1) by (auto simp: tile_from_append)
qed simp

lemma packed_tiles: "packed t \<Longrightarrow> tile_from offset (leaf_extents t path offset) (offset + sizeof t)"
proof (induction t arbitrary: path offset)
  case (Array t n)
  then show ?case using array_tiles [of n t offset "\<lambda>i. path @ ''['' @ decimal i @ '']''"] by simp
next
  case (Struct sz fs)
  have "tile_from offset (leaf_extents (snd (snd f)) path offset) (offset + sizeof (snd (snd f)))" if "f \<in> set fs" for f path offset
    using Struct that by (metis packed.simps(3) snds.intros prod.collapse)
  then show ?case using fields_tile [of fs 0 sz offset "\<lambda>field. path @ ''.'' @ field"] Struct.prems by simp
qed simp

lemma leaf_bytes_scalar: "\<not> IsWireDescribed (Base t) \<Longrightarrow> leaf_bytes t = sizeof t"
  by (induction t) auto

lemma sum_list_concat_map: "sum_list (concat xss) = sum_list (map sum_list (xss :: nat list list))"
  by (induction xss) simp_all

lemma leaf_bytes_sum: "sum_list (map snd (leaf_extents t path offset)) = leaf_bytes t"
proof (induction t path offset rule: leaves.induct)
  case (2 t n path offset)
  show ?case
  proof (cases "IsWireDescribed (Base t)")
    case True
    have "sum_list (map snd (leaf_extents (Array t n) path offset)) = sum_list (map (\<lambda>i. leaf_bytes t) [0..<n])"
      unfolding leaves.simps if_P [OF True] map_concat sum_list_concat_map map_map
      by (rule arg_cong [where f = sum_list], rule map_cong [OF refl]) (use 2 True in \<open>simp add: comp_def\<close>)
    then show ?thesis by (simp add: sum_list_triv)
  qed (simp add: leaf_bytes_scalar)
next
  case (3 sz fs path offset)
  have "sum_list (map snd (leaf_extents (Struct sz fs) path offset)) = sum_list (map (\<lambda>f. leaf_bytes (snd (snd f))) fs)"
    unfolding leaves.simps map_concat sum_list_concat_map map_map
    by (rule arg_cong [where f = sum_list], rule map_cong [OF refl]) (use 3 in \<open>auto simp: comp_def\<close>)
  then show ?case by simp
qed simp

lemma fields_fit_bytes:
  assumes "\<And>f. f \<in> set fs \<Longrightarrow> leaf_bytes (snd (snd f)) \<le> sizeof (snd (snd f))" "fields_fit at fs n"
  shows "at + sum_list (map (\<lambda>f. leaf_bytes (snd (snd f))) fs) \<le> n \<and>
     (at + sum_list (map (\<lambda>f. leaf_bytes (snd (snd f))) fs) = n \<longrightarrow> tile_from at (map field_extent fs) n \<and>
        (\<forall>f \<in> set fs. leaf_bytes (snd (snd f)) = sizeof (snd (snd f))))"
  using assms
proof (induction fs arbitrary: at)
  case (Cons f fs)
  obtain nm off t where f: "f = (nm, off, t)" by (metis prod_cases3)
  have "leaf_bytes t \<le> sizeof t" using Cons.prems(1) [of f] f by simp
  then show ?case using Cons.IH [of "off + sizeof t"] Cons.prems f by fastforce
qed simp

lemma laid_out_bytes: "laid_out t \<Longrightarrow> leaf_bytes t \<le> sizeof t \<and> (leaf_bytes t = sizeof t \<longrightarrow> packed t)"
proof (induction t)
  case (Array t n)
  then show ?case by simp
next
  case (Struct sz fs)
  have "leaf_bytes (snd (snd f)) \<le> sizeof (snd (snd f)) \<and> (leaf_bytes (snd (snd f)) = sizeof (snd (snd f)) \<longrightarrow> packed (snd (snd f)))"
    if "f \<in> set fs" for f
    using Struct that by (metis laid_out.simps(3) snds.intros prod.collapse)
  then show ?case using fields_fit_bytes [of fs 0 sz] Struct.prems by auto
qed simp

text \<open>C6. For every field list the compiler can lay out, the debug build's tiling assertion holds exactly when the
  layout has no padding at any depth. A release build does not evaluate the assertion and returns the text of a padded
  type too.\<close>

theorem tiling_assert_iff_packed:
  assumes "laid_out (Struct sz fs)"
  shows "tiling_assert sz fs \<longleftrightarrow> packed (Struct sz fs)"
proof
  have ext: "extents (canonical_ctx sz fs) = map leaf_extent (field_leaves fs)" by (simp add: canonical_ctx_simps)
  {
    assume "tiling_assert sz fs"
    then have "sz = sum_list (map snd (map leaf_extent (field_leaves fs)))"
      using tile_from_sum ext by (fastforce simp: tiling_assert_def ExtentsTile_def)
    also have "\<dots> = leaf_bytes (Struct sz fs)"
      by (simp add: field_leaves_def map_concat comp_def sum_list_concat_map case_prod_beta leaf_bytes_sum [simplified comp_def map_map] cong: map_cong)
    finally show "packed (Struct sz fs)" using laid_out_bytes [OF assms] by simp
  next
    assume p: "packed (Struct sz fs)"
    then have "tile_from offset (leaf_extents (snd (snd f)) path offset) (offset + sizeof (snd (snd f)))" if "f \<in> set fs" for f path offset
      using that packed_tiles by simp
    then show "tiling_assert sz fs"
      using fields_tile [of fs 0 sz 0 "\<lambda>field. field"] p ext by (simp add: tiling_assert_def ExtentsTile_def field_leaves_def)
  }
qed

theorem tiling_assert_iff_packed_witness:
  "\<not> tiling_assert 8 [(''mode'', 0, Scalar uint8_t), (''code'', 4, Scalar uint32_t)] \<and> tiling_assert 8 V6ModeStatus"
  using tiling_assert_iff_packed [of 8 "[(''mode'', 0, Scalar uint8_t), (''code'', 4, Scalar uint32_t)]"]
    tiling_assert_iff_packed [of 8 V6ModeStatus] by (simp add: V6ModeStatus_def)

text \<open>The release build hashes the padded type all the same.\<close>

lemma padded_text: "CanonicalDescription 8 [(''mode'', 0, Scalar uint8_t), (''code'', 4, Scalar uint32_t)] =
    ''size:8'' @ [newline] @ ''mode:u8:0:1'' @ [newline] @ ''code:u32:4:4'' @ [newline]"
  by code_simp

section \<open>Conformance vectors\<close>

lemma V1_hash: "SchemaHashOf (Described 24 V1Pose2d) = 0xE0978597FA5660D4"
  by code_simp

lemma V2_hash: "SchemaHashOf (Described 24 V2Pose2dReordered) = 0x9EF4520D5E058D58"
  by code_simp

lemma V3_hash: "SchemaHashOf (Described 24 V3Pose2dTypeSwap) = 0x9444641EFF1DE2E1"
  by code_simp

lemma V4_hash: "SchemaHashOf (Described 32 V4StampedPose2d) = 0x777F5FA85CE9182A"
  by code_simp

lemma V5_hash: "SchemaHashOf (Described 32 V5ImuSample) = 0x4F932BBE69B94D14"
  by code_simp

lemma V6_hash: "SchemaHashOf (Described 8 V6ModeStatus) = 0x5F05885505F5CDDC"
  by code_simp

lemma fnv_vectors: "Fnv1a64 [] kFnv1aOffsetBasis = 0xCBF29CE484222325" "Fnv1a64 ''a'' kFnv1aOffsetBasis = 0xAF63DC4C8601EC8C"
  "Fnv1a64 ''foobar'' kFnv1aOffsetBasis = 0x85944171F73967E8"
  by code_simp+

text \<open>The six published layouts of the wire contract have the published hashes, and the first the published text.\<close>

lemma conformance_vectors:
  "map SchemaHashOf [Described 24 V1Pose2d, Described 24 V2Pose2dReordered, Described 24 V3Pose2dTypeSwap,
     Described 32 V4StampedPose2d, Described 32 V5ImuSample, Described 8 V6ModeStatus] =
   [0xE0978597FA5660D4, 0x9EF4520D5E058D58, 0x9444641EFF1DE2E1, 0x777F5FA85CE9182A, 0x4F932BBE69B94D14, 0x5F05885505F5CDDC]"
  by (simp only: V1_hash V2_hash V3_hash V4_hash V5_hash V6_hash list.map simp_thms)

section \<open>Sensitivity of the hash\<close>

text \<open>C8. Two texts that differ in one byte never hash alike, whatever surrounds the byte; and two RPC topics that
  share the type of one direction collide only when the hashes of the other direction collide.\<close>

theorem hash_sensitivity:
  "(Fnv1a64 (xs @ c # ys) h = Fnv1a64 (xs @ d # ys) h \<longleftrightarrow> c = d) \<and>
   (RpcSchemaHash p q = RpcSchemaHash p r \<longleftrightarrow> SchemaHashOf q = SchemaHashOf r) \<and>
   (RpcSchemaHash q p = RpcSchemaHash r p \<longleftrightarrow> SchemaHashOf q = SchemaHashOf r)"
proof (intro conjI)
  show "Fnv1a64 (xs @ c # ys) h = Fnv1a64 (xs @ d # ys) h \<longleftrightarrow> c = d"
    using Fnv1a64_inj_hash [of ys] fnv_step_inj_char by (simp add: Fnv1a64_def)
qed (simp_all add: RpcSchemaHash_def xor_left_cancel xor_right_cancel fnv_mult_inj)

lemma rpc_hash_example:
  "RpcSchemaHash (Described 24 V1Pose2d) (Described 24 V2Pose2dReordered) \<noteq> RpcSchemaHash (Described 24 V1Pose2d) (Described 24 V3Pose2dTypeSwap)"
  by (simp add: RpcSchemaHash_def xor_left_cancel V2_hash V3_hash)

end
