(* ===== verification/Domain_State.thy ===== *)
theory Domain_State
  imports Rpc_Topic
begin

text \<open>
  One in-process domain, \<^verbatim>\<open>DomainState\<close> of \<^verbatim>\<open>include/xmmsg/detail/in_process.hpp\<close>: the topic registry, the wiring
  verbs \<^verbatim>\<open>Advertise\<close>, \<^verbatim>\<open>Subscribe\<close>, \<^verbatim>\<open>Serve\<close> and \<^verbatim>\<open>Client\<close>, the destructors of the endpoint handles and the
  verbs that dispatch from a handle to its topic. The registry holds topics of any payload type behind \<^verbatim>\<open>TopicBase\<close>;
  each verb downcasts with a \<^verbatim>\<open>static_cast\<close> to the class of its own template arguments. The class of an object is the
  template it was made from and the \<^verbatim>\<open>typeid\<close> of its arguments, which its constructor stores in the field \<open>type_id\<close>; a
  cast to any other class is undefined behaviour and the result \<open>None\<close>. Every wiring verb runs under
  \<^verbatim>\<open>DomainState::mutex_\<close>, so it is one step.
\<close>

section \<open>State\<close>

datatype ('s, 'q, 'req, 'rsp) entry = TopicE "('s, 'q) Topic" | RpcE "('req, 'rsp) RpcTopic"

fun e_hash :: "('s, 'q, 'req, 'rsp) entry \<Rightarrow> u64" where
  "e_hash (TopicE t) = schema_hash t"
| "e_hash (RpcE t) = schema_hash t"

fun e_type :: "('s, 'q, 'req, 'rsp) entry \<Rightarrow> string" where
  "e_type (TopicE t) = type_id t"
| "e_type (RpcE t) = type_id t"

fun e_pubs :: "('s, 'q, 'req, 'rsp) entry \<Rightarrow> u64" where
  "e_pubs (TopicE t) = publisher_count t"
| "e_pubs (RpcE t) = publisher_count t"

fun e_subs :: "('s, 'q, 'req, 'rsp) entry \<Rightarrow> u64" where
  "e_subs (TopicE t) = subscriber_count t"
| "e_subs (RpcE t) = subscriber_count t"

text \<open>\<^verbatim>\<open>static_cast<Topic<T>*>\<close> and \<^verbatim>\<open>static_cast<RpcTopic<Req, Rsp>*>\<close>, with the \<^verbatim>\<open>typeid\<close> of the target's arguments: defined on
  the objects that were made as this very class.\<close>

fun as_topic :: "string \<Rightarrow> ('s, 'q, 'req, 'rsp) entry \<Rightarrow> ('s, 'q) Topic option" where
  "as_topic ty (TopicE t) = (if type_id t = ty then Some t else None)"
| "as_topic ty (RpcE t) = None"

fun as_rpc :: "string \<Rightarrow> ('s, 'q, 'req, 'rsp) entry \<Rightarrow> ('req, 'rsp) RpcTopic option" where
  "as_rpc ty (RpcE t) = (if type_id t = ty then Some t else None)"
| "as_rpc ty (TopicE t) = None"

text \<open>\<^verbatim>\<open>topics_\<close> as an association list; the order of its keys is not observable. The gauges hold the value last set.\<close>

record ('s, 'q, 'req, 'rsp) DomainState =
  topics :: "(string \<times> ('s, 'q, 'req, 'rsp) entry) list"
  endpoint_count :: u64
  g_endpoints :: nat
  g_matches :: nat

definition DomainState_init :: "('s, 'q, 'req, 'rsp) DomainState" where
  "DomainState_init = \<lparr>topics = [], endpoint_count = 0, g_endpoints = 0, g_matches = 0\<rparr>"

definition topic_at :: "('s, 'q, 'req, 'rsp) DomainState \<Rightarrow> string \<Rightarrow> ('s, 'q, 'req, 'rsp) entry option" where
  "topic_at ds nm = map_of (topics ds) nm"

fun put_entry :: "string \<Rightarrow> 'e \<Rightarrow> (string \<times> 'e) list \<Rightarrow> (string \<times> 'e) list" where
  "put_entry nm e [] = [(nm, e)]"
| "put_entry nm e ((k, v) # ts) = (if k = nm then (nm, e) # ts else (k, v) # put_entry nm e ts)"

definition put_topic :: "string \<Rightarrow> ('s, 'q, 'req, 'rsp) entry \<Rightarrow> ('s, 'q, 'req, 'rsp) DomainState \<Rightarrow>
  ('s, 'q, 'req, 'rsp) DomainState" where
  "put_topic nm e ds = ds\<lparr>topics := put_entry nm e (topics ds)\<rparr>"

definition match_total :: "('s, 'q, 'req, 'rsp) DomainState \<Rightarrow> nat" where
  "match_total ds = sum_list (map (\<lambda>(_, e). unat (e_pubs e) * unat (e_subs e)) (topics ds))"

definition UpdateGauges :: "('s, 'q, 'req, 'rsp) DomainState \<Rightarrow> ('s, 'q, 'req, 'rsp) DomainState" where
  "UpdateGauges ds = ds\<lparr>g_endpoints := unat (endpoint_count ds), g_matches := match_total ds\<rparr>"

section \<open>Endpoints\<close>

datatype EndpointBackend = Backend_kInProcess | Backend_kPosixShm

datatype ('a, 's, 'q) impl_kind =
  PubImpl "'a PubCore option"
| SubImpl "('s, 'q) core_ptr option"
| ServerImpl bool
| ClientImpl bool

text \<open>\<open>ep_topic\<close> stands for \<^verbatim>\<open>topic_\<close> and \<^verbatim>\<open>state_\<close>, which are set together; registry entries are never replaced, so the
  shared pointer is the topic's name. \<open>ep_type\<close> is the payload type of the handle's C++ type, \<^verbatim>\<open>typeid(T)\<close>.\<close>

record ('a, 's, 'q) EndpointImpl =
  ep_kind :: "('a, 's, 'q) impl_kind"
  ep_type :: string
  ep_topic :: "string option"
  is_publisher :: bool
  backend :: EndpointBackend
  advertise_status :: AdvertiseStatus
  subscribe_status :: SubscribeStatus

definition EndpointImpl_init :: "('a, 's, 'q) impl_kind \<Rightarrow> string \<Rightarrow> ('a, 's, 'q) EndpointImpl" where
  "EndpointImpl_init k ty = \<lparr>ep_kind = k, ep_type = ty, ep_topic = None, is_publisher = False,
     backend = Backend_kInProcess, advertise_status = Advertise_kUnsupportedReach,
     subscribe_status = Subscribe_kUnsupportedReach\<rparr>"

definition MatchedCount :: "('a, 's, 'q) EndpointImpl \<Rightarrow> ('s, 'q, 'req, 'rsp) DomainState \<Rightarrow> u64" where
  "MatchedCount ep ds = (case ep_topic ep of None \<Rightarrow> 0
   | Some nm \<Rightarrow> (case topic_at ds nm of None \<Rightarrow> 0
     | Some e \<Rightarrow> if is_publisher ep then e_subs e else e_pubs e))"

section \<open>Wiring\<close>

text \<open>\<^verbatim>\<open>state->topics_[topic]\<close>, creating the entry when it is new.\<close>

definition find_or_make :: "string \<Rightarrow> ('s, 'q, 'req, 'rsp) entry \<Rightarrow> ('s, 'q, 'req, 'rsp) DomainState \<Rightarrow>
  ('s, 'q, 'req, 'rsp) entry \<times> ('s, 'q, 'req, 'rsp) DomainState" where
  "find_or_make nm fresh ds = (case topic_at ds nm of
     Some e \<Rightarrow> (e, ds) | None \<Rightarrow> (fresh, put_topic nm fresh ds))"

text \<open>The end of a successful wiring: the entry updated, the census raised, the gauges set.\<close>

definition register :: "string \<Rightarrow> ('s, 'q, 'req, 'rsp) entry \<Rightarrow> ('s, 'q, 'req, 'rsp) DomainState \<Rightarrow>
  ('s, 'q, 'req, 'rsp) DomainState" where
  "register nm e ds = UpdateGauges ((put_topic nm e ds)\<lparr>endpoint_count := endpoint_count ds + 1\<rparr>)"

definition unregister :: "string \<Rightarrow> ('s, 'q, 'req, 'rsp) entry \<Rightarrow> ('s, 'q, 'req, 'rsp) DomainState \<Rightarrow>
  ('s, 'q, 'req, 'rsp) DomainState" where
  "unregister nm e ds = UpdateGauges ((put_topic nm e ds)\<lparr>endpoint_count := endpoint_count ds - 1\<rparr>)"

definition Advertise :: "('a, 's, 'q, 'c) XmBase \<Rightarrow> u64 \<Rightarrow> string \<Rightarrow> string \<Rightarrow> Qos \<Rightarrow> ('s, 'q, 'req, 'rsp) DomainState \<Rightarrow>
  (('a, 's, 'q) EndpointImpl \<times> ('s, 'q, 'req, 'rsp) DomainState) option" where
  "Advertise X hash ty nm qos ds =
     (let impl = (EndpointImpl_init (PubImpl None) ty)\<lparr>is_publisher := True\<rparr>;
          (e, ds1) = find_or_make nm (TopicE (Topic_init X nm hash ty)) ds
      in if e_hash e \<noteq> hash \<or> e_type e \<noteq> ty
         then Some (impl\<lparr>advertise_status := Advertise_kTypeMismatch\<rparr>, ds1)
         else case as_topic ty e of None \<Rightarrow> None
         | Some t \<Rightarrow> (case AddPublisher qos t of (st, core, t') \<Rightarrow>
             if st = Advertise_kOk
             then Some (impl\<lparr>ep_kind := PubImpl core, ep_topic := Some nm, advertise_status := st\<rparr>, register nm (TopicE t') ds1)
             else Some (impl\<lparr>advertise_status := st\<rparr>, put_topic nm (TopicE t') ds1)))"

definition Subscribe :: "('a, 's, 'q, 'c) XmBase \<Rightarrow> u64 \<Rightarrow> string \<Rightarrow> string \<Rightarrow> Qos \<Rightarrow> ('s, 'q, 'req, 'rsp) DomainState \<Rightarrow>
  (('a, 's, 'q) EndpointImpl \<times> ('s, 'q, 'req, 'rsp) DomainState) option" where
  "Subscribe X hash ty nm qos ds =
     (let impl = EndpointImpl_init (SubImpl None) ty;
          (e, ds1) = find_or_make nm (TopicE (Topic_init X nm hash ty)) ds
      in if e_hash e \<noteq> hash \<or> e_type e \<noteq> ty
         then Some (impl\<lparr>subscribe_status := Subscribe_kTypeMismatch\<rparr>, ds1)
         else case as_topic ty e of None \<Rightarrow> None
         | Some t \<Rightarrow> (case AddSubscriber X qos t of (core, t') \<Rightarrow>
             Some (impl\<lparr>ep_kind := SubImpl (Some core), ep_topic := Some nm, subscribe_status := Subscribe_kOk\<rparr>,
               register nm (TopicE t') ds1)))"

definition Serve :: "u64 \<Rightarrow> string \<Rightarrow> string \<Rightarrow> ('s, 'q, 'req, 'rsp) DomainState \<Rightarrow>
  (('a, 's, 'q) EndpointImpl \<times> ('s, 'q, 'req, 'rsp) DomainState) option" where
  "Serve hash ty nm ds =
     (let impl = (EndpointImpl_init (ServerImpl False) ty)\<lparr>is_publisher := True\<rparr>;
          (e, ds1) = find_or_make nm (RpcE (RpcTopic_init nm hash ty)) ds
      in if e_hash e \<noteq> hash \<or> e_type e \<noteq> ty
         then Some (impl\<lparr>advertise_status := Advertise_kTypeMismatch\<rparr>, ds1)
         else case as_rpc ty e of None \<Rightarrow> None
         | Some t \<Rightarrow> (case AddServer t of (st, t') \<Rightarrow>
             if st = Advertise_kOk
             then Some (impl\<lparr>ep_kind := ServerImpl True, ep_topic := Some nm, advertise_status := st\<rparr>, register nm (RpcE t') ds1)
             else Some (impl\<lparr>advertise_status := st\<rparr>, put_topic nm (RpcE t') ds1)))"

definition Domain_Client :: "u64 \<Rightarrow> string \<Rightarrow> string \<Rightarrow> ('s, 'q, 'req, 'rsp) DomainState \<Rightarrow>
  (('a, 's, 'q) EndpointImpl \<times> ('s, 'q, 'req, 'rsp) DomainState) option" where
  "Domain_Client hash ty nm ds =
     (let impl = EndpointImpl_init (ClientImpl False) ty;
          (e, ds1) = find_or_make nm (RpcE (RpcTopic_init nm hash ty)) ds
      in if e_hash e \<noteq> hash \<or> e_type e \<noteq> ty
         then Some (impl\<lparr>subscribe_status := Subscribe_kTypeMismatch\<rparr>, ds1)
         else case as_rpc ty e of None \<Rightarrow> None
         | Some t \<Rightarrow> Some (impl\<lparr>ep_kind := ClientImpl True, ep_topic := Some nm, subscribe_status := Subscribe_kOk\<rparr>,
               register nm (RpcE (AddClient t)) ds1))"

text \<open>\<^verbatim>\<open>~PubImpl\<close>, \<^verbatim>\<open>~SubImpl\<close>, \<^verbatim>\<open>~ServerImpl\<close> and \<^verbatim>\<open>~ClientImpl\<close>: a handle that was never wired unregisters nothing.\<close>

definition EndpointImpl_dtor :: "('a, 's, 'q) EndpointImpl \<Rightarrow> ('s, 'q, 'req, 'rsp) DomainState \<Rightarrow>
  ('s, 'q, 'req, 'rsp) DomainState option" where
  "EndpointImpl_dtor ep ds = (case ep_topic ep of None \<Rightarrow> Some ds
   | Some nm \<Rightarrow> (case (ep_kind ep, topic_at ds nm) of
       (PubImpl None, _) \<Rightarrow> Some ds
     | (SubImpl None, _) \<Rightarrow> Some ds
     | (ServerImpl False, _) \<Rightarrow> Some ds
     | (ClientImpl False, _) \<Rightarrow> Some ds
     | (PubImpl (Some _), Some e) \<Rightarrow>
         map_option (\<lambda>t. unregister nm (TopicE (RemovePublisher t)) ds) (as_topic (ep_type ep) e)
     | (SubImpl (Some core), Some e) \<Rightarrow>
         map_option (\<lambda>t. unregister nm (TopicE (RemoveSubscriber core t)) ds) (as_topic (ep_type ep) e)
     | (ServerImpl True, Some e) \<Rightarrow>
         map_option (\<lambda>t. unregister nm (RpcE (RemoveServer t)) ds) (as_rpc (ep_type ep) e)
     | (ClientImpl True, Some e) \<Rightarrow>
         map_option (\<lambda>t. unregister nm (RpcE (RemoveClient t)) ds) (as_rpc (ep_type ep) e)
     | _ \<Rightarrow> None))"

section \<open>Verbs of the handles\<close>

text \<open>\<^verbatim>\<open>Publisher::Publish\<close>. A handle that was never wired publishes nothing.\<close>

definition Publisher_Publish :: "('a, 's, 'q, 'c) XmBase \<Rightarrow> u64 \<Rightarrow> 'c \<Rightarrow> nanos \<Rightarrow> 'a \<Rightarrow> DerivedInfo option \<Rightarrow>
  ('a, 's, 'q) EndpointImpl \<Rightarrow> ('s, 'q, 'req, 'rsp) DomainState \<Rightarrow>
  (PublishStatus \<times> ('a, 's, 'q) EndpointImpl \<times> ('s, 'q, 'req, 'rsp) DomainState) option" where
  "Publisher_Publish X sz ctx now val derived ep ds = (case (ep_kind ep, ep_topic ep) of
     (PubImpl (Some core), Some nm) \<Rightarrow> (case Option.bind (topic_at ds nm) (as_topic (ep_type ep)) of
         Some t \<Rightarrow> (case Deliver X sz ctx now core val derived t of (st, core', t') \<Rightarrow>
           Some (st, ep\<lparr>ep_kind := PubImpl (Some core')\<rparr>, put_topic nm (TopicE t') ds))
       | None \<Rightarrow> None)
   | (PubImpl _, _) \<Rightarrow> Some (Publish_kOk, ep, ds)
   | _ \<Rightarrow> None)"

text \<open>The two take verbs, over the core the handle points to.\<close>

definition on_core :: "(('s, 'q) SubCore \<Rightarrow> ('a, 'c) Sample \<times> ('s, 'q) SubCore) \<Rightarrow> ('a, 'c) Sample \<Rightarrow>
  ('a, 's, 'q) EndpointImpl \<Rightarrow> ('s, 'q, 'req, 'rsp) DomainState \<Rightarrow>
  (('a, 'c) Sample \<times> ('a, 's, 'q) EndpointImpl \<times> ('s, 'q, 'req, 'rsp) DomainState) option" where
  "on_core f none ep ds = (case ep_kind ep of
     SubImpl None \<Rightarrow> Some (none, ep, ds)
   | SubImpl (Some (Unconnected c)) \<Rightarrow> (case f c of (smp, c') \<Rightarrow>
       Some (smp, ep\<lparr>ep_kind := SubImpl (Some (Unconnected c'))\<rparr>, ds))
   | SubImpl (Some (Retained p)) \<Rightarrow> (case map_option (topic_at ds) (ep_topic ep) of
       Some (Some (TopicE t)) \<Rightarrow> (case f (sub_retained t ! p) of (smp, c') \<Rightarrow>
         Some (smp, ep, put_topic (the (ep_topic ep)) (TopicE (t\<lparr>sub_retained := (sub_retained t)[p := c']\<rparr>)) ds))
     | _ \<Rightarrow> None)
   | _ \<Rightarrow> None)"

definition Subscriber_TakeLatest :: "('a, 's, 'q, 'c) XmBase \<Rightarrow> nanos \<Rightarrow>
  ('a, 's, 'q) EndpointImpl \<Rightarrow> ('s, 'q, 'req, 'rsp) DomainState \<Rightarrow>
  (('a, 'c) Sample \<times> ('a, 's, 'q) EndpointImpl \<times> ('s, 'q, 'req, 'rsp) DomainState) option" where
  "Subscriber_TakeLatest X now = on_core (TakeLatest X now) (Sample_init (ctx_null X))"

definition Subscriber_TryTake :: "('a, 's, 'q, 'c) XmBase \<Rightarrow> nanos \<Rightarrow>
  ('a, 's, 'q) EndpointImpl \<Rightarrow> ('s, 'q, 'req, 'rsp) DomainState \<Rightarrow>
  (('a, 'c) Sample \<times> ('a, 's, 'q) EndpointImpl \<times> ('s, 'q, 'req, 'rsp) DomainState) option" where
  "Subscriber_TryTake X now = on_core (TryTake X now) (Sample_init (ctx_null X))"

text \<open>The server and client verbs: an unwired handle gives the safe verdict, a wired one runs the operation on its topic.\<close>

definition on_rpc :: "'v \<Rightarrow> (('req, 'rsp) RpcTopic \<Rightarrow> 'v \<times> ('req, 'rsp) RpcTopic) \<Rightarrow> bool \<Rightarrow>
  ('a, 's, 'q) EndpointImpl \<Rightarrow> ('s, 'q, 'req, 'rsp) DomainState \<Rightarrow> ('v \<times> ('s, 'q, 'req, 'rsp) DomainState) option" where
  "on_rpc safe f registered ep ds =
     (if \<not> registered then Some (safe, ds)
      else case Option.bind (Option.bind (ep_topic ep) (topic_at ds)) (as_rpc (ep_type ep)) of
        Some t \<Rightarrow> (case f t of (v, t') \<Rightarrow> Some (v, put_topic (the (ep_topic ep)) (RpcE t') ds))
      | _ \<Rightarrow> None)"

definition Server_TakeRequest :: "('a, 's, 'q, 'c) XmBase \<Rightarrow> ('a, 's, 'q) EndpointImpl \<Rightarrow> ('s, 'q, 'req, 'rsp) DomainState \<Rightarrow>
  (('req, 'c) Request \<times> ('s, 'q, 'req, 'rsp) DomainState) option" where
  "Server_TakeRequest X ep ds = (case ep_kind ep of
     ServerImpl registered \<Rightarrow> on_rpc (Request_init (ctx_null X)) (TakeRequest X) registered ep ds | _ \<Rightarrow> None)"

definition Server_Reply :: "('req, 'c) Request \<Rightarrow> 'rsp \<Rightarrow> ('a, 's, 'q) EndpointImpl \<Rightarrow> ('s, 'q, 'req, 'rsp) DomainState \<Rightarrow>
  (ReplyStatus \<times> ('s, 'q, 'req, 'rsp) DomainState) option" where
  "Server_Reply req rsp ep ds = (case ep_kind ep of
     ServerImpl registered \<Rightarrow> on_rpc Reply_kExpired (Reply (req_correlation req) rsp)
       (registered \<and> req_freshness req \<noteq> kNone) ep ds | _ \<Rightarrow> None)"

definition WaitForWorkOrShutdown :: "(bool \<Rightarrow> bool) \<Rightarrow> ('a, 's, 'q) EndpointImpl \<Rightarrow> ('s, 'q, 'req, 'rsp) DomainState \<Rightarrow>
  (bool \<times> ('s, 'q, 'req, 'rsp) DomainState) option" where
  "WaitForWorkOrShutdown wait_for ep ds = (case ep_kind ep of
     ServerImpl registered \<Rightarrow> on_rpc False (\<lambda>t. (WaitForWork wait_for t, t)) registered ep ds | _ \<Rightarrow> None)"

text \<open>\<^verbatim>\<open>Client::Call\<close> up to its reply wait, and after it for a call that holds slot \<open>i\<close>.\<close>

definition Client_Call :: "('a, 's, 'q, 'c) XmBase \<Rightarrow> 'c \<Rightarrow> nanos \<Rightarrow> 'req \<Rightarrow> ('a, 's, 'q) EndpointImpl \<Rightarrow>
  ('s, 'q, 'req, 'rsp) DomainState \<Rightarrow> (('rsp Result + nat \<times> u64) \<times> ('s, 'q, 'req, 'rsp) DomainState) option" where
  "Client_Call X ctx now req ep ds = (case ep_kind ep of
     ClientImpl registered \<Rightarrow> on_rpc (Inl Result_init) (Call_begin X ctx now req) registered ep ds | _ \<Rightarrow> None)"

definition Client_Call_finish :: "bool \<Rightarrow> nat \<Rightarrow> ('a, 's, 'q) EndpointImpl \<Rightarrow>
  ('s, 'q, 'req, 'rsp) DomainState \<Rightarrow> ('rsp Result \<times> ('s, 'q, 'req, 'rsp) DomainState) option" where
  "Client_Call_finish replied i ep ds = (case ep_kind ep of
     ClientImpl registered \<Rightarrow> on_rpc Result_init (Call_finish replied i) registered ep ds | _ \<Rightarrow> None)"

text \<open>\<^verbatim>\<open>namespace introspect\<close>: the counters of the core behind a handle, 0 when there is none.\<close>

definition sub_core :: "('a, 's, 'q) EndpointImpl \<Rightarrow> ('s, 'q, 'req, 'rsp) DomainState \<Rightarrow> ('s, 'q) SubCore option" where
  "sub_core ep ds = (case ep_kind ep of
     SubImpl (Some (Unconnected c)) \<Rightarrow> Some c
   | SubImpl (Some (Retained p)) \<Rightarrow> (case map_option (topic_at ds) (ep_topic ep) of
       Some (Some (TopicE t)) \<Rightarrow> Some (sub_retained t ! p) | _ \<Rightarrow> None)
   | _ \<Rightarrow> None)"

definition DropCount :: "('a, 's, 'q) EndpointImpl \<Rightarrow> ('s, 'q, 'req, 'rsp) DomainState \<Rightarrow> u64" where
  "DropCount ep ds = (case sub_core ep ds of None \<Rightarrow> 0 | Some c \<Rightarrow> drop_count c)"

definition OverwriteCount :: "('a, 's, 'q) EndpointImpl \<Rightarrow> ('s, 'q, 'req, 'rsp) DomainState \<Rightarrow> u64" where
  "OverwriteCount ep ds = (case sub_core ep ds of None \<Rightarrow> 0 | Some c \<Rightarrow> overwrite_count c)"

definition TakeCount :: "('a, 's, 'q) EndpointImpl \<Rightarrow> ('s, 'q, 'req, 'rsp) DomainState \<Rightarrow> u64" where
  "TakeCount ep ds = (case sub_core ep ds of None \<Rightarrow> 0 | Some c \<Rightarrow> take_count c)"

definition PublishCount :: "('a, 's, 'q) EndpointImpl \<Rightarrow> u64" where
  "PublishCount ep = (case ep_kind ep of PubImpl (Some c) \<Rightarrow> publish_count c | _ \<Rightarrow> 0)"

definition RefusedCount :: "('a, 's, 'q) EndpointImpl \<Rightarrow> u64" where
  "RefusedCount ep = (case ep_kind ep of PubImpl (Some c) \<Rightarrow> refused_count c | _ \<Rightarrow> 0)"

section \<open>A process with its handles\<close>

record ('a, 's, 'q, 'req, 'rsp) dom_sys =
  dom_state :: "('s, 'q, 'req, 'rsp) DomainState"
  eps :: "('a, 's, 'q) EndpointImpl option list"

definition ep_at :: "('a, 's, 'q, 'req, 'rsp) dom_sys \<Rightarrow> nat \<Rightarrow> ('a, 's, 'q) EndpointImpl option" where
  "ep_at s h = (if h < length (eps s) then eps s ! h else None)"

definition pool_at :: "('a, 's, 'q, 'req, 'rsp) dom_sys \<Rightarrow> nat \<Rightarrow> 'a LoanPool option" where
  "pool_at s h = (case map_option ep_kind (ep_at s h) of Some (PubImpl (Some core)) \<Rightarrow> Some (pub_pool core) | _ \<Rightarrow> None)"

definition set_pool :: "nat \<Rightarrow> 'a LoanPool \<Rightarrow> ('a, 's, 'q, 'req, 'rsp) dom_sys \<Rightarrow> ('a, 's, 'q, 'req, 'rsp) dom_sys" where
  "set_pool h pool s = (case ep_at s h of Some ep \<Rightarrow>
     (case ep_kind ep of PubImpl (Some core) \<Rightarrow>
        s\<lparr>eps := (eps s)[h := Some (ep\<lparr>ep_kind := PubImpl (Some (core\<lparr>pub_pool := pool\<rparr>))\<rparr>)]\<rparr> | _ \<Rightarrow> s) | _ \<Rightarrow> s)"

text \<open>\<^verbatim>\<open>Publish(Loan&&)\<close> and \<^verbatim>\<open>PublishDerived\<close>: the loan is moved into a local, the cell is copied out by the
  publish, and the local's destructor returns the cell to the pool it came from. \<open>dflt\<close> is \<^verbatim>\<open>T{}\<close>.\<close>

definition Publisher_PublishLoan :: "('a, 's, 'q, 'c) XmBase \<Rightarrow> 'a \<Rightarrow> u64 \<Rightarrow> 'c \<Rightarrow> nanos \<Rightarrow> nat \<Rightarrow> Loan \<Rightarrow>
  (nanos \<times> u32) list \<Rightarrow> ('a, 's, 'q, 'req, 'rsp) dom_sys \<Rightarrow> (PublishStatus \<times> ('a, 's, 'q, 'req, 'rsp) dom_sys) option" where
  "Publisher_PublishLoan X dflt sz ctx now h loan upstream s = (case (loan_pool loan, loan_slot loan) of
     (Some p, Some i) \<Rightarrow> (case (pool_at s p, ep_at s h) of
         (Some pool, Some ep) \<Rightarrow>
           (let val = (case cells pool ! i of None \<Rightarrow> dflt | Some v \<Rightarrow> v);
                derived = derive_info upstream
            in case Publisher_Publish X sz ctx now val derived ep (dom_state s) of
                 None \<Rightarrow> None
               | Some (st, ep', ds') \<Rightarrow>
                   (let s' = s\<lparr>dom_state := ds', eps := (eps s)[h := Some ep']\<rparr>
                    in case pool_at s' p of None \<Rightarrow> None
                    | Some pool' \<Rightarrow> Some (st, set_pool p (Release i pool') s')))
       | _ \<Rightarrow> None)
   | _ \<Rightarrow> Some (Publish_kOk, s))"

end
