(* ===== verification/Domain_Properties.thy ===== *)
theory Domain_Properties
  imports Domain_State Topic_Race
begin

text \<open>
  The domain over any sequence of wiring, teardown, publish, take and call operations on any number of handles: the
  downcasts behind \<^verbatim>\<open>TopicBase\<close> meet objects of their own class and payload type, the matching counters and the census count exactly the live handles, and the
  gauges show their product.
\<close>

section \<open>Seats\<close>

text \<open>What a wired handle occupies in the registry: the topic's name, the payload type and its role there.\<close>

datatype role = RPub | RSub "nat option" | RServer | RClient

fun kind_role :: "('a, 's, 'q) impl_kind \<Rightarrow> role option" where
  "kind_role (PubImpl None) = None"
| "kind_role (PubImpl (Some _)) = Some RPub"
| "kind_role (SubImpl None) = None"
| "kind_role (SubImpl (Some (Retained p))) = Some (RSub (Some p))"
| "kind_role (SubImpl (Some (Unconnected _))) = Some (RSub None)"
| "kind_role (ServerImpl b) = (if b then Some RServer else None)"
| "kind_role (ClientImpl b) = (if b then Some RClient else None)"

definition seat :: "('a, 's, 'q) EndpointImpl \<Rightarrow> (string \<times> string \<times> role) option" where
  "seat ep = (case (ep_topic ep, kind_role (ep_kind ep)) of
     (Some nm, Some r) \<Rightarrow> Some (nm, ep_type ep, r) | _ \<Rightarrow> None)"

definition seats :: "('a, 's, 'q) EndpointImpl option list \<Rightarrow> (string \<times> string \<times> role) option list" where
  "seats es = map (\<lambda>x. Option.bind x seat) es"

definition cnt :: "('x \<Rightarrow> bool) \<Rightarrow> 'x option list \<Rightarrow> nat" where
  "cnt P xs = length (filter (\<lambda>y. case y of None \<Rightarrow> False | Some x \<Rightarrow> P x) xs)"

definition pub_seat :: "string \<Rightarrow> string \<times> string \<times> role \<Rightarrow> bool" where
  "pub_seat nm = (\<lambda>(n, ty, r). n = nm \<and> (r = RPub \<or> r = RServer))"

text \<open>A subscriber that found no free slot of the topic's table is wired but not matched.\<close>

definition sub_seat :: "string \<Rightarrow> string \<times> string \<times> role \<Rightarrow> bool" where
  "sub_seat nm = (\<lambda>(n, ty, r). n = nm \<and> (r = RClient \<or> (\<exists>p. r = RSub (Some p))))"

lemma cnt_append [simp]: "cnt P (xs @ [None]) = cnt P xs" "cnt P (xs @ [Some x]) = cnt P xs + (if P x then 1 else 0)"
  by (simp_all add: cnt_def)

lemma cnt_Nil [simp]: "cnt P [] = 0"
  by (simp add: cnt_def)

lemma cnt_remove: "i < length xs \<Longrightarrow> xs ! i = Some x \<Longrightarrow> cnt P xs = cnt P (xs[i := None]) + (if P x then 1 else 0)"
  unfolding cnt_def by (induction xs arbitrary: i) (auto split: nat.splits simp: nth_Cons')

lemma cnt_0: "(\<And>x. Some x \<in> set xs \<Longrightarrow> \<not> P x) \<Longrightarrow> cnt P xs = 0"
  unfolding cnt_def by (auto simp: filter_empty_conv split: option.splits)

section \<open>The registry\<close>

lemma map_of_put: "map_of (put_entry nm e ts) = (map_of ts)(nm \<mapsto> e)"
  by (induction nm e ts rule: put_entry.induct) (auto simp: fun_upd_twist)

lemma topic_at_put [simp]: "topic_at (put_topic nm e ds) k = (if k = nm then Some e else topic_at ds k)"
  by (simp add: topic_at_def put_topic_def map_of_put)

lemma keys_put: "distinct (map fst ts) \<Longrightarrow> distinct (map fst (put_entry nm e ts)) \<and> set (map fst (put_entry nm e ts)) = insert nm (set (map fst ts))"
  by (induction nm e ts rule: put_entry.induct) auto

text \<open>The gauge is the sum over the registry, whatever its order.\<close>

definition weight :: "('s, 'q, 'req, 'rsp) entry \<Rightarrow> nat" where
  "weight e = unat (e_pubs e) * unat (e_subs e)"

lemma total_put:
  "map_of ts nm = Some e0 \<Longrightarrow> sum_list (map (\<lambda>(_, e). weight e) (put_entry nm e ts)) + weight e0 = sum_list (map (\<lambda>(_, e). weight e) ts) + weight e"
  "map_of ts nm = None \<Longrightarrow> sum_list (map (\<lambda>(_, e). weight e) (put_entry nm e ts)) = sum_list (map (\<lambda>(_, e). weight e) ts) + weight e"
  by (induction nm e ts rule: put_entry.induct) (auto split: if_splits)

lemma match_total_put:
  "topic_at ds nm = Some e0 \<Longrightarrow> weight e = weight e0 \<Longrightarrow> match_total (put_topic nm e ds) = match_total ds"
  "topic_at ds nm = None \<Longrightarrow> match_total (put_topic nm e ds) = match_total ds + weight e"
  using total_put(1) [of "topics ds" nm e0 e] total_put(2) [of "topics ds" nm e]
  by (simp_all add: topic_at_def put_topic_def match_total_def weight_def)

lemma put_topic_simps [simp]:
  "endpoint_count (put_topic nm e ds) = endpoint_count ds" "g_endpoints (put_topic nm e ds) = g_endpoints ds"
  "g_matches (put_topic nm e ds) = g_matches ds"
  by (simp_all add: put_topic_def)

lemma register_simps [simp]:
  "topic_at (register nm e ds) k = (if k = nm then Some e else topic_at ds k)"
  "endpoint_count (register nm e ds) = endpoint_count ds + 1"
  "g_endpoints (register nm e ds) = unat (endpoint_count (register nm e ds))"
  "g_matches (register nm e ds) = match_total (register nm e ds)"
  "topic_at (unregister nm e ds) k = (if k = nm then Some e else topic_at ds k)"
  "endpoint_count (unregister nm e ds) = endpoint_count ds - 1"
  "g_endpoints (unregister nm e ds) = unat (endpoint_count (unregister nm e ds))"
  "g_matches (unregister nm e ds) = match_total (unregister nm e ds)"
  by (simp_all add: register_def unregister_def UpdateGauges_def topic_at_def put_topic_def map_of_put match_total_def)

section \<open>The invariant\<close>

text \<open>\<open>is_rpc\<close> tells the type ids of \<^verbatim>\<open>RpcTag<Req, Rsp>\<close> from those of payload types.\<close>

fun entry_ok :: "(string \<Rightarrow> bool) \<Rightarrow> ('s, 'q, 'req, 'rsp) entry \<Rightarrow> bool" where
  "entry_ok is_rpc (TopicE t) \<longleftrightarrow> \<not> is_rpc (type_id t) \<and> wf_topic t"
| "entry_ok is_rpc (RpcE t) \<longleftrightarrow> is_rpc (type_id t)"

fun fits :: "role \<Rightarrow> ('s, 'q, 'req, 'rsp) entry \<Rightarrow> bool" where
  "fits RPub (TopicE t) = True"
| "fits (RSub None) (TopicE t) = True"
| "fits (RSub (Some p)) (TopicE t) = connected t p"
| "fits RServer (RpcE t) = True"
| "fits RClient (RpcE t) = True"
| "fits _ _ = False"

definition seated :: "('s, 'q, 'req, 'rsp) DomainState \<Rightarrow> string \<times> string \<times> role \<Rightarrow> bool" where
  "seated ds x = (case x of (nm, ty, r) \<Rightarrow> \<exists>e. topic_at ds nm = Some e \<and> e_type e = ty \<and> fits r e)"

definition apart :: "(string \<times> string \<times> role) option list \<Rightarrow> bool" where
  "apart xs \<longleftrightarrow> (\<forall>i j nm ty ty' p. i < length xs \<longrightarrow> j < length xs \<longrightarrow> xs ! i = Some (nm, ty, RSub (Some p)) \<longrightarrow>
     xs ! j = Some (nm, ty', RSub (Some p)) \<longrightarrow> i = j)"

definition counts :: "string \<Rightarrow> ('s, 'q, 'req, 'rsp) entry \<Rightarrow> (string \<times> string \<times> role) option list \<Rightarrow> bool" where
  "counts nm e xs \<longleftrightarrow> e_pubs e = of_nat (cnt (pub_seat nm) xs) \<and> e_subs e = of_nat (cnt (sub_seat nm) xs)"

definition dom_inv :: "(string \<Rightarrow> bool) \<Rightarrow> ('s, 'q, 'req, 'rsp) DomainState \<Rightarrow> (string \<times> string \<times> role) option list \<Rightarrow> bool" where
  "dom_inv is_rpc ds xs \<longleftrightarrow>
     (\<forall>nm e. topic_at ds nm = Some e \<longrightarrow> entry_ok is_rpc e \<and> counts nm e xs) \<and>
     (\<forall>x. Some x \<in> set xs \<longrightarrow> seated ds x) \<and> apart xs \<and>
     endpoint_count ds = of_nat (cnt (\<lambda>_. True) xs) \<and>
     g_endpoints ds = unat (endpoint_count ds) \<and> g_matches ds = match_total ds"

lemma dom_invD:
  assumes "dom_inv is_rpc ds xs"
  shows "topic_at ds nm = Some e \<Longrightarrow> entry_ok is_rpc e" "topic_at ds nm = Some e \<Longrightarrow> counts nm e xs"
    "Some x \<in> set xs \<Longrightarrow> seated ds x" "apart xs" "endpoint_count ds = of_nat (cnt (\<lambda>_. True) xs)"
    "g_endpoints ds = unat (endpoint_count ds)" "g_matches ds = match_total ds"
  using assms unfolding dom_inv_def by blast+

lemma dom_inv_init: "dom_inv is_rpc DomainState_init []"
  by (simp add: dom_inv_def DomainState_init_def topic_at_def apart_def match_total_def)

text \<open>An entry replaced by one of the same shape: what the publish, take and call verbs do.\<close>

fun same_shape :: "('s, 'q, 'req, 'rsp) entry \<Rightarrow> ('s, 'q, 'req, 'rsp) entry \<Rightarrow> bool" where
  "same_shape (TopicE t) (TopicE u) \<longleftrightarrow> type_id u = type_id t \<and> publisher_count u = publisher_count t \<and>
     subscriber_count u = subscriber_count t \<and> sub_slots u = sub_slots t \<and> (wf_topic t \<longrightarrow> wf_topic u)"
| "same_shape (RpcE t) (RpcE u) \<longleftrightarrow> type_id u = type_id t \<and> publisher_count u = publisher_count t \<and>
     subscriber_count u = subscriber_count t"
| "same_shape _ _ = False"

lemma same_shapeD:
  assumes "same_shape e f"
  shows "e_type f = e_type e" "e_pubs f = e_pubs e" "e_subs f = e_subs e" "fits r f = fits r e"
    "entry_ok is_rpc e \<Longrightarrow> entry_ok is_rpc f"
  using assms by (cases e; cases f; cases "(r, e)" rule: fits.cases; auto simp: connected_def)+

lemma dom_inv_put:
  assumes inv: "dom_inv is_rpc ds xs" and e: "topic_at ds nm = Some e" "same_shape e f"
  shows "dom_inv is_rpc (put_topic nm f ds) xs"
proof -
  note sh = same_shapeD [OF e(2)]
  have "counts nm f xs" using dom_invD(2) [OF inv e(1)] sh by (simp add: counts_def)
  moreover have "seated (put_topic nm f ds) x" if "seated ds x" for x
    using that e(1) sh by (auto simp: seated_def)
  moreover have "match_total (put_topic nm f ds) = match_total ds"
    using match_total_put(1) [OF e(1)] sh by (simp add: weight_def)
  ultimately show ?thesis
    using inv e(1) sh(5) dom_invD(1) [OF inv e(1)] by (auto simp: dom_inv_def)
qed

text \<open>A new entry: \<^verbatim>\<open>topics_[name]\<close> on a name not seen before.\<close>

lemma dom_inv_make:
  assumes inv: "dom_inv is_rpc ds xs" and e: "topic_at ds nm = None" "entry_ok is_rpc e" "e_pubs e = 0" "e_subs e = 0"
  shows "dom_inv is_rpc (put_topic nm e ds) xs"
proof -
  have none: "n \<noteq> nm" if "Some (n, ty, r) \<in> set xs" for n ty r
    using dom_invD(3) [OF inv that] e(1) by (auto simp: seated_def)
  then have "cnt (pub_seat nm) xs = 0" "cnt (sub_seat nm) xs = 0"
    by (auto simp: pub_seat_def sub_seat_def intro!: cnt_0)
  then have "counts nm e xs" using e by (simp add: counts_def)
  moreover have "seated (put_topic nm e ds) x" if "seated ds x" for x
    using that e(1) by (auto simp: seated_def)
  moreover have "match_total (put_topic nm e ds) = match_total ds"
    using match_total_put(2) [OF e(1)] e by (simp add: weight_def)
  ultimately show ?thesis using inv e(2) by (auto simp: dom_inv_def)
qed

text \<open>A handle takes a seat, or leaves it.\<close>

lemma dom_inv_register:
  assumes inv: "dom_inv is_rpc ds xs" and e: "topic_at ds nm = Some e"
    and f: "e_type f = ty" "e_type e = ty" "fits r f" "entry_ok is_rpc f" "\<And>r'. fits r' e \<Longrightarrow> fits r' f"
    and c: "e_pubs f = e_pubs e + (if pub_seat nm (nm, ty, r) then 1 else 0)" "e_subs f = e_subs e + (if sub_seat nm (nm, ty, r) then 1 else 0)"
    and new: "apart (xs @ [Some (nm, ty, r)])"
  shows "dom_inv is_rpc (register nm f ds) (xs @ [Some (nm, ty, r)])"
proof -
  let ?xs = "xs @ [Some (nm, ty, r)]"
  have "counts nm f ?xs" using dom_invD(2) [OF inv e] c by (simp add: counts_def add.commute)
  moreover have "counts k g ?xs" if "topic_at ds k = Some g" "k \<noteq> nm" for k g
    using dom_invD(2) [OF inv that(1)] that(2) by (simp add: counts_def pub_seat_def sub_seat_def)
  moreover have "seated (register nm f ds) x" if "Some x \<in> set ?xs" for x
  proof (cases "Some x \<in> set xs")
    case True
    then show ?thesis using dom_invD(3) [OF inv True] e f by (auto simp: seated_def)
  qed (use that f in \<open>simp add: seated_def\<close>)
  moreover have "entry_ok is_rpc g" if "topic_at ds k = Some g" for k g by (rule dom_invD(1) [OF inv that])
  ultimately show ?thesis
    using new f(4) dom_invD(5) [OF inv] by (simp add: dom_inv_def add.commute)
qed

lemma apart_remove: "apart xs \<Longrightarrow> apart (xs[i := None])"
  by (auto simp: apart_def nth_list_update_if split: if_splits)

lemma dom_inv_unregister:
  assumes inv: "dom_inv is_rpc ds xs" and e: "topic_at ds nm = Some e"
    and i: "i < length xs" "xs ! i = Some (nm, ty, r)"
    and f: "e_type f = e_type e" "entry_ok is_rpc f"
      "\<And>j ty' r'. j < length xs \<Longrightarrow> j \<noteq> i \<Longrightarrow> xs ! j = Some (nm, ty', r') \<Longrightarrow> fits r' e \<Longrightarrow> fits r' f"
    and c: "e_pubs f = e_pubs e - (if pub_seat nm (nm, ty, r) then 1 else 0)" "e_subs f = e_subs e - (if sub_seat nm (nm, ty, r) then 1 else 0)"
  shows "dom_inv is_rpc (unregister nm f ds) (xs[i := None])"
proof -
  let ?xs = "xs[i := None]"
  note cr = cnt_remove [OF i]
  have "counts nm f ?xs"
    using dom_invD(2) [OF inv e] c cr [of "pub_seat nm"] cr [of "sub_seat nm"] by (simp add: counts_def)
  moreover have "counts k g ?xs" if "topic_at ds k = Some g" "k \<noteq> nm" for k g
    using dom_invD(2) [OF inv that(1)] that(2) cr [of "pub_seat k"] cr [of "sub_seat k"] by (simp add: counts_def pub_seat_def sub_seat_def)
  moreover have "seated (unregister nm f ds) x" if "Some x \<in> set ?xs" for x
  proof -
    from that obtain j where j: "j < length xs" "j \<noteq> i" "xs ! j = Some x"
      by (auto simp: in_set_conv_nth nth_list_update_if split: if_splits)
    then have "Some x \<in> set xs" by (metis nth_mem)
    from dom_invD(3) [OF inv this] show ?thesis using j f e by (auto simp: seated_def split: prod.splits)
  qed
  moreover have "entry_ok is_rpc g" if "topic_at ds k = Some g" for k g by (rule dom_invD(1) [OF inv that])
  moreover have "endpoint_count ds - 1 = of_nat (cnt (\<lambda>_. True) ?xs)"
    using dom_invD(5) [OF inv] cr [of "\<lambda>_. True"] by simp
  ultimately show ?thesis
    using f(2) apart_remove [OF dom_invD(4) [OF inv]] by (simp add: dom_inv_def)
qed

section \<open>Wiring keeps the invariant\<close>

definition wired :: "('a, 's, 'q) EndpointImpl \<Rightarrow> bool" where
  "wired ep \<longleftrightarrow> (ep_topic ep = None \<longleftrightarrow> kind_role (ep_kind ep) = None)"

lemma dom_inv_none: "dom_inv is_rpc ds xs \<Longrightarrow> dom_inv is_rpc ds (xs @ [None])"
  by (auto simp: dom_inv_def counts_def apart_def nth_append split: if_splits)

lemma apart_other: "apart xs \<Longrightarrow> (\<And>p. r \<noteq> RSub (Some p)) \<Longrightarrow> apart (xs @ [Some (nm, ty, r)])"
  by (auto simp: apart_def nth_append split: if_splits)

lemma apart_new:
  assumes "apart xs" "\<And>ty'. Some (nm, ty', RSub (Some p)) \<notin> set xs"
  shows "apart (xs @ [Some (nm, ty, RSub (Some p))])"
proof -
  have "xs ! j \<noteq> Some (nm, ty', RSub (Some p))" if "j < length xs" for j ty'
    using assms(2) nth_mem [OF that] by metis
  then show ?thesis using assms(1) by (auto simp: apart_def nth_append split: if_splits)
qed

lemma find_or_make_inv:
  assumes "dom_inv is_rpc ds xs" "find_or_make nm fresh ds = (e, ds1)" "entry_ok is_rpc fresh" "e_pubs fresh = 0" "e_subs fresh = 0"
  shows "dom_inv is_rpc ds1 xs \<and> topic_at ds1 nm = Some e"
  using assms dom_inv_make [OF assms(1), of nm fresh] by (auto simp: find_or_make_def split: option.splits)

lemma fresh_ok:
  "\<not> is_rpc ty \<Longrightarrow> entry_ok is_rpc (TopicE (Topic_init X nm h ty))" "e_pubs (TopicE (Topic_init X nm h ty)) = 0"
  "e_subs (TopicE (Topic_init X nm h ty)) = 0"
  "is_rpc ty \<Longrightarrow> entry_ok is_rpc (RpcE (RpcTopic_init nm h ty))" "e_pubs (RpcE (RpcTopic_init nm h ty)) = 0"
  "e_subs (RpcE (RpcTopic_init nm h ty)) = 0"
  using wf_topic_init [of X nm h ty] by (simp_all add: Topic_init_def RpcTopic_init_def)

lemma make_topic_inv:
  assumes "dom_inv is_rpc ds xs" "\<not> is_rpc ty" "find_or_make nm (TopicE (Topic_init X nm h ty)) ds = (e, ds1)"
  shows "dom_inv is_rpc ds1 xs \<and> topic_at ds1 nm = Some e"
  by (rule find_or_make_inv [OF assms(1,3)]) (simp_all only: fresh_ok assms(2) not_False_eq_True)

lemma make_rpc_inv:
  assumes "dom_inv is_rpc ds xs" "is_rpc ty" "find_or_make nm (RpcE (RpcTopic_init nm h ty)) ds = (e, ds1)"
  shows "dom_inv is_rpc ds1 xs \<and> topic_at ds1 nm = Some e"
  by (rule find_or_make_inv [OF assms(1,3)]) (simp_all only: fresh_ok assms(2))

lemma fits_topic: "sub_slots u = sub_slots t \<Longrightarrow> fits r (TopicE t) \<Longrightarrow> fits r (TopicE u)"
  by (cases "(r, TopicE t)" rule: fits.cases) (auto simp: connected_def)

lemma fits_rpc: "fits r (RpcE t) \<Longrightarrow> fits r (RpcE u)"
  by (cases "(r, RpcE t)" rule: fits.cases) auto

lemma same_shape_refl: "same_shape e e"
  by (cases e) auto

lemma seat_simps [simp]:
  "seat (EndpointImpl_init k ty) = None" "seat (ep\<lparr>is_publisher := b\<rparr>) = seat ep"
  "seat (ep\<lparr>advertise_status := a\<rparr>) = seat ep" "seat (ep\<lparr>subscribe_status := d\<rparr>) = seat ep"
  by (simp_all add: seat_def EndpointImpl_init_def split: option.splits)

lemma Advertise_inv:
  fixes X :: "('a, 's, 'q, 'c) XmBase"
  assumes inv: "dom_inv is_rpc ds xs" and ty: "\<not> is_rpc ty"
  shows "\<exists>ep ds'. Advertise X hash ty nm qos ds = Some (ep, ds') \<and> dom_inv is_rpc ds' (xs @ [seat ep]) \<and> wired ep"
proof -
  obtain e ds1 where f: "find_or_make nm (TopicE (Topic_init X nm hash ty)) ds = (e, ds1)" by fastforce
  have e: "dom_inv is_rpc ds1 xs" "topic_at ds1 nm = Some e"
    using make_topic_inv [OF inv ty f] by simp_all
  show ?thesis
  proof (cases "e_hash e \<noteq> hash \<or> e_type e \<noteq> ty")
    case True
    then show ?thesis using f dom_inv_none [OF e(1)] by (simp add: Advertise_def wired_def EndpointImpl_init_def seat_def)
  next
    case False
    then obtain t where t: "e = TopicE t" using dom_invD(1) [OF e] ty by (cases e) auto
    obtain st core t' where a: "AddPublisher qos t = (st, core :: 'a PubCore option, t')" by (metis prod_cases3)
    note fr = AddPublisher_frame [OF a]
    have "\<not> is_rpc (type_id t) \<and> wf_topic t" using dom_invD(1) [OF e] t by simp
    moreover have t': "type_id t' = type_id t" "subscriber_count t' = subscriber_count t"
      "st = Advertise_kOk \<Longrightarrow> publisher_count t' = publisher_count t + 1 \<and> core \<noteq> None" "st \<noteq> Advertise_kOk \<Longrightarrow> t' = t"
      using a by (auto simp: AddPublisher_def split: if_splits)
    ultimately have ok: "entry_ok is_rpc (TopicE t')" using fr(1) by simp
    show ?thesis
    proof (cases "st = Advertise_kOk")
      case True
      have "dom_inv is_rpc (register nm (TopicE t') ds1) (xs @ [Some (nm, ty, RPub)])"
      proof (rule dom_inv_register [OF e(1)])
        show "topic_at ds1 nm = Some (TopicE t)" using e t by simp
      qed (use True t t' ok False fr fits_topic apart_other dom_invD(4) [OF e(1)] in \<open>auto simp: pub_seat_def sub_seat_def\<close>)
      then show ?thesis using f False t a True t'(3) by (auto simp: Advertise_def wired_def EndpointImpl_init_def seat_def Let_def)
    next
      case refused: False
      have "dom_inv is_rpc (put_topic nm (TopicE t') ds1) (xs @ [None])"
        using dom_inv_none [OF dom_inv_put [OF e same_shape_refl]] t t'(4) refused by simp
      then show ?thesis using f False t a refused by (auto simp: Advertise_def wired_def EndpointImpl_init_def seat_def Let_def)
    qed
  qed
qed

lemma connected_attach:
  assumes "connected t p" shows "connected (snd (attach_core c t)) p"
  using assms attach_core_keeps attach_core_slots(1) unfolding connected_def in_set_conv_nth by metis

lemma AddSubscriber_cases:
  assumes "AddSubscriber X qos t = (core, t')"
  shows "type_id t' = type_id t" "publisher_count t' = publisher_count t" "wf_topic t \<Longrightarrow> wf_topic t'"
    "\<And>p. connected t p \<Longrightarrow> connected t' p"
    "(\<exists>c. core = Unconnected c \<and> t' = t) \<or> (core = Retained (length (sub_retained t)) \<and>
       subscriber_count t' = subscriber_count t + 1 \<and> connected t' (length (sub_retained t)))"
proof -
  show "type_id t' = type_id t" "publisher_count t' = publisher_count t"
    using assms by (auto simp: AddSubscriber_def attach_core_def split: option.splits)
  show "wf_topic t \<Longrightarrow> wf_topic t'" using wf_topic_AddSubscriber [of t X qos] assms by simp
  show "\<And>p. connected t p \<Longrightarrow> connected t' p" using connected_attach assms unfolding AddSubscriber_def by (metis snd_conv)
  show "(\<exists>c. core = Unconnected c \<and> t' = t) \<or> (core = Retained (length (sub_retained t)) \<and>
       subscriber_count t' = subscriber_count t + 1 \<and> connected t' (length (sub_retained t)))"
    using assms by (auto simp: AddSubscriber_def attach_core_def free_slot_def connected_def set_update_memI
      split: option.splits dest!: scan_SomeD)
qed

lemma fits_grow: "(\<And>p. connected t p \<Longrightarrow> connected u p) \<Longrightarrow> fits r (TopicE t) \<Longrightarrow> fits r (TopicE u)"
  by (cases "(r, TopicE t)" rule: fits.cases) auto

lemma Subscribe_inv:
  fixes X :: "('a, 's, 'q, 'c) XmBase"
  assumes inv: "dom_inv is_rpc ds xs" and ty: "\<not> is_rpc ty"
  shows "\<exists>ep ds'. Subscribe X hash ty nm qos ds = Some (ep, ds') \<and> dom_inv is_rpc ds' (xs @ [seat ep]) \<and> wired ep"
proof -
  obtain e ds1 where f: "find_or_make nm (TopicE (Topic_init X nm hash ty)) ds = (e, ds1)" by fastforce
  have e: "dom_inv is_rpc ds1 xs" "topic_at ds1 nm = Some e" using make_topic_inv [OF inv ty f] by simp_all
  show ?thesis
  proof (cases "e_hash e \<noteq> hash \<or> e_type e \<noteq> ty")
    case True
    then show ?thesis using f dom_inv_none [OF e(1)] by (simp add: Subscribe_def wired_def EndpointImpl_init_def seat_def)
  next
    case False
    then obtain t where t: "e = TopicE t" using dom_invD(1) [OF e] ty by (cases e) auto
    have wf: "wf_topic t" "\<not> is_rpc (type_id t)" using dom_invD(1) [OF e] t by simp_all
    obtain core t' where a: "AddSubscriber X qos t = (core, t')" by fastforce
    note ac = AddSubscriber_cases [OF a]
    define r where "r = RSub (case core of Retained p \<Rightarrow> Some p | Unconnected _ \<Rightarrow> None)"
    have new: "Some (nm, ty', RSub (Some (length (sub_retained t)))) \<notin> set xs" for ty'
    proof
      assume "Some (nm, ty', RSub (Some (length (sub_retained t)))) \<in> set xs"
      from dom_invD(3) [OF e(1) this] have "connected t (length (sub_retained t))" using e(2) t by (auto simp: seated_def)
      from connected_bound [OF wf(1) this] show False by simp
    qed
    have "dom_inv is_rpc (register nm (TopicE t') ds1) (xs @ [Some (nm, ty, r)])"
    proof (rule dom_inv_register [OF e(1)])
      show "topic_at ds1 nm = Some (TopicE t)" using e t by simp
      show "apart (xs @ [Some (nm, ty, r)])"
        using ac(5) apart_new [OF dom_invD(4) [OF e(1)] new] apart_other [OF dom_invD(4) [OF e(1)]] by (auto simp: r_def)
      show "fits r' (TopicE t')" if "fits r' (TopicE t)" for r' by (rule fits_grow [OF ac(4) that])
    qed (use ac t wf False in \<open>auto simp: pub_seat_def sub_seat_def r_def\<close>)
    moreover have "kind_role (SubImpl (Some core)) = Some r" by (cases core) (auto simp: r_def)
    ultimately show ?thesis using f False t a
      by (auto simp: Subscribe_def wired_def EndpointImpl_init_def seat_def Let_def)
  qed
qed

lemma Serve_inv:
  assumes inv: "dom_inv is_rpc ds xs" and ty: "is_rpc ty"
  shows "\<exists>ep ds'. Serve hash ty nm ds = Some (ep, ds') \<and> dom_inv is_rpc ds' (xs @ [seat ep]) \<and> wired ep"
proof -
  obtain e ds1 where f: "find_or_make nm (RpcE (RpcTopic_init nm hash ty)) ds = (e, ds1)" by fastforce
  have e: "dom_inv is_rpc ds1 xs" "topic_at ds1 nm = Some e" using make_rpc_inv [OF inv ty f] by simp_all
  show ?thesis
  proof (cases "e_hash e \<noteq> hash \<or> e_type e \<noteq> ty")
    case True
    then show ?thesis using f dom_inv_none [OF e(1)] by (simp add: Serve_def wired_def EndpointImpl_init_def seat_def)
  next
    case False
    then obtain t where t: "e = RpcE t" using dom_invD(1) [OF e] ty by (cases e) auto
    obtain st t' where a: "AddServer t = (st, t')" by fastforce
    have t': "type_id t' = type_id t" "subscriber_count t' = subscriber_count t"
      "st = Advertise_kOk \<Longrightarrow> publisher_count t' = publisher_count t + 1" "st \<noteq> Advertise_kOk \<Longrightarrow> t' = t"
      using a by (auto simp: AddServer_def split: if_splits)
    show ?thesis
    proof (cases "st = Advertise_kOk")
      case True
      have "dom_inv is_rpc (register nm (RpcE t') ds1) (xs @ [Some (nm, ty, RServer)])"
      proof (rule dom_inv_register [OF e(1)])
        show "topic_at ds1 nm = Some (RpcE t)" using e t by simp
      qed (use True t t' False ty fits_rpc apart_other dom_invD(4) [OF e(1)] in \<open>auto simp: pub_seat_def sub_seat_def\<close>)
      then show ?thesis using f False t a True by (auto simp: Serve_def wired_def EndpointImpl_init_def seat_def Let_def)
    next
      case refused: False
      have "dom_inv is_rpc (put_topic nm (RpcE t') ds1) (xs @ [None])"
        using dom_inv_none [OF dom_inv_put [OF e same_shape_refl]] t t'(4) refused by simp
      then show ?thesis using f False t a refused by (auto simp: Serve_def wired_def EndpointImpl_init_def seat_def Let_def)
    qed
  qed
qed

lemma Client_inv:
  assumes inv: "dom_inv is_rpc ds xs" and ty: "is_rpc ty"
  shows "\<exists>ep ds'. Domain_Client hash ty nm ds = Some (ep, ds') \<and> dom_inv is_rpc ds' (xs @ [seat ep]) \<and> wired ep"
proof -
  obtain e ds1 where f: "find_or_make nm (RpcE (RpcTopic_init nm hash ty)) ds = (e, ds1)" by fastforce
  have e: "dom_inv is_rpc ds1 xs" "topic_at ds1 nm = Some e" using make_rpc_inv [OF inv ty f] by simp_all
  show ?thesis
  proof (cases "e_hash e \<noteq> hash \<or> e_type e \<noteq> ty")
    case True
    then show ?thesis using f dom_inv_none [OF e(1)] by (simp add: Domain_Client_def wired_def EndpointImpl_init_def seat_def)
  next
    case False
    then obtain t where t: "e = RpcE t" using dom_invD(1) [OF e] ty by (cases e) auto
    have "dom_inv is_rpc (register nm (RpcE (AddClient t)) ds1) (xs @ [Some (nm, ty, RClient)])"
    proof (rule dom_inv_register [OF e(1)])
      show "topic_at ds1 nm = Some (RpcE t)" using e t by simp
    qed (use t False ty fits_rpc apart_other dom_invD(4) [OF e(1)] in \<open>auto simp: pub_seat_def sub_seat_def AddClient_def\<close>)
    then show ?thesis using f False t by (auto simp: Domain_Client_def wired_def EndpointImpl_init_def seat_def Let_def)
  qed
qed

section \<open>Teardown\<close>

lemma RemoveSubscriber_count:
  "connected t p \<Longrightarrow> subscriber_count (RemoveSubscriber (Retained p) t) = subscriber_count t - 1"
  "type_id (RemoveSubscriber c t) = type_id t" "publisher_count (RemoveSubscriber c t) = publisher_count t"
proof -
  assume "connected t p"
  then have "\<exists>i < length (sub_slots t). sub_slots t ! i = Some p" by (auto simp: connected_def in_set_conv_nth)
  from scan_total [OF this] obtain i where "scan (length (sub_slots t)) (\<lambda>i. sub_slots t ! i = Some p) = Some i" ..
  then show "subscriber_count (RemoveSubscriber (Retained p) t) = subscriber_count t - 1" by (simp add: RemoveSubscriber_def)
qed (auto simp: RemoveSubscriber_def split: core_ptr.splits option.splits)

lemma RemoveSubscriber_other:
  assumes "connected t q" "q \<noteq> p"
  shows "connected (RemoveSubscriber (Retained p) t) q"
proof -
  obtain j where j: "j < length (sub_slots t)" "sub_slots t ! j = Some q"
    using assms(1) by (auto simp: connected_def in_set_conv_nth)
  have "sub_slots (RemoveSubscriber (Retained p) t) ! j = Some q"
    using j assms(2) by (auto simp: RemoveSubscriber_def nth_list_update_if split: option.splits dest!: scan_SomeD)
  moreover have "j < length (sub_slots (RemoveSubscriber (Retained p) t))" using j(1) RemoveSubscriber_slots(1) by metis
  ultimately show ?thesis unfolding connected_def in_set_conv_nth by blast
qed

lemma seats_nth: "i < length es \<Longrightarrow> es ! i = Some ep \<Longrightarrow> seats es ! i = seat ep"
  by (simp add: seats_def)

lemma seats_simps [simp]: "length (seats es) = length es" "seats [] = []" "seats (es @ [Some ep]) = seats es @ [seat ep]"
  "seats (es[i := None]) = (seats es)[i := None]" "seats (es[i := Some ep]) = (seats es)[i := seat ep]"
  by (simp_all add: seats_def map_update)

lemma fits_remove:
  assumes "apart xs" "i < length xs" "xs ! i = Some (nm, ty, RSub (Some p))"
    and "j < length xs" "j \<noteq> i" "xs ! j = Some (nm, ty', r')" "fits r' (TopicE t)"
  shows "fits r' (TopicE (RemoveSubscriber (Retained p) t))"
proof (cases "\<exists>q. r' = RSub (Some q)")
  case True
  then obtain q where q: "r' = RSub (Some q)" by blast
  then have "q \<noteq> p" using assms unfolding apart_def by metis
  then show ?thesis using assms(7) q RemoveSubscriber_other by simp
next
  case False
  then show ?thesis using assms(7) by (cases "(r', TopicE t)" rule: fits.cases) auto
qed

lemma leave_inv:
  assumes inv: "dom_inv is_rpc ds (seats es)" and e: "topic_at ds nm = Some (TopicE t)" "fits r (TopicE t)"
    and at: "i < length (seats es)" "seats es ! i = Some (nm, ty, r)"
    and r: "r = RSub (case core of Retained p \<Rightarrow> Some p | Unconnected _ \<Rightarrow> None)"
  shows "dom_inv is_rpc (unregister nm (TopicE (RemoveSubscriber core t)) ds) ((seats es)[i := None])"
proof (cases core)
  case (Retained p)
  note un = dom_inv_unregister [OF inv e(1) at] and ok = dom_invD(1) [OF inv e(1)]
  have con: "connected t p" using e(2) r Retained by simp
  show ?thesis
  proof (rule un)
    show "fits r' (TopicE (RemoveSubscriber core t))"
      if "j < length (seats es)" "j \<noteq> i" "seats es ! j = Some (nm, ty', r')" "fits r' (TopicE t)" for j ty' r'
      using fits_remove [OF dom_invD(4) [OF inv] at(1), of nm ty p j ty' r' t] that at(2) r Retained by simp
  qed (use r Retained con ok in \<open>auto simp: pub_seat_def sub_seat_def RemoveSubscriber_count wf_topic_RemoveSubscriber\<close>)
next
  case (Unconnected u)
  then have "RemoveSubscriber core t = t" by (simp add: RemoveSubscriber_def)
  then show ?thesis
    by (intro dom_inv_unregister [OF inv e(1) at])
      (use r Unconnected dom_invD(1) [OF inv e(1)] in \<open>auto simp: pub_seat_def sub_seat_def\<close>)
qed

lemma dtor_inv:
  assumes inv: "dom_inv is_rpc ds (seats es)" and i: "i < length es" "es ! i = Some ep" and w: "wired ep"
  shows "\<exists>ds'. EndpointImpl_dtor ep ds = Some ds' \<and> dom_inv is_rpc ds' ((seats es)[i := None])"
proof (cases "seat ep")
  case None
  then have n: "ep_topic ep = None" using w by (auto simp: seat_def wired_def split: option.splits)
  have "(seats es)[i := None] = seats es" using None seats_nth [OF i] by (metis list_update_id)
  then show ?thesis using n inv by (simp add: EndpointImpl_dtor_def)
next
  case (Some x)
  then obtain nm r where x: "x = (nm, ep_type ep, r)" "ep_topic ep = Some nm" "kind_role (ep_kind ep) = Some r"
    by (auto simp: seat_def split: option.splits)
  have at: "i < length (seats es)" "seats es ! i = Some (nm, ep_type ep, r)" using seats_nth [OF i] Some x i by simp_all
  then have "Some (nm, ep_type ep, r) \<in> set (seats es)" by (metis nth_mem)
  from dom_invD(3) [OF inv this] obtain e where e: "topic_at ds nm = Some e" "e_type e = ep_type ep" "fits r e"
    by (auto simp: seated_def)
  have ok: "entry_ok is_rpc e" by (rule dom_invD(1) [OF inv e(1)])
  note un = dom_inv_unregister [OF inv e(1) at]
  show ?thesis
  proof (cases "ep_kind ep")
    case (PubImpl c)
    then obtain t core where t: "c = Some core" "r = RPub" "e = TopicE t" using x e(3) by (cases c; cases e) auto
    have "dom_inv is_rpc (unregister nm (TopicE (RemovePublisher t)) ds) ((seats es)[i := None])"
    proof (rule un)
      show "fits r' (TopicE (RemovePublisher t))" if "fits r' e" for r'
        by (rule fits_topic [OF _ that [unfolded t(3)]]) simp
    qed (use t ok in \<open>auto simp: RemovePublisher_def wf_topic_def pub_seat_def sub_seat_def\<close>)
    then show ?thesis using PubImpl t x e by (simp add: EndpointImpl_dtor_def)
  next
    case (SubImpl c)
    then obtain core where c: "c = Some core" using x by (cases c) auto
    then have r: "r = RSub (case core of Retained p \<Rightarrow> Some p | Unconnected _ \<Rightarrow> None)"
      using SubImpl x by (cases core) auto
    then obtain t where t: "e = TopicE t" using e(3) by (cases e; cases core) auto
    have "dom_inv is_rpc (unregister nm (TopicE (RemoveSubscriber core t)) ds) ((seats es)[i := None])"
      by (rule leave_inv [OF inv _ _ at r]) (use e t in simp_all)
    then show ?thesis using SubImpl c t x e by (simp add: EndpointImpl_dtor_def)
  next
    case (ServerImpl b)
    then obtain t where t: "b" "r = RServer" "e = RpcE t" using x e(3) by (cases b; cases e) auto
    have "dom_inv is_rpc (unregister nm (RpcE (RemoveServer t)) ds) ((seats es)[i := None])"
      by (rule un) (use t ok fits_rpc in \<open>auto simp: RemoveServer_def pub_seat_def sub_seat_def\<close>)
    then show ?thesis using ServerImpl t x e by (simp add: EndpointImpl_dtor_def)
  next
    case (ClientImpl b)
    then obtain t where t: "b" "r = RClient" "e = RpcE t" using x e(3) by (cases b; cases e) auto
    have "dom_inv is_rpc (unregister nm (RpcE (RemoveClient t)) ds) ((seats es)[i := None])"
      by (rule un) (use t ok fits_rpc in \<open>auto simp: RemoveClient_def pub_seat_def sub_seat_def\<close>)
    then show ?thesis using ClientImpl t x e by (simp add: EndpointImpl_dtor_def)
  qed
qed

section \<open>The verbs keep the invariant\<close>

lemma wired_topic:
  assumes inv: "dom_inv is_rpc ds (seats es)" and i: "i < length es" "es ! i = Some ep"
    and r: "ep_topic ep = Some nm" "kind_role (ep_kind ep) = Some r"
  obtains e where "topic_at ds nm = Some e" "fits r e" "entry_ok is_rpc e" "e_type e = ep_type ep"
proof -
  have "Some (nm, ep_type ep, r) \<in> set (seats es)"
    using seats_nth [OF i] r i(1) by (metis (no_types, lifting) seat_def nth_mem option.case(2) prod.case seats_simps(1))
  from dom_invD(3) [OF inv this] dom_invD(1) [OF inv] that show ?thesis by (auto simp: seated_def)
qed

lemma Deliver_shape: "Deliver X sz ctx now core val derived t = (st, core', t') \<Longrightarrow> same_shape (TopicE t) (TopicE t')"
  using wf_topic_Deliver [of t X sz ctx now core val derived]
  by (cases rule: Deliver_cases [of core X t sz ctx now val derived]) auto

lemma Publish_inv:
  assumes inv: "dom_inv is_rpc ds (seats es)" and i: "i < length es" "es ! i = Some ep" and w: "wired ep" "ep_kind ep = PubImpl c"
  shows "\<exists>st ep' ds'. Publisher_Publish X sz ctx now val derived ep ds = Some (st, ep', ds') \<and>
    dom_inv is_rpc ds' (seats es) \<and> seat ep' = seat ep \<and> wired ep' \<and> (\<exists>c'. ep_kind ep' = PubImpl c' \<and> (c' = None \<longleftrightarrow> c = None))"
proof (cases c)
  case None
  then show ?thesis using w inv by (auto simp: Publisher_Publish_def split: option.splits)
next
  case (Some core)
  then obtain nm where nm: "ep_topic ep = Some nm" using w by (auto simp: wired_def)
  obtain e where e: "topic_at ds nm = Some e" "fits RPub e" "e_type e = ep_type ep"
    by (rule wired_topic [OF inv i nm]) (use w Some in auto)
  then obtain t where t: "e = TopicE t" by (cases e) auto
  obtain st core' t' where d: "Deliver X sz ctx now core val derived t = (st, core', t')" by (metis prod_cases3)
  have "dom_inv is_rpc (put_topic nm (TopicE t') ds) (seats es)"
    using dom_inv_put [OF inv e(1)] Deliver_shape [OF d] t by simp
  then show ?thesis using w nm Some e t d by (auto simp: Publisher_Publish_def wired_def seat_def)
qed

lemma take_inv:
  assumes inv: "dom_inv is_rpc ds (seats es)" and i: "i < length es" "es ! i = Some ep" and w: "wired ep" "ep_kind ep = SubImpl c"
    and f: "\<And>u. wf_core u \<Longrightarrow> wf_core (snd (f u))"
  shows "\<exists>smp ep' ds'. on_core f none ep ds = Some (smp, ep', ds') \<and> dom_inv is_rpc ds' (seats es) \<and> seat ep' = seat ep \<and> wired ep'"
proof (cases "c = None")
  case True
  then show ?thesis using w inv by (simp add: on_core_def)
next
  case False
  then obtain cp where c: "c = Some cp" by blast
  show ?thesis
  proof (cases cp)
    case (Unconnected u)
    then show ?thesis using w inv c by (auto simp: on_core_def wired_def seat_def split: prod.splits)
  next
    case (Retained p)
    then obtain nm where nm: "ep_topic ep = Some nm" using w c by (auto simp: wired_def)
    obtain e where e: "topic_at ds nm = Some e" "fits (RSub (Some p)) e" "entry_ok is_rpc e"
      by (rule wired_topic [OF inv i nm]) (use w c Retained in auto)
    then obtain t where t: "e = TopicE t" "connected t p" "wf_topic t" by (cases e) auto
    obtain smp u where u: "f (sub_retained t ! p) = (smp, u)" by fastforce
    have "wf_core u" using f [of "sub_retained t ! p"] wf_topic_core [OF t(3) connected_bound [OF t(3,2)]] u by simp
    then have "wf_topic (set_core p u t)" using t wf_topic_set_core by blast
    then have "same_shape (TopicE t) (TopicE (t\<lparr>sub_retained := (sub_retained t)[p := u]\<rparr>))" by (simp add: set_core_def)
    from dom_inv_put [OF inv e(1), unfolded t(1), OF this] show ?thesis
      using w c Retained nm e t u by (simp add: on_core_def)
  qed
qed

lemma rpc_inv:
  assumes inv: "dom_inv is_rpc ds (seats es)" and i: "i < length es" "es ! i = Some ep" and w: "wired ep"
    and b: "b \<Longrightarrow> kind_role (ep_kind ep) = Some r" "r = RServer \<or> r = RClient"
    and f: "\<And>t. same_shape (RpcE t) (RpcE (snd (f t)))"
  shows "\<exists>v ds'. on_rpc safe f b ep ds = Some (v, ds') \<and> dom_inv is_rpc ds' (seats es)"
proof (cases b)
  case True
  then obtain nm where nm: "ep_topic ep = Some nm" using w b by (auto simp: wired_def)
  obtain e where e: "topic_at ds nm = Some e" "fits r e" "e_type e = ep_type ep" by (rule wired_topic [OF inv i nm b(1) [OF True]])
  then obtain t where t: "e = RpcE t" using b(2) by (cases e) auto
  obtain v t' where v: "f t = (v, t')" by fastforce
  have "dom_inv is_rpc (put_topic nm (RpcE t') ds) (seats es)"
    using dom_inv_put [OF inv e(1)] f [of t] v t by simp
  then show ?thesis using True nm e t v by (simp add: on_rpc_def)
qed (use inv in \<open>simp add: on_rpc_def\<close>)

lemma set_state_shape: "same_shape (RpcE t) (RpcE (set_state i st u)) = same_shape (RpcE t) (RpcE u)"
  "same_shape (RpcE t) (RpcE (upd_slot i g u)) = same_shape (RpcE t) (RpcE u)"
  by (simp_all add: set_state_def upd_slot_def)

lemma rpc_shapes:
  "same_shape (RpcE t) (RpcE (snd (TakeRequest X t)))" "same_shape (RpcE t) (RpcE (snd (Reply tok rsp t)))"
  "same_shape (RpcE t) (RpcE (snd (Call_begin X ctx now req t)))" "same_shape (RpcE t) (RpcE (snd (Call_finish b i t)))"
  by (auto simp: TakeRequest_def Reply_def Call_begin_def Call_finish_def Call_consume_def ReleaseSlot_def TryClaim_def call_fill_def
    cas_state_def Let_def set_state_shape simp del: same_shape.simps(2) split: option.splits)
     (simp_all add: set_state_def upd_slot_def)

section \<open>Programs over handles\<close>

datatype ('a, 'c, 'req, 'rsp) op =
  OAdvertise u64 string string Qos
| OSubscribe u64 string string Qos
| OServe u64 string string
| OClient u64 string string
| ODestroy nat
| OPublish nat u64 'c nanos 'a
| OLoan nat
| OPublishLoan nat u64 'c nanos Loan "(nanos \<times> u32) list"
| OTakeLatest nat nanos
| OTryTake nat nanos
| OTakeRequest nat
| OReply nat "('req, 'c) Request" 'rsp
| OCall nat 'c nanos 'req
| OFinish nat bool nat

definition add_ep :: "('a, 's, 'q, 'req, 'rsp) dom_sys \<Rightarrow> ('a, 's, 'q) EndpointImpl \<times> ('s, 'q, 'req, 'rsp) DomainState \<Rightarrow>
  ('a, 's, 'q, 'req, 'rsp) dom_sys" where
  "add_ep s = (\<lambda>(ep, ds). s\<lparr>dom_state := ds, eps := eps s @ [Some ep]\<rparr>)"

definition set_ep :: "('a, 's, 'q, 'req, 'rsp) dom_sys \<Rightarrow> nat \<Rightarrow> 'v \<times> ('a, 's, 'q) EndpointImpl \<times> ('s, 'q, 'req, 'rsp) DomainState \<Rightarrow>
  ('a, 's, 'q, 'req, 'rsp) dom_sys" where
  "set_ep s h = (\<lambda>(_, ep, ds). s\<lparr>dom_state := ds, eps := (eps s)[h := Some ep]\<rparr>)"

definition set_dom :: "('a, 's, 'q, 'req, 'rsp) dom_sys \<Rightarrow> 'v \<times> ('s, 'q, 'req, 'rsp) DomainState \<Rightarrow> ('a, 's, 'q, 'req, 'rsp) dom_sys" where
  "set_dom s = (\<lambda>(_, ds). s\<lparr>dom_state := ds\<rparr>)"

fun exec :: "('a, 's, 'q, 'c) XmBase \<Rightarrow> 'a \<Rightarrow> ('a, 'c, 'req, 'rsp) op \<Rightarrow> ('a, 's, 'q, 'req, 'rsp) dom_sys \<Rightarrow>
  ('a, 's, 'q, 'req, 'rsp) dom_sys option" where
  "exec X dflt (OAdvertise hash ty nm qos) s = map_option (add_ep s) (Advertise X hash ty nm qos (dom_state s))"
| "exec X dflt (OSubscribe hash ty nm qos) s = map_option (add_ep s) (Subscribe X hash ty nm qos (dom_state s))"
| "exec X dflt (OServe hash ty nm) s = map_option (add_ep s) (Serve hash ty nm (dom_state s))"
| "exec X dflt (OClient hash ty nm) s = map_option (add_ep s) (Domain_Client hash ty nm (dom_state s))"
| "exec X dflt (ODestroy h) s = Option.bind (ep_at s h) (\<lambda>ep.
     map_option (\<lambda>ds. s\<lparr>dom_state := ds, eps := (eps s)[h := None]\<rparr>) (EndpointImpl_dtor ep (dom_state s)))"
| "exec X dflt (OPublish h sz ctx now val) s = Option.bind (ep_at s h) (\<lambda>ep.
     map_option (set_ep s h) (Publisher_Publish X sz ctx now val None ep (dom_state s)))"
| "exec X dflt (OLoan h) s = Some (case pool_at s h of None \<Rightarrow> s | Some pool \<Rightarrow> set_pool h (snd (Acquire pool)) s)"
| "exec X dflt (OPublishLoan h sz ctx now loan upstream) s =
     map_option snd (Publisher_PublishLoan X dflt sz ctx now h loan upstream s)"
| "exec X dflt (OTakeLatest h now) s = Option.bind (ep_at s h) (\<lambda>ep.
     map_option (set_ep s h) (Subscriber_TakeLatest X now ep (dom_state s)))"
| "exec X dflt (OTryTake h now) s = Option.bind (ep_at s h) (\<lambda>ep.
     map_option (set_ep s h) (Subscriber_TryTake X now ep (dom_state s)))"
| "exec X dflt (OTakeRequest h) s = Option.bind (ep_at s h) (\<lambda>ep.
     map_option (set_dom s) (Server_TakeRequest X ep (dom_state s)))"
| "exec X dflt (OReply h req rsp) s = Option.bind (ep_at s h) (\<lambda>ep.
     map_option (set_dom s) (Server_Reply req rsp ep (dom_state s)))"
| "exec X dflt (OCall h ctx now req) s = Option.bind (ep_at s h) (\<lambda>ep.
     map_option (set_dom s) (Client_Call X ctx now req ep (dom_state s)))"
| "exec X dflt (OFinish h b i) s = Option.bind (ep_at s h) (\<lambda>ep.
     map_option (set_dom s) (Client_Call_finish b i ep (dom_state s)))"

text \<open>What the C++ types and lifetimes guarantee of a call: a verb runs on a live handle of its class, a loan's pool is
  alive, and the type ids of payloads and of \<^verbatim>\<open>RpcTag\<close>s differ.\<close>

definition kind_at :: "('a, 's, 'q, 'req, 'rsp) dom_sys \<Rightarrow> nat \<Rightarrow> ('a, 's, 'q) impl_kind option" where
  "kind_at s h = map_option ep_kind (ep_at s h)"

fun op_ok :: "(string \<Rightarrow> bool) \<Rightarrow> ('a, 'c, 'req, 'rsp) op \<Rightarrow> ('a, 's, 'q, 'req, 'rsp) dom_sys \<Rightarrow> bool" where
  "op_ok is_rpc (OAdvertise hash ty nm qos) s \<longleftrightarrow> \<not> is_rpc ty"
| "op_ok is_rpc (OSubscribe hash ty nm qos) s \<longleftrightarrow> \<not> is_rpc ty"
| "op_ok is_rpc (OServe hash ty nm) s \<longleftrightarrow> is_rpc ty"
| "op_ok is_rpc (OClient hash ty nm) s \<longleftrightarrow> is_rpc ty"
| "op_ok is_rpc (ODestroy h) s \<longleftrightarrow> ep_at s h \<noteq> None"
| "op_ok is_rpc (OPublish h sz ctx now val) s \<longleftrightarrow> (case kind_at s h of Some (PubImpl _) \<Rightarrow> True | _ \<Rightarrow> False)"
| "op_ok is_rpc (OLoan h) s \<longleftrightarrow> (case kind_at s h of Some (PubImpl _) \<Rightarrow> True | _ \<Rightarrow> False)"
| "op_ok is_rpc (OPublishLoan h sz ctx now loan upstream) s \<longleftrightarrow> (case kind_at s h of Some (PubImpl _) \<Rightarrow> True | _ \<Rightarrow> False) \<and>
     (case (loan_pool loan, loan_slot loan) of (Some p, Some i) \<Rightarrow> pool_at s p \<noteq> None | _ \<Rightarrow> True)"
| "op_ok is_rpc (OTakeLatest h now) s \<longleftrightarrow> (case kind_at s h of Some (SubImpl _) \<Rightarrow> True | _ \<Rightarrow> False)"
| "op_ok is_rpc (OTryTake h now) s \<longleftrightarrow> (case kind_at s h of Some (SubImpl _) \<Rightarrow> True | _ \<Rightarrow> False)"
| "op_ok is_rpc (OTakeRequest h) s \<longleftrightarrow> (case kind_at s h of Some (ServerImpl _) \<Rightarrow> True | _ \<Rightarrow> False)"
| "op_ok is_rpc (OReply h req rsp) s \<longleftrightarrow> (case kind_at s h of Some (ServerImpl _) \<Rightarrow> True | _ \<Rightarrow> False)"
| "op_ok is_rpc (OCall h ctx now req) s \<longleftrightarrow> (case kind_at s h of Some (ClientImpl _) \<Rightarrow> True | _ \<Rightarrow> False)"
| "op_ok is_rpc (OFinish h b i) s \<longleftrightarrow> (case kind_at s h of Some (ClientImpl _) \<Rightarrow> True | _ \<Rightarrow> False)"

inductive dom_reachable :: "('a, 's, 'q, 'c) XmBase \<Rightarrow> 'a \<Rightarrow> (string \<Rightarrow> bool) \<Rightarrow> ('a, 's, 'q, 'req, 'rsp) dom_sys \<Rightarrow> bool"
  for X :: "('a, 's, 'q, 'c) XmBase" and dflt :: 'a and is_rpc :: "string \<Rightarrow> bool" where
  start: "dom_reachable X dflt is_rpc \<lparr>dom_state = DomainState_init, eps = []\<rparr>"
| step: "dom_reachable X dflt is_rpc s \<Longrightarrow> op_ok is_rpc (p :: ('a, 'c, 'req, 'rsp) op) s \<Longrightarrow> exec X dflt p s = Some s' \<Longrightarrow>
    dom_reachable X dflt is_rpc s'"

definition sys_inv :: "(string \<Rightarrow> bool) \<Rightarrow> ('a, 's, 'q, 'req, 'rsp) dom_sys \<Rightarrow> bool" where
  "sys_inv is_rpc s \<longleftrightarrow> dom_inv is_rpc (dom_state s) (seats (eps s)) \<and> (\<forall>ep. Some ep \<in> set (eps s) \<longrightarrow> wired ep)"

lemma sys_inv_add: "dom_inv is_rpc ds (seats (eps s) @ [seat ep]) \<Longrightarrow> wired ep \<Longrightarrow> sys_inv is_rpc s \<Longrightarrow> sys_inv is_rpc (add_ep s (ep, ds))"
  by (auto simp: sys_inv_def add_ep_def)

lemma set_updateD: "Some x \<in> set (xs[h := y]) \<Longrightarrow> Some x \<in> set xs \<or> y = Some x"
  using set_update_subset_insert [of xs h y] by auto

lemma sys_inv_set:
  assumes "sys_inv is_rpc s" "ep_at s h = Some ep" "dom_inv is_rpc ds (seats (eps s))" "seat ep' = seat ep" "wired ep'"
  shows "sys_inv is_rpc (s\<lparr>dom_state := ds, eps := (eps s)[h := Some ep']\<rparr>)"
proof -
  have h: "h < length (eps s)" "eps s ! h = Some ep" using assms(2) by (auto simp: ep_at_def split: if_splits)
  have "(seats (eps s))[h := seat ep'] = seats (eps s)" using assms(4) seats_nth [OF h] by (metis list_update_id)
  then show ?thesis using assms by (auto simp: sys_inv_def dest!: set_updateD)
qed

lemma sys_inv_pool: "sys_inv is_rpc s \<Longrightarrow> sys_inv is_rpc (set_pool h pool s)"
proof (cases "\<exists>ep core. ep_at s h = Some ep \<and> ep_kind ep = PubImpl (Some core)")
  case True
  assume inv: "sys_inv is_rpc s"
  from True obtain ep core where e: "ep_at s h = Some ep" "ep_kind ep = PubImpl (Some core)" by blast
  let ?ep = "ep\<lparr>ep_kind := PubImpl (Some (core\<lparr>pub_pool := pool\<rparr>))\<rparr>"
  have "Some ep \<in> set (eps s)" using e by (auto simp: ep_at_def split: if_splits) (metis nth_mem)
  then have "wired ?ep" "seat ?ep = seat ep" using inv e by (auto simp: sys_inv_def wired_def seat_def)
  then have "sys_inv is_rpc (s\<lparr>dom_state := dom_state s, eps := (eps s)[h := Some ?ep]\<rparr>)"
    by (intro sys_inv_set [OF inv e(1)]) (use inv in \<open>simp_all add: sys_inv_def\<close>)
  then show ?thesis using e by (simp add: set_pool_def)
qed (auto simp: set_pool_def split: option.splits impl_kind.splits)

lemma sys_inv_ep:
  assumes "sys_inv is_rpc s" "ep_at s h = Some ep"
  shows "dom_inv is_rpc (dom_state s) (seats (eps s))" "h < length (eps s)" "eps s ! h = Some ep" "wired ep"
  using assms by (auto simp: sys_inv_def ep_at_def split: if_splits) (metis nth_mem)

lemma set_ep_inv:
  assumes "sys_inv is_rpc s" "ep_at s h = Some ep"
    and "\<exists>v ep' ds'. r = Some (v, ep', ds') \<and> dom_inv is_rpc ds' (seats (eps s)) \<and> seat ep' = seat ep \<and> wired ep'"
  shows "\<exists>s'. map_option (set_ep s h) r = Some s' \<and> sys_inv is_rpc s'"
  using assms(3) sys_inv_set [OF assms(1,2)] by (auto simp: set_ep_def)

lemma set_dom_inv:
  assumes "sys_inv is_rpc s" "\<exists>v ds'. r = Some (v, ds') \<and> dom_inv is_rpc ds' (seats (eps s))"
  shows "\<exists>s'. map_option (set_dom s) r = Some s' \<and> sys_inv is_rpc s'"
  using assms by (auto simp: set_dom_def sys_inv_def)

lemma add_ep_inv:
  assumes "sys_inv is_rpc s" "\<exists>ep ds'. r = Some (ep, ds') \<and> dom_inv is_rpc ds' (seats (eps s) @ [seat ep]) \<and> wired ep"
  shows "\<exists>s'. map_option (add_ep s) r = Some s' \<and> sys_inv is_rpc s'"
  using assms(2) sys_inv_add [OF _ _ assms(1)] by auto

lemma kind_atD: "kind_at s h = Some k \<Longrightarrow> \<exists>ep. ep_at s h = Some ep \<and> ep_kind ep = k"
  by (auto simp: kind_at_def)

lemma loan_inv:
  assumes inv: "sys_inv is_rpc s" and ep: "ep_at s h = Some ep" "ep_kind ep = PubImpl c"
    and l: "case (loan_pool loan, loan_slot loan) of (Some p, Some i) \<Rightarrow> pool_at s p \<noteq> None | _ \<Rightarrow> True"
  shows "\<exists>r. Publisher_PublishLoan X dflt sz ctx now h loan upstream s = Some r \<and> sys_inv is_rpc (snd r)"
proof (cases "loan_pool loan = None \<or> loan_slot loan = None")
  case True
  then show ?thesis using inv by (auto simp: Publisher_PublishLoan_def split: option.splits)
next
  case False
  then obtain p i pool where p: "loan_pool loan = Some p" "loan_slot loan = Some i" "pool_at s p = Some pool" using l by auto
  let ?val = "case cells pool ! i of None \<Rightarrow> dflt | Some v \<Rightarrow> v"
  note e = sys_inv_ep [OF inv ep(1)]
  obtain st ep' ds' c' where pub: "Publisher_Publish X sz ctx now ?val (derive_info upstream) ep (dom_state s) = Some (st, ep', ds')"
    "dom_inv is_rpc ds' (seats (eps s))" "seat ep' = seat ep" "wired ep'" "ep_kind ep' = PubImpl c'" "c' = None \<longleftrightarrow> c = None"
    using Publish_inv [OF e ep(2)] by metis
  let ?s = "s\<lparr>dom_state := ds', eps := (eps s)[h := Some ep']\<rparr>"
  have inv': "sys_inv is_rpc ?s" by (rule sys_inv_set [OF inv ep(1) pub(2-4)])
  have "pool_at ?s p \<noteq> None"
    using p(3) pub(5,6) ep e(2,3) by (auto simp: pool_at_def ep_at_def nth_list_update_if split: option.splits impl_kind.splits if_splits)
  then show ?thesis
    using p pub(1) ep sys_inv_pool [OF inv'] by (auto simp: Publisher_PublishLoan_def Let_def)
qed

lemma kind_atE:
  "(case kind_at s h of Some (PubImpl _) \<Rightarrow> True | _ \<Rightarrow> False) \<Longrightarrow> (\<And>ep c. ep_at s h = Some ep \<Longrightarrow> ep_kind ep = PubImpl c \<Longrightarrow> P) \<Longrightarrow> P"
  "(case kind_at s h of Some (SubImpl _) \<Rightarrow> True | _ \<Rightarrow> False) \<Longrightarrow> (\<And>ep c. ep_at s h = Some ep \<Longrightarrow> ep_kind ep = SubImpl c \<Longrightarrow> P) \<Longrightarrow> P"
  "(case kind_at s h of Some (ServerImpl _) \<Rightarrow> True | _ \<Rightarrow> False) \<Longrightarrow> (\<And>ep b. ep_at s h = Some ep \<Longrightarrow> ep_kind ep = ServerImpl b \<Longrightarrow> P) \<Longrightarrow> P"
  "(case kind_at s h of Some (ClientImpl _) \<Rightarrow> True | _ \<Rightarrow> False) \<Longrightarrow> (\<And>ep b. ep_at s h = Some ep \<Longrightarrow> ep_kind ep = ClientImpl b \<Longrightarrow> P) \<Longrightarrow> P"
  by (auto simp: kind_at_def split: option.splits impl_kind.splits)

text \<open>The verbs, by what they run on: a new endpoint, a topic, the request/response slots.\<close>

lemma publish_exec_inv:
  assumes inv: "sys_inv is_rpc s" and ep: "ep_at s h = Some ep" "ep_kind ep = PubImpl c"
  shows "\<exists>s'. exec X dflt (OPublish h sz ctx now val) s = Some s' \<and> sys_inv is_rpc s'"
proof -
  have "\<exists>v ep' ds'. Publisher_Publish X sz ctx now val None ep (dom_state s) = Some (v, ep', ds') \<and>
      dom_inv is_rpc ds' (seats (eps s)) \<and> seat ep' = seat ep \<and> wired ep'"
    using Publish_inv [OF sys_inv_ep [OF inv ep(1)] ep(2)] by metis
  then show ?thesis using set_ep_inv [OF inv ep(1)] ep(1) by simp
qed

lemma take_exec_inv:
  assumes inv: "sys_inv is_rpc s" and ep: "ep_at s h = Some ep" "ep_kind ep = SubImpl c"
  shows "\<exists>s'. exec X dflt (OTakeLatest h now) s = Some s' \<and> sys_inv is_rpc s'"
    and "\<exists>s'. exec X dflt (OTryTake h now) s = Some s' \<and> sys_inv is_rpc s'"
  using set_ep_inv [OF inv ep(1) take_inv [OF sys_inv_ep [OF inv ep(1)] ep(2) wf_core_TakeLatest]]
    set_ep_inv [OF inv ep(1) take_inv [OF sys_inv_ep [OF inv ep(1)] ep(2) wf_core_TryTake]] ep(1)
  by (simp_all add: Subscriber_TakeLatest_def Subscriber_TryTake_def)

lemma on_rpc_exec_inv:
  assumes inv: "sys_inv is_rpc s" and ep: "ep_at s h = Some ep"
    and "b \<Longrightarrow> kind_role (ep_kind ep) = Some r" "r = RServer \<or> r = RClient" "\<And>t. same_shape (RpcE t) (RpcE (snd (f t)))"
  shows "\<exists>s'. map_option (set_dom s) (on_rpc safe f b ep (dom_state s)) = Some s' \<and> sys_inv is_rpc s'"
  by (rule set_dom_inv [OF inv rpc_inv [OF sys_inv_ep [OF inv ep] assms(3-5)]])

lemma server_exec_inv:
  assumes inv: "sys_inv is_rpc s" and ep: "ep_at s h = Some ep" "ep_kind ep = ServerImpl b"
  shows "\<exists>s'. exec X dflt (OTakeRequest h) s = Some s' \<and> sys_inv is_rpc s'"
    and "\<exists>s'. exec X dflt (OReply h req rsp) s = Some s' \<and> sys_inv is_rpc s'"
  using on_rpc_exec_inv [OF inv ep(1), where r = RServer and b = b, OF _ _ rpc_shapes(1)]
    on_rpc_exec_inv [OF inv ep(1), where r = RServer and b = "b \<and> req_freshness req \<noteq> kNone", OF _ _ rpc_shapes(2)] ep
  by (simp_all add: Server_TakeRequest_def Server_Reply_def)

lemma client_exec_inv:
  assumes inv: "sys_inv is_rpc s" and ep: "ep_at s h = Some ep" "ep_kind ep = ClientImpl b"
  shows "\<exists>s'. exec X dflt (OCall h ctx now req) s = Some s' \<and> sys_inv is_rpc s'"
    and "\<exists>s'. exec X dflt (OFinish h r i) s = Some s' \<and> sys_inv is_rpc s'"
  using on_rpc_exec_inv [OF inv ep(1), where r = RClient and b = b, OF _ _ rpc_shapes(3)]
    on_rpc_exec_inv [OF inv ep(1), where r = RClient and b = b, OF _ _ rpc_shapes(4)] ep
  by (simp_all add: Client_Call_def Client_Call_finish_def)

lemma exec_inv:
  assumes inv: "sys_inv is_rpc s" and ok: "op_ok is_rpc p s"
  shows "\<exists>s'. exec X dflt p s = Some s' \<and> sys_inv is_rpc s'"
proof -
  have d: "dom_inv is_rpc (dom_state s) (seats (eps s))" using inv by (simp add: sys_inv_def)
  show ?thesis
  proof (cases p)
    case (ODestroy h)
    then obtain ep where ep: "ep_at s h = Some ep" using ok by auto
    from dtor_inv [OF sys_inv_ep [OF inv ep]] inv ep ODestroy show ?thesis by (auto simp: sys_inv_def dest!: set_updateD)
  next
    case (OLoan h)
    then show ?thesis using inv sys_inv_pool by (auto split: option.splits)
  next
    case (OPublishLoan h sz ctx now loan upstream)
    then obtain ep c where ep: "ep_at s h = Some ep" "ep_kind ep = PubImpl c" using ok by (auto elim: kind_atE)
    then show ?thesis using loan_inv [OF inv ep, of loan X dflt sz ctx now upstream] ok OPublishLoan by auto
  qed (use ok add_ep_inv [OF inv Advertise_inv [OF d]] add_ep_inv [OF inv Subscribe_inv [OF d]] add_ep_inv [OF inv Serve_inv [OF d]]
      add_ep_inv [OF inv Client_inv [OF d]] in \<open>simp_all del: exec.simps(6,9-14)\<close>,
    use inv in \<open>auto elim!: kind_atE simp del: exec.simps intro: publish_exec_inv take_exec_inv server_exec_inv client_exec_inv\<close>)
qed

lemma dom_reachable_inv: "dom_reachable X dflt is_rpc s \<Longrightarrow> sys_inv is_rpc s"
proof (induction rule: dom_reachable.induct)
  case start
  show ?case by (simp add: sys_inv_def dom_inv_init)
next
  case (step s p s')
  then show ?case using exec_inv [of is_rpc s p X dflt] by auto
qed

section \<open>Properties\<close>

text \<open>A served topic with one caller.\<close>

definition demo_rpc :: "string \<Rightarrow> bool" where
  "demo_rpc ty \<longleftrightarrow> ty = ''RpcTag<Add,Sum>''"

definition demo_server :: "(nat, nat MailRecord option, nat \<times> nat MailRecord list) EndpointImpl" where
  "demo_server = \<lparr>ep_kind = ServerImpl True, ep_type = ''RpcTag<Add,Sum>'', ep_topic = Some ''add'', is_publisher = True,
     backend = Backend_kInProcess, advertise_status = Advertise_kOk, subscribe_status = Subscribe_kUnsupportedReach\<rparr>"

definition demo_client :: "(nat, nat MailRecord option, nat \<times> nat MailRecord list) EndpointImpl" where
  "demo_client = \<lparr>ep_kind = ClientImpl True, ep_type = ''RpcTag<Add,Sum>'', ep_topic = Some ''add'', is_publisher = False,
     backend = Backend_kInProcess, advertise_status = Advertise_kUnsupportedReach, subscribe_status = Subscribe_kOk\<rparr>"

definition demo_served :: "(nat, nat MailRecord option, nat \<times> nat MailRecord list, nat, nat) dom_sys" where
  "demo_served = \<lparr>dom_state = \<lparr>topics = [(''add'', RpcE ((RpcTopic_init ''add'' 5 ''RpcTag<Add,Sum>'')\<lparr>publisher_count := 1\<rparr>))],
     endpoint_count = 1, g_endpoints = 1, g_matches = 0\<rparr>, eps = [Some demo_server]\<rparr>"

definition demo_domain :: "(nat, nat MailRecord option, nat \<times> nat MailRecord list, nat, nat) dom_sys" where
  "demo_domain = \<lparr>dom_state = \<lparr>topics = [(''add'', RpcE ((RpcTopic_init ''add'' 5 ''RpcTag<Add,Sum>'')\<lparr>publisher_count := 1, subscriber_count := 1\<rparr>))],
     endpoint_count = 2, g_endpoints = 2, g_matches = 1\<rparr>, eps = [Some demo_server, Some demo_client]\<rparr>"

lemmas wiring_defs = Serve_def Domain_Client_def find_or_make_def topic_at_def put_topic_def register_def UpdateGauges_def
  match_total_def AddServer_def AddClient_def EndpointImpl_init_def DomainState_init_def add_ep_def RpcTopic_init_def

lemma demo_served_reachable: "dom_reachable XmBase_nat 0 demo_rpc demo_served"
proof -
  let ?p = "OServe 5 ''RpcTag<Add,Sum>'' ''add'' :: (nat, ref_context, nat, nat) op"
  have "op_ok demo_rpc ?p \<lparr>dom_state = DomainState_init, eps = [] :: (nat, nat MailRecord option, nat \<times> nat MailRecord list) EndpointImpl option list\<rparr>"
    by (simp add: demo_rpc_def)
  moreover have "exec XmBase_nat 0 ?p \<lparr>dom_state = DomainState_init, eps = []\<rparr> = Some demo_served"
    by (simp add: wiring_defs demo_served_def demo_server_def)
  ultimately show ?thesis by (rule dom_reachable.step [OF dom_reachable.start])
qed

lemma demo_domain_reachable: "dom_reachable XmBase_nat 0 demo_rpc demo_domain"
proof -
  let ?p = "OClient 5 ''RpcTag<Add,Sum>'' ''add'' :: (nat, ref_context, nat, nat) op"
  have "op_ok demo_rpc ?p demo_served" by (simp add: demo_rpc_def)
  moreover have "exec XmBase_nat 0 ?p demo_served = Some demo_domain"
    by (simp add: wiring_defs demo_served_def demo_domain_def demo_client_def)
  ultimately show ?thesis by (rule dom_reachable.step [OF demo_served_reachable])
qed

text \<open>The object behind a handle is of the class the handle's verbs cast it to.\<close>

definition casts_to :: "('a, 's, 'q) EndpointImpl \<Rightarrow> ('s, 'q, 'req, 'rsp) entry \<Rightarrow> bool" where
  "casts_to ep e = (case ep_kind ep of
     PubImpl _ \<Rightarrow> as_topic (ep_type ep) e \<noteq> None | SubImpl _ \<Rightarrow> as_topic (ep_type ep) e \<noteq> None
   | ServerImpl _ \<Rightarrow> as_rpc (ep_type ep) e \<noteq> None | ClientImpl _ \<Rightarrow> as_rpc (ep_type ep) e \<noteq> None)"

lemma fits_casts:
  assumes "kind_role (ep_kind ep) = Some r" "fits r e" "e_type e = ep_type ep"
  shows "casts_to ep e"
  using assms by (cases "ep_kind ep" rule: kind_role.cases; cases e) (auto simp: casts_to_def split: if_splits)

lemma handles_cast:
  assumes "sys_inv is_rpc s" "ep_at s h = Some ep" "ep_topic ep = Some nm"
  shows "\<exists>e. topic_at (dom_state s) nm = Some e \<and> casts_to ep e"
proof -
  note ep = sys_inv_ep [OF assms(1,2)]
  obtain r where r: "kind_role (ep_kind ep) = Some r" using ep(4) assms(3) by (auto simp: wired_def)
  from wired_topic [OF ep(1-3) assms(3) r] fits_casts [OF r] show ?thesis by metis
qed

text \<open>C9. Type safety of the registry: whatever sequence of operations built the domain, no \<^verbatim>\<open>static_cast\<close> of the next wiring
  verb, destructor or handle verb meets an object of another class or another payload type, and in the state it leaves
  every live wired handle still points to a registry entry of the class and payload type its verbs will cast it to.\<close>

theorem domain_cast_safe:
  assumes "dom_reachable X dflt is_rpc s" "op_ok is_rpc p s"
  shows "\<exists>s'. exec X dflt p s = Some s' \<and> (\<forall>h ep nm. ep_at s' h = Some ep \<longrightarrow> ep_topic ep = Some nm \<longrightarrow>
     (\<exists>e. topic_at (dom_state s') nm = Some e \<and> casts_to ep e))"
  using exec_inv [OF dom_reachable_inv [OF assms(1)] assms(2)] handles_cast by metis

theorem domain_cast_safe_witness:
  "\<exists>s'. exec XmBase_nat 0 (OAdvertise 7 ''Pose'' ''add'' Qos_default :: (nat, ref_context, nat, nat) op) demo_domain = Some s' \<and>
     (\<forall>h ep nm. ep_at s' h = Some ep \<longrightarrow> ep_topic ep = Some nm \<longrightarrow> (\<exists>e. topic_at (dom_state s') nm = Some e \<and> casts_to ep e))"
  by (rule domain_cast_safe [OF demo_domain_reachable]) (simp add: demo_rpc_def)

text \<open>C10. The census is exact: the matching count a handle reports is the number of live matched peers on its topic, the
  endpoint count is the number of live wired handles, and the two gauges show it and the sum of publishers times
  subscribers over all topics.\<close>

theorem domain_census:
  assumes "dom_reachable X dflt is_rpc s"
  shows "(\<forall>h ep nm. ep_at s h = Some ep \<longrightarrow> ep_topic ep = Some nm \<longrightarrow> MatchedCount ep (dom_state s) =
       of_nat (cnt (if is_publisher ep then sub_seat nm else pub_seat nm) (seats (eps s)))) \<and>
     endpoint_count (dom_state s) = of_nat (cnt (\<lambda>_. True) (seats (eps s))) \<and>
     g_endpoints (dom_state s) = unat (endpoint_count (dom_state s)) \<and> g_matches (dom_state s) = match_total (dom_state s)"
proof (intro conjI allI impI)
  have inv: "sys_inv is_rpc s" by (rule dom_reachable_inv [OF assms])
  then have d: "dom_inv is_rpc (dom_state s) (seats (eps s))" by (simp add: sys_inv_def)
  show "endpoint_count (dom_state s) = of_nat (cnt (\<lambda>_. True) (seats (eps s)))" by (rule dom_invD(5) [OF d])
  show "g_endpoints (dom_state s) = unat (endpoint_count (dom_state s))" by (rule dom_invD(6) [OF d])
  show "g_matches (dom_state s) = match_total (dom_state s)" by (rule dom_invD(7) [OF d])
  fix h ep nm assume ep: "ep_at s h = Some ep" and nm: "ep_topic ep = Some nm"
  note e = sys_inv_ep [OF inv ep]
  obtain r where "kind_role (ep_kind ep) = Some r" using e(4) nm by (auto simp: wired_def)
  from wired_topic [OF e(1-3) nm this] obtain t where t: "topic_at (dom_state s) nm = Some t" by metis
  then show "MatchedCount ep (dom_state s) = of_nat (cnt (if is_publisher ep then sub_seat nm else pub_seat nm) (seats (eps s)))"
    using dom_invD(2) [OF d t] nm by (simp add: MatchedCount_def counts_def)
qed

theorem domain_census_witness:
  "MatchedCount demo_server (dom_state demo_domain) = of_nat (cnt (sub_seat ''add'') (seats (eps demo_domain))) \<and>
   MatchedCount demo_server (dom_state demo_domain) = 1"
proof
  have "ep_at demo_domain 0 = Some demo_server" "ep_topic demo_server = Some ''add''" "is_publisher demo_server"
    by (simp_all add: ep_at_def demo_domain_def demo_server_def)
  then show "MatchedCount demo_server (dom_state demo_domain) = of_nat (cnt (sub_seat ''add'') (seats (eps demo_domain)))"
    using domain_census [OF demo_domain_reachable, THEN conjunct1, rule_format, of 0 demo_server "''add''"] by simp
  show "MatchedCount demo_server (dom_state demo_domain) = 1"
    by (simp add: MatchedCount_def demo_domain_def demo_server_def topic_at_def)
qed

text \<open>C11. A topic has one type: wiring any endpoint of another type or schema to an existing topic is refused with
  \<^verbatim>\<open>kTypeMismatch\<close>, leaves the domain as it was, and gives a handle on which every verb, and the destructor, does nothing.\<close>

theorem type_mismatch_refused:
  assumes "topic_at ds nm = Some e" "e_hash e \<noteq> hash \<or> e_type e \<noteq> ty"
  shows "(\<exists>ep. Advertise X hash ty nm qos ds = Some (ep, ds) \<and> advertise_status ep = Advertise_kTypeMismatch \<and>
       Publisher_Publish X sz ctx now val derived ep ds' = Some (Publish_kOk, ep, ds') \<and> EndpointImpl_dtor ep ds' = Some ds') \<and>
     (\<exists>ep. Subscribe X hash ty nm qos ds = Some (ep, ds) \<and> subscribe_status ep = Subscribe_kTypeMismatch \<and>
       Subscriber_TakeLatest X now ep ds' = Some (Sample_init (ctx_null X), ep, ds') \<and>
       Subscriber_TryTake X now ep ds' = Some (Sample_init (ctx_null X), ep, ds') \<and> EndpointImpl_dtor ep ds' = Some ds') \<and>
     (\<exists>ep. Serve hash ty nm ds = Some (ep, ds) \<and> advertise_status ep = Advertise_kTypeMismatch \<and>
       Server_TakeRequest X ep ds' = Some (Request_init (ctx_null X), ds') \<and>
       Server_Reply rq rsp ep ds' = Some (Reply_kExpired, ds') \<and> EndpointImpl_dtor ep ds' = Some ds') \<and>
     (\<exists>ep. Domain_Client hash ty nm ds = Some (ep, ds) \<and> subscribe_status ep = Subscribe_kTypeMismatch \<and>
       Client_Call X ctx now req ep ds' = Some (Inl Result_init, ds') \<and> EndpointImpl_dtor ep ds' = Some ds')"
  (is "?A \<and> ?B \<and> ?C \<and> ?D")
proof (intro conjI)
  have f: "find_or_make nm fresh ds = (e, ds)" for fresh using assms(1) by (simp add: find_or_make_def)
  show ?A using assms(2) f by (simp add: Advertise_def Publisher_Publish_def EndpointImpl_dtor_def EndpointImpl_init_def)
  show ?B using assms(2) f by (simp add: Subscribe_def Subscriber_TakeLatest_def Subscriber_TryTake_def on_core_def EndpointImpl_dtor_def EndpointImpl_init_def)
  show ?C using assms(2) f by (simp add: Serve_def Server_TakeRequest_def Server_Reply_def on_rpc_def EndpointImpl_dtor_def EndpointImpl_init_def)
  show ?D using assms(2) f by (simp add: Domain_Client_def Client_Call_def on_rpc_def EndpointImpl_dtor_def EndpointImpl_init_def)
qed

theorem type_mismatch_refused_witness:
  "\<exists>ep. Advertise XmBase_nat 7 ''Pose'' ''add'' Qos_default (dom_state demo_domain) = Some (ep, dom_state demo_domain) \<and>
     advertise_status ep = Advertise_kTypeMismatch"
proof -
  let ?e = "RpcE ((RpcTopic_init ''add'' 5 ''RpcTag<Add,Sum>'')\<lparr>publisher_count := 1, subscriber_count := 1\<rparr>)
    :: (nat MailRecord option, nat \<times> nat MailRecord list, nat, nat) entry"
  have e: "topic_at (dom_state demo_domain) ''add'' = Some ?e" by (simp add: topic_at_def demo_domain_def)
  have "e_hash ?e \<noteq> 7 \<or> e_type ?e \<noteq> ''Pose''" by (simp add: RpcTopic_init_def)
  from type_mismatch_refused [where X = XmBase_nat and qos = Qos_default and sz = 8 and ctx = "(0, 0, 0)" and
    now = 0 and val = 0 and derived = None and ds' = "dom_state demo_domain", OF e this, THEN conjunct1] show ?thesis by blast
qed

end
