(* ===== verification/Shm_Naming.thy ===== *)
theory Shm_Naming
  imports Schema_Hash
begin

text \<open>
  Names of shared-memory segments: \<^verbatim>\<open>DeriveIsolationKey\<close> (\<^verbatim>\<open>src/domain.cpp\<close>), \<^verbatim>\<open>SanitizeShmNamePart\<close> and
  \<^verbatim>\<open>ShmSegmentName\<close> (\<^verbatim>\<open>shm_segment.hpp\<close>), and the reader's \<^verbatim>\<open>ParseSegmentName\<close> (\<^verbatim>\<open>introspect_reader.hpp\<close>).
  For topics of the wire contract's grammar naming and parsing are inverse, and equal names mean equal users, domains
  and topics up to hash collisions of over-long names; all names are valid and bounded.
\<close>

section \<open>Characters\<close>

definition in_range :: "char \<Rightarrow> char \<Rightarrow> char \<Rightarrow> bool" where
  "in_range lo hi c \<longleftrightarrow> (of_char lo :: nat) \<le> of_char c \<and> (of_char c :: nat) \<le> of_char hi"

definition to_lower :: "char \<Rightarrow> char" where
  "to_lower c = char_of (of_char c - of_char (CHR ''A'') + of_char (CHR ''a'') :: nat)"

definition key_char :: "char \<Rightarrow> bool" where
  "key_char c \<longleftrightarrow> in_range (CHR ''a'') (CHR ''z'') c \<or> in_range (CHR ''0'') (CHR ''9'') c \<or> c = CHR ''_''"

definition shm_char :: "char \<Rightarrow> bool" where
  "shm_char c \<longleftrightarrow> key_char c \<or> c = CHR ''.''"

section \<open>Names\<close>

definition SanitizeShmNamePart :: "string \<Rightarrow> string" where
  "SanitizeShmNamePart part = map (\<lambda>c. if shm_char c then c
     else if in_range (CHR ''A'') (CHR ''Z'') c then to_lower c else CHR ''_'') part"

definition sanitize_domain :: "string \<Rightarrow> string" where
  "sanitize_domain base = map (\<lambda>c. if key_char c then c
     else if in_range (CHR ''A'') (CHR ''Z'') c then to_lower c else CHR ''_'') base"

text \<open>The effective user id is what \<^verbatim>\<open>geteuid\<close> returns.\<close>

definition DeriveIsolationKey :: "nat \<Rightarrow> string \<Rightarrow> string" where
  "DeriveIsolationKey euid configured_name =
     (let base = if configured_name = [] then ''default'' else configured_name
      in ''u'' @ decimal euid @ ''.'' @ sanitize_domain base)"

definition kNameBound :: nat where
  "kNameBound = 240"

definition plain_name :: "string \<Rightarrow> string \<Rightarrow> string" where
  "plain_name isolation_key topic = ''/xmmsg.'' @ SanitizeShmNamePart isolation_key @ ''.'' @ SanitizeShmNamePart topic"

definition ShmSegmentName :: "string \<Rightarrow> string \<Rightarrow> string" where
  "ShmSegmentName isolation_key topic =
     (let name = plain_name isolation_key topic
      in if length name > kNameBound
         then ''/xmmsg.h'' @ hex_pad 16 (unat (Fnv1a64 name kFnv1aOffsetBasis))
         else name)"

section \<open>Parsing\<close>

record DiscoveredSegment =
  seg_name :: string
  seg_isolation_key :: string
  seg_topic :: string
  seg_hashed_name :: bool

text \<open>\<^verbatim>\<open>std::string::find\<close> for one character.\<close>

fun find_char :: "char \<Rightarrow> string \<Rightarrow> nat option" where
  "find_char c [] = None"
| "find_char c (d # s) = (if d = c then Some 0 else map_option Suc (find_char c s))"

definition is_hex :: "char \<Rightarrow> bool" where
  "is_hex c \<longleftrightarrow> in_range (CHR ''0'') (CHR ''9'') c \<or> in_range (CHR ''a'') (CHR ''f'') c"

definition hashed_form :: "string \<Rightarrow> bool" where
  "hashed_form rest \<longleftrightarrow> length rest = 17 \<and> rest ! 0 = CHR ''h'' \<and> list_all is_hex (drop 1 rest)"

definition ParseSegmentName :: "string \<Rightarrow> DiscoveredSegment option" where
  "ParseSegmentName shm_name =
     (if take 7 shm_name \<noteq> ''/xmmsg.'' then None
      else let rest = drop 7 shm_name in
        if hashed_form rest
        then Some \<lparr>seg_name = shm_name, seg_isolation_key = [], seg_topic = [], seg_hashed_name = True\<rparr>
        else case find_char (CHR ''.'') rest of None \<Rightarrow> None
        | Some dot1 \<Rightarrow> (case find_char (CHR ''.'') (drop (dot1 + 1) rest) of None \<Rightarrow> None
          | Some d \<Rightarrow> let dot2 = dot1 + 1 + d in
              if dot2 + 1 \<ge> length rest \<or> rest ! 0 \<noteq> CHR ''u'' then None
              else Some \<lparr>seg_name = shm_name, seg_isolation_key = take dot2 rest,
                         seg_topic = drop (dot2 + 1) rest, seg_hashed_name = False\<rparr>))"

section \<open>Character lemmas\<close>

lemma of_char_inj: "(of_char c :: nat) = of_char d \<longleftrightarrow> c = d"
  by (simp add: of_char_eq_iff)

lemma to_lower_range: "in_range (CHR ''A'') (CHR ''Z'') c \<Longrightarrow> in_range (CHR ''a'') (CHR ''z'') (to_lower c)"
  by (auto simp: in_range_def to_lower_def)

lemma key_char_sanitized: "\<forall>c \<in> set (sanitize_domain s). key_char c"
proof -
  have "key_char (CHR ''_'')" by (simp add: key_char_def)
  then show ?thesis using to_lower_range by (auto simp: sanitize_domain_def key_char_def)
qed

lemma shm_char_sanitized: "\<forall>c \<in> set (SanitizeShmNamePart s). shm_char c"
proof -
  have "shm_char (CHR ''_'')" by (simp add: shm_char_def key_char_def)
  then show ?thesis using to_lower_range by (auto simp: SanitizeShmNamePart_def shm_char_def key_char_def)
qed

lemma Sanitize_id: "\<forall>c \<in> set s. shm_char c \<Longrightarrow> SanitizeShmNamePart s = s"
  by (induction s) (auto simp: SanitizeShmNamePart_def)

lemma Sanitize_length [simp]: "length (SanitizeShmNamePart s) = length s"
  by (simp add: SanitizeShmNamePart_def)

lemma hex_digits: "c \<in> set ''0123456789abcdef'' \<Longrightarrow> is_hex c"
  by (auto simp: is_hex_def in_range_def)

lemma hex_is_shm: "is_hex c \<Longrightarrow> key_char c"
  by (auto simp: is_hex_def key_char_def in_range_def)

lemma render_hex: "2 \<le> b \<Longrightarrow> b \<le> 16 \<Longrightarrow> c \<in> set (render b n) \<Longrightarrow> is_hex c"
  using render_digits [of b n] hex_digits by blast

lemma dot_not_key: "\<not> key_char (CHR ''.'')"
  by (simp add: key_char_def in_range_def)

lemma no_dot: "\<forall>c \<in> set s. key_char c \<Longrightarrow> CHR ''.'' \<notin> set s"
  using dot_not_key by blast

lemma decimal_key: "c \<in> set (decimal n) \<Longrightarrow> key_char c"
  by (rule hex_is_shm, rule render_hex [of 10]) simp_all

lemma find_char_hit: "c \<notin> set xs \<Longrightarrow> find_char c (xs @ c # ys) = Some (length xs)"
  by (induction xs) auto

lemma render_length: "2 \<le> b \<Longrightarrow> n < b ^ Suc k \<Longrightarrow> length (render b n) \<le> Suc k"
proof (induction k arbitrary: n)
  case 0
  then show ?case by (simp add: render.simps [of b n])
next
  case (Suc k)
  then have "n div b < b ^ Suc k" by (metis less_mult_imp_div_less mult.commute power_Suc)
  then show ?case using Suc.IH [of "n div b"] Suc.prems by (simp add: render.simps [of b n])
qed

lemma hex_pad_16: "length (hex_pad 16 (unat (w :: u64))) = 16 \<and> (\<forall>c \<in> set (hex_pad 16 (unat w)). is_hex c)"
proof -
  have "unat w < 16 ^ Suc 15" using unsigned_less [of w] by simp
  then have "length (render 16 (unat w)) \<le> 16" using render_length [of 16 "unat w" 15] by simp
  moreover have "is_hex (CHR ''0'')" by (simp add: is_hex_def in_range_def)
  ultimately show ?thesis using render_hex [of 16] by (auto simp: hex_pad_def Let_def)
qed

section \<open>Keys\<close>

lemma key_shape: "DeriveIsolationKey euid d = ''u'' @ decimal euid @ ''.'' @ sanitize_domain (if d = [] then ''default'' else d)"
  by (simp add: DeriveIsolationKey_def)

lemma key_clean: "SanitizeShmNamePart (DeriveIsolationKey euid d) = DeriveIsolationKey euid d"
proof (rule Sanitize_id, rule ballI)
  fix c assume "c \<in> set (DeriveIsolationKey euid d)"
  then have "c = CHR ''u'' \<or> key_char c \<or> c = CHR ''.''"
    using decimal_key key_char_sanitized unfolding key_shape by (auto simp del: if_split)
  then show "shm_char c" by (auto simp: shm_char_def key_char_def in_range_def)
qed

section \<open>Naming and parsing\<close>

lemma plain_name_key: "plain_name (DeriveIsolationKey euid d) topic =
    ''/xmmsg.u'' @ decimal euid @ CHR ''.'' # sanitize_domain (if d = [] then ''default'' else d) @ CHR ''.'' # SanitizeShmNamePart topic"
  unfolding plain_name_def key_clean unfolding key_shape by simp

lemma parse_plain:
  assumes "CHR ''.'' \<notin> set a" "CHR ''.'' \<notin> set b" "t \<noteq> []"
  shows "ParseSegmentName (''/xmmsg.u'' @ a @ CHR ''.'' # b @ CHR ''.'' # t) =
    Some \<lparr>seg_name = ''/xmmsg.u'' @ a @ CHR ''.'' # b @ CHR ''.'' # t, seg_isolation_key = ''u'' @ a @ ''.'' @ b,
          seg_topic = t, seg_hashed_name = False\<rparr>"
proof -
  let ?rest = "(CHR ''u'' # a) @ CHR ''.'' # b @ CHR ''.'' # t"
  have "\<not> hashed_form ?rest" by (simp add: hashed_form_def)
  moreover have "find_char (CHR ''.'') ?rest = Some (length a + 1)"
    using find_char_hit [of "CHR ''.''" "CHR ''u'' # a"] assms(1) by simp
  moreover have "find_char (CHR ''.'') (drop (length a + 1 + 1) ?rest) = Some (length b)"
    using find_char_hit [of "CHR ''.''" b] assms(2) by simp
  ultimately show ?thesis using assms(3) by (simp add: ParseSegmentName_def)
qed

lemma parse_hashed:
  assumes "length h = 16" "\<forall>c \<in> set h. is_hex c"
  shows "ParseSegmentName (''/xmmsg.h'' @ h) =
    Some \<lparr>seg_name = ''/xmmsg.h'' @ h, seg_isolation_key = [], seg_topic = [], seg_hashed_name = True\<rparr>"
  using assms by (simp add: ParseSegmentName_def hashed_form_def list_all_iff)

text \<open>Every name the transport makes is recognised by the reader, also of a topic outside the grammar: such a topic comes back
  as the transport mangled it.\<close>

lemma parse_segment_name:
  assumes "topic \<noteq> []"
  shows "ParseSegmentName (ShmSegmentName (DeriveIsolationKey euid d) topic) = Some (
     if length (plain_name (DeriveIsolationKey euid d) topic) \<le> kNameBound
     then \<lparr>seg_name = plain_name (DeriveIsolationKey euid d) topic, seg_isolation_key = DeriveIsolationKey euid d,
           seg_topic = SanitizeShmNamePart topic, seg_hashed_name = False\<rparr>
     else \<lparr>seg_name = ShmSegmentName (DeriveIsolationKey euid d) topic, seg_isolation_key = [], seg_topic = [], seg_hashed_name = True\<rparr>)"
proof (cases "length (plain_name (DeriveIsolationKey euid d) topic) \<le> kNameBound")
  case True
  then have n: "ShmSegmentName (DeriveIsolationKey euid d) topic = plain_name (DeriveIsolationKey euid d) topic"
    by (simp add: ShmSegmentName_def Let_def)
  have "SanitizeShmNamePart topic \<noteq> []" using assms by (metis Sanitize_length length_0_conv)
  then have "ParseSegmentName (plain_name (DeriveIsolationKey euid d) topic) = Some \<lparr>seg_name = plain_name (DeriveIsolationKey euid d) topic,
      seg_isolation_key = DeriveIsolationKey euid d, seg_topic = SanitizeShmNamePart topic, seg_hashed_name = False\<rparr>"
    unfolding plain_name_key unfolding key_shape
    by (intro parse_plain no_dot) (simp_all add: decimal_key key_char_sanitized)
  then show ?thesis using n True by simp
next
  case False
  then show ?thesis using parse_hashed hex_pad_16 by (simp add: ShmSegmentName_def Let_def)
qed

text \<open>The topic grammar of the wire contract (6.1): non-empty segments of lower-case letters, digits and underscores, separated by
  single dots. \<open>start\<close> is true where a segment has to begin.\<close>

fun segments_ok :: "bool \<Rightarrow> string \<Rightarrow> bool" where
  "segments_ok start [] \<longleftrightarrow> \<not> start"
| "segments_ok start (c # s) \<longleftrightarrow> (if c = CHR ''.'' then \<not> start \<and> segments_ok True s else key_char c \<and> segments_ok False s)"

definition valid_topic :: "string \<Rightarrow> bool" where
  "valid_topic topic \<longleftrightarrow> segments_ok True topic"

lemma segments_shm: "segments_ok start s \<Longrightarrow> \<forall>c \<in> set s. shm_char c"
  by (induction start s rule: segments_ok.induct) (auto simp: shm_char_def split: if_splits)

lemma valid_topic_clean: "valid_topic topic \<Longrightarrow> SanitizeShmNamePart topic = topic \<and> topic \<noteq> []"
  using Sanitize_id segments_shm by (auto simp: valid_topic_def)

text \<open>C13. Naming and parsing are inverse on the wire contract's topics: the name of the segment of a topic of the grammar parses
  back to the isolation key it was made from and to that very topic when it has at most 240 bytes after its slash, and to
  the hashed form when it has more. Names of exactly 240 such bytes are left out: there code and wire contract differ.\<close>

theorem segment_name_round_trip:
  assumes "valid_topic topic" "length (tl (plain_name (DeriveIsolationKey euid d) topic)) \<noteq> kNameBound"
  shows "ParseSegmentName (ShmSegmentName (DeriveIsolationKey euid d) topic) = Some (
     if length (tl (plain_name (DeriveIsolationKey euid d) topic)) \<le> kNameBound
     then \<lparr>seg_name = ''/xmmsg.'' @ DeriveIsolationKey euid d @ ''.'' @ topic, seg_isolation_key = DeriveIsolationKey euid d,
           seg_topic = topic, seg_hashed_name = False\<rparr>
     else \<lparr>seg_name = ''/xmmsg.h'' @ hex_pad 16 (unat (Fnv1a64 (''/xmmsg.'' @ DeriveIsolationKey euid d @ ''.'' @ topic) kFnv1aOffsetBasis)),
           seg_isolation_key = [], seg_topic = [], seg_hashed_name = True\<rparr>)"
proof -
  note clean = valid_topic_clean [OF assms(1)]
  have name: "plain_name (DeriveIsolationKey euid d) topic = ''/xmmsg.'' @ DeriveIsolationKey euid d @ ''.'' @ topic"
    using clean key_clean by (simp add: plain_name_def)
  then have "length (plain_name (DeriveIsolationKey euid d) topic) \<le> kNameBound \<longleftrightarrow>
      length (tl (plain_name (DeriveIsolationKey euid d) topic)) \<le> kNameBound"
    using assms(2) by auto
  then show ?thesis using parse_segment_name [of topic euid d] clean name by (simp add: ShmSegmentName_def Let_def del: length_tl)
qed

theorem segment_name_round_trip_witness:
  "ParseSegmentName (ShmSegmentName (DeriveIsolationKey 1000 ''Nav-Stack'') ''odom.pose'') =
   Some \<lparr>seg_name = ''/xmmsg.u1000.nav_stack.odom.pose'', seg_isolation_key = ''u1000.nav_stack'',
     seg_topic = ''odom.pose'', seg_hashed_name = False\<rparr>"
proof -
  have "plain_name (DeriveIsolationKey 1000 ''Nav-Stack'') ''odom.pose'' = ''/xmmsg.u1000.nav_stack.odom.pose''"
    "DeriveIsolationKey 1000 ''Nav-Stack'' = ''u1000.nav_stack''" "valid_topic ''odom.pose''"
    by code_simp+
  then show ?thesis using segment_name_round_trip [of "''odom.pose''" 1000 "''Nav-Stack''"] by (simp add: kNameBound_def)
qed

text \<open>A segment name is always acceptable to \<^verbatim>\<open>shm_open\<close>: one leading slash and no other, only characters of the
  sanitised alphabet after it, and a length within the bound.\<close>

lemma segment_name_valid:
  "hd (ShmSegmentName key topic) = CHR ''/'' \<and> CHR ''/'' \<notin> set (tl (ShmSegmentName key topic)) \<and>
   list_all shm_char (tl (ShmSegmentName key topic)) \<and> length (ShmSegmentName key topic) \<le> kNameBound"
proof -
  have lits: "list_all shm_char ''xmmsg.''" "list_all shm_char ''xmmsg.h''" "shm_char (CHR ''.'')" "\<not> shm_char (CHR ''/'')"
    by (simp_all add: shm_char_def key_char_def in_range_def)
  have "list_all shm_char (hex_pad 16 (unat (w :: u64)))" for w
    using hex_pad_16 [of w] hex_is_shm by (auto simp: list_all_iff shm_char_def)
  moreover have "list_all shm_char (SanitizeShmNamePart s)" for s
    using shm_char_sanitized by (simp add: list_all_iff)
  ultimately have "list_all shm_char (tl (ShmSegmentName key topic))"
    using lits by (simp add: ShmSegmentName_def plain_name_def Let_def)
  moreover from this have "CHR ''/'' \<notin> set (tl (ShmSegmentName key topic))" using lits by (auto simp: list_all_iff)
  moreover have "hd (ShmSegmentName key topic) = CHR ''/''" by (simp add: ShmSegmentName_def plain_name_def Let_def)
  moreover have "length (ShmSegmentName key topic) \<le> kNameBound"
    using hex_pad_16 by (simp add: ShmSegmentName_def Let_def kNameBound_def)
  ultimately show ?thesis by blast
qed

text \<open>A plain name determines the user, the key and the mangled topic; a hashed name is none of them.\<close>

lemma plain_name_inj:
  assumes "plain_name (DeriveIsolationKey u d) t = plain_name (DeriveIsolationKey v e) r"
  shows "u = v \<and> DeriveIsolationKey u d = DeriveIsolationKey v e \<and> SanitizeShmNamePart t = SanitizeShmNamePart r"
proof -
  let ?d = "\<lambda>d. sanitize_domain (if d = [] then ''default'' else d)"
  have nd: "CHR ''.'' \<notin> set (decimal n)" "CHR ''.'' \<notin> set (sanitize_domain s)" for n s
    using no_dot decimal_key key_char_sanitized by blast+
  have "decimal u @ CHR ''.'' # ?d d @ CHR ''.'' # SanitizeShmNamePart t = decimal v @ CHR ''.'' # ?d e @ CHR ''.'' # SanitizeShmNamePart r"
    using assms unfolding plain_name_key by simp
  from split_unique [OF this nd(1) nd(1)] have 1: "decimal u = decimal v"
    and 2: "?d d @ CHR ''.'' # SanitizeShmNamePart t = ?d e @ CHR ''.'' # SanitizeShmNamePart r" by blast+
  have "u = v" using 1 by (rule render_inj [rotated 2]) simp_all
  then show ?thesis using split_unique [OF 2 nd(2) nd(2)] unfolding key_shape by simp
qed

lemma render_leads: "2 \<le> b \<Longrightarrow> b \<le> 16 \<Longrightarrow> 0 < n \<Longrightarrow> hd (render b n) \<noteq> CHR ''0''"
proof (induction n rule: less_induct)
  case (less n)
  show ?case
  proof (cases "n < b")
    case True
    have "n < 16" using True less.prems(2) by linarith
    then have "digit n \<noteq> digit 0" using digit_inj less.prems(3) by simp
    then show ?thesis using True by (simp add: render.simps [of b n] digit_simps(1))
  next
    case False
    then have "0 < n div b" "n div b < n" using less.prems by (simp_all add: div_greater_zero_iff div_less_dividend)
    then have "hd (render b (n div b)) \<noteq> CHR ''0''" using less.IH less.prems by blast
    then show ?thesis using False less.prems(1) by (simp add: render.simps [of b n])
  qed
qed

lemma strip_zeros: "dropWhile (\<lambda>c. c = CHR ''0'') (replicate k (CHR ''0'') @ x) = dropWhile (\<lambda>c. c = CHR ''0'') x"
  by (induction k) simp_all

lemma hex_pad_inj:
  assumes "hex_pad w m = hex_pad w n"
  shows "m = n"
proof -
  have strip: "dropWhile (\<lambda>c. c = CHR ''0'') (hex_pad w k) = (if k = 0 then [] else render 16 k)" for k
  proof (cases "k = 0")
    case True
    then show ?thesis by (simp add: hex_pad_def Let_def strip_zeros render.simps [of 16 0] digit_simps(1))
  next
    case False
    then have "hd (render 16 k) \<noteq> CHR ''0''" by (intro render_leads) simp_all
    then have "dropWhile (\<lambda>c. c = CHR ''0'') (render 16 k) = render 16 k" by (cases "render 16 k") simp_all
    then show ?thesis using False by (simp add: hex_pad_def Let_def strip_zeros)
  qed
  from arg_cong [OF assms, of "dropWhile (\<lambda>c. c = CHR ''0'')"] show ?thesis
    unfolding strip using render_inj [of 16 m n] render_ne [of 16 n, symmetric] by (auto split: if_splits)
qed

lemma segment_name_inj:
  assumes "ShmSegmentName (DeriveIsolationKey u d) t = ShmSegmentName (DeriveIsolationKey v e) r"
  defines "m \<equiv> plain_name (DeriveIsolationKey u d) t" and "n \<equiv> plain_name (DeriveIsolationKey v e) r"
  shows "m = n \<or> kNameBound < length m \<and> kNameBound < length n \<and> Fnv1a64 m kFnv1aOffsetBasis = Fnv1a64 n kFnv1aOffsetBasis"
proof -
  have u: "\<exists>s. m = ''/xmmsg.u'' @ s" "\<exists>s. n = ''/xmmsg.u'' @ s" unfolding m_def n_def plain_name_key by blast+
  have name: "ShmSegmentName (DeriveIsolationKey u d) t = (if kNameBound < length m then ''/xmmsg.h'' @ hex_pad 16 (unat (Fnv1a64 m kFnv1aOffsetBasis)) else m)"
    "ShmSegmentName (DeriveIsolationKey v e) r = (if kNameBound < length n then ''/xmmsg.h'' @ hex_pad 16 (unat (Fnv1a64 n kFnv1aOffsetBasis)) else n)"
    by (simp_all add: ShmSegmentName_def Let_def m_def n_def)
  show ?thesis
  proof (cases "kNameBound < length m \<and> kNameBound < length n")
    case True
    then have "hex_pad 16 (unat (Fnv1a64 m kFnv1aOffsetBasis)) = hex_pad 16 (unat (Fnv1a64 n kFnv1aOffsetBasis))"
      using assms(1) unfolding name by simp
    from hex_pad_inj [OF this] have "Fnv1a64 m kFnv1aOffsetBasis = Fnv1a64 n kFnv1aOffsetBasis" by (rule unsigned_word_eqI)
    then show ?thesis using True by simp
  next
    case False
    then show ?thesis using assms(1) u unfolding name by (auto split: if_splits)
  qed
qed

text \<open>The name a domain is known by: the configured one, or the default.\<close>

definition domain_name :: "string \<Rightarrow> string" where
  "domain_name d = (if d = [] then ''default'' else d)"

lemma sanitize_domain_id: "\<forall>c \<in> set s. key_char c \<Longrightarrow> sanitize_domain s = s"
  by (induction s) (simp_all add: sanitize_domain_def)

lemma domain_key: "list_all key_char d \<Longrightarrow> DeriveIsolationKey u d = ''u'' @ decimal u @ ''.'' @ domain_name d"
  unfolding key_shape domain_name_def
  by (auto simp: list_all_iff sanitize_domain_id key_char_def in_range_def)

text \<open>C14. Isolation, for topics of the wire contract's grammar and domain names in the alphabet of the isolation key: two segments have
  one name only when user, domain and topic are the same, or when both names are over the bound and so are hashed, and
  the two different names have the same FNV-1a hash.\<close>

theorem segment_isolation:
  assumes "valid_topic t" "valid_topic r" "list_all key_char d" "list_all key_char e"
    and "ShmSegmentName (DeriveIsolationKey u d) t = ShmSegmentName (DeriveIsolationKey v e) r"
  shows "u = v \<and> domain_name d = domain_name e \<and> t = r \<or>
     kNameBound < length (plain_name (DeriveIsolationKey u d) t) \<and> kNameBound < length (plain_name (DeriveIsolationKey v e) r) \<and>
     plain_name (DeriveIsolationKey u d) t \<noteq> plain_name (DeriveIsolationKey v e) r \<and>
     Fnv1a64 (plain_name (DeriveIsolationKey u d) t) kFnv1aOffsetBasis = Fnv1a64 (plain_name (DeriveIsolationKey v e) r) kFnv1aOffsetBasis"
proof (cases "plain_name (DeriveIsolationKey u d) t = plain_name (DeriveIsolationKey v e) r")
  case True
  from plain_name_inj [OF this] show ?thesis
    using valid_topic_clean [OF assms(1)] valid_topic_clean [OF assms(2)] domain_key [OF assms(3), of u] domain_key [OF assms(4), of v] by auto
qed (use segment_name_inj [OF assms(5)] in blast)

theorem segment_isolation_witness:
  "ShmSegmentName (DeriveIsolationKey 1000 ''nav'') ''odom.pose'' \<noteq> ShmSegmentName (DeriveIsolationKey 1001 ''nav'') ''odom.pose'' \<and>
   ShmSegmentName (DeriveIsolationKey 1000 ''nav'') ''odom.pose'' \<noteq> ShmSegmentName (DeriveIsolationKey 1000 ''nav_odom'') ''pose''"
proof -
  have b: "length (plain_name (DeriveIsolationKey 1000 ''nav'') ''odom.pose'') \<le> kNameBound" by code_simp
  have v: "valid_topic ''odom.pose''" "valid_topic ''pose''" "list_all key_char ''nav''" "list_all key_char ''nav_odom''" by code_simp+
  show ?thesis
    using segment_isolation [OF v(1,1) v(3,3), of 1000 1001] segment_isolation [OF v(1,2) v(3,4), of 1000 1000] b
    by (auto simp: domain_name_def)
qed

end
