(* ===== verification/Domain_Front.thy ===== *)
theory Domain_Front
  imports Domain_Properties Shm_Naming
begin

text \<open>
  \<^verbatim>\<open>src/domain.cpp\<close>: the process-wide registry of domain states with its weak references, the factories and
  moves of \<^verbatim>\<open>Domain\<close>, the support matrix and the readiness barrier \<^verbatim>\<open>WaitUntilMatched\<close>.
\<close>

section \<open>Domains\<close>

datatype Reach = Reach_kInProcess | Reach_kPosixShm | Reach_kIceoryx2 | Reach_kZenoh

text \<open>\<^verbatim>\<open>state_\<close> is the number of the domain state it points to.\<close>

record DomainImpl =
  reach :: Reach
  impl_state :: "nat option"
  shm_key :: string

definition available :: "DomainImpl \<Rightarrow> bool" where
  "available d \<longleftrightarrow> impl_state d \<noteq> None \<or> shm_key d \<noteq> []"

datatype Contract = kLatestOnly_c | kBoundedQueue | kReliableQueue | kZeroCopyLoan | kLateJoinWarmStart
  | kRequestResponse | kDeadline | kSharedOwnership

text \<open>A handle's \<^verbatim>\<open>impl_\<close>; \<open>None\<close> is the null pointer of a moved-from \<^verbatim>\<open>Domain\<close>.\<close>

definition Supports :: "DomainImpl option \<Rightarrow> Contract \<Rightarrow> bool" where
  "Supports impl contract = (case impl of None \<Rightarrow> False | Some d \<Rightarrow>
     if \<not> available d then False
     else if reach d = Reach_kPosixShm then
       (case contract of
          kLatestOnly_c \<Rightarrow> True | kBoundedQueue \<Rightarrow> True | kLateJoinWarmStart \<Rightarrow> True | kDeadline \<Rightarrow> True
        | kReliableQueue \<Rightarrow> False | kZeroCopyLoan \<Rightarrow> False | kRequestResponse \<Rightarrow> False | kSharedOwnership \<Rightarrow> False)
     else True)"

definition reach_name :: "DomainImpl option \<Rightarrow> string" where
  "reach_name impl = (case impl of None \<Rightarrow> ''moved-from'' | Some d \<Rightarrow>
     (case reach d of Reach_kInProcess \<Rightarrow> ''in-process'' | Reach_kPosixShm \<Rightarrow> ''posix-shm''
      | Reach_kIceoryx2 \<Rightarrow> ''iceoryx2'' | Reach_kZenoh \<Rightarrow> ''zenoh''))"

section \<open>The registry of domain states\<close>

text \<open>\<open>refs\<close> are the strong counts of the shared pointers, \<open>keys\<close> the \<^verbatim>\<open>key_\<close> of each state; a weak pointer locks when the
  strong count is positive. \<open>doms\<close> are the \<^verbatim>\<open>Domain\<close> handles of the process, \<open>ends\<close> the states its endpoints hold.\<close>

record process =
  registry :: "string \<Rightarrow> nat option"
  refs :: "nat \<Rightarrow> nat"
  keys :: "nat \<Rightarrow> string"
  next_id :: nat
  doms :: "DomainImpl option list"
  ends :: "nat option list"

definition process_init :: process where
  "process_init = \<lparr>registry = (\<lambda>_. None), refs = (\<lambda>_. 0), keys = (\<lambda>_. []), next_id = 0, doms = [], ends = []\<rparr>"

definition AcquireDomainState :: "string \<Rightarrow> process \<Rightarrow> nat \<times> process" where
  "AcquireDomainState key pr =
     (let fresh = (next_id pr, pr\<lparr>registry := (registry pr)(key \<mapsto> next_id pr), refs := (refs pr)(next_id pr := 1),
                     keys := (keys pr)(next_id pr := key), next_id := next_id pr + 1\<rparr>)
      in case registry pr key of None \<Rightarrow> fresh
      | Some i \<Rightarrow> if refs pr i = 0 then fresh else (i, pr\<lparr>refs := (refs pr)(i := refs pr i + 1)\<rparr>))"

definition drop_ref :: "nat option \<Rightarrow> process \<Rightarrow> process" where
  "drop_ref st pr = (case st of None \<Rightarrow> pr | Some i \<Rightarrow> pr\<lparr>refs := (refs pr)(i := refs pr i - 1)\<rparr>)"

definition Domain_InProcess :: "nat \<Rightarrow> string \<Rightarrow> process \<Rightarrow> process" where
  "Domain_InProcess euid nm pr = (case AcquireDomainState (DeriveIsolationKey euid nm) pr of (i, pr') \<Rightarrow>
     pr'\<lparr>doms := doms pr' @ [Some \<lparr>reach = Reach_kInProcess, impl_state = Some i, shm_key = []\<rparr>]\<rparr>)"

text \<open>\<open>has_shm\<close> is the build option \<^verbatim>\<open>XMMESSAGING_HAS_POSIX_SHM\<close>.\<close>

definition Domain_PosixShm :: "bool \<Rightarrow> nat \<Rightarrow> string \<Rightarrow> process \<Rightarrow> process" where
  "Domain_PosixShm has_shm euid nm pr = pr\<lparr>doms := doms pr @ [Some \<lparr>reach = Reach_kPosixShm, impl_state = None,
     shm_key = (if has_shm then DeriveIsolationKey euid nm else [])\<rparr>]\<rparr>"

definition Domain_Iceoryx2 :: "process \<Rightarrow> process" where
  "Domain_Iceoryx2 pr = pr\<lparr>doms := doms pr @ [Some \<lparr>reach = Reach_kIceoryx2, impl_state = None, shm_key = []\<rparr>]\<rparr>"

definition Domain_Zenoh :: "process \<Rightarrow> process" where
  "Domain_Zenoh pr = pr\<lparr>doms := doms pr @ [Some \<lparr>reach = Reach_kZenoh, impl_state = None, shm_key = []\<rparr>]\<rparr>"

definition Domain_move :: "nat \<Rightarrow> process \<Rightarrow> process" where
  "Domain_move g pr = pr\<lparr>doms := (doms pr)[g := None] @ [doms pr ! g]\<rparr>"

definition Domain_dtor :: "nat \<Rightarrow> process \<Rightarrow> process" where
  "Domain_dtor h pr = (drop_ref (Option.bind (doms pr ! h) impl_state) pr)\<lparr>doms := (doms pr)[h := None]\<rparr>"

definition Domain_assign :: "nat \<Rightarrow> nat \<Rightarrow> process \<Rightarrow> process" where
  "Domain_assign h g pr = (if h = g then pr
     else (drop_ref (Option.bind (doms pr ! h) impl_state) pr)\<lparr>doms := (doms pr)[h := doms pr ! g, g := None]\<rparr>)"

text \<open>An endpoint keeps a reference to the state of the domain it was wired on, and its destructor drops it.\<close>

definition wire :: "nat \<Rightarrow> process \<Rightarrow> process" where
  "wire i pr = pr\<lparr>refs := (refs pr)(i := refs pr i + 1), ends := ends pr @ [Some i]\<rparr>"

definition unwire :: "nat \<Rightarrow> process \<Rightarrow> process" where
  "unwire e pr = (drop_ref (ends pr ! e) pr)\<lparr>ends := (ends pr)[e := None]\<rparr>"

inductive process_reachable :: "nat \<Rightarrow> bool \<Rightarrow> process \<Rightarrow> bool" for euid :: nat and has_shm :: bool where
  start: "process_reachable euid has_shm process_init"
| in_process: "process_reachable euid has_shm pr \<Longrightarrow> process_reachable euid has_shm (Domain_InProcess euid nm pr)"
| posix_shm: "process_reachable euid has_shm pr \<Longrightarrow> process_reachable euid has_shm (Domain_PosixShm has_shm euid nm pr)"
| iceoryx2: "process_reachable euid has_shm pr \<Longrightarrow> process_reachable euid has_shm (Domain_Iceoryx2 pr)"
| zenoh: "process_reachable euid has_shm pr \<Longrightarrow> process_reachable euid has_shm (Domain_Zenoh pr)"
| move: "process_reachable euid has_shm pr \<Longrightarrow> g < length (doms pr) \<Longrightarrow> process_reachable euid has_shm (Domain_move g pr)"
| dtor: "process_reachable euid has_shm pr \<Longrightarrow> h < length (doms pr) \<Longrightarrow> process_reachable euid has_shm (Domain_dtor h pr)"
| assign: "process_reachable euid has_shm pr \<Longrightarrow> h < length (doms pr) \<Longrightarrow> g < length (doms pr) \<Longrightarrow>
    process_reachable euid has_shm (Domain_assign h g pr)"
| wire: "process_reachable euid has_shm pr \<Longrightarrow> doms pr ! g = Some d \<Longrightarrow> g < length (doms pr) \<Longrightarrow>
    impl_state d = Some i \<Longrightarrow> process_reachable euid has_shm (wire i pr)"
| unwire: "process_reachable euid has_shm pr \<Longrightarrow> e < length (ends pr) \<Longrightarrow> process_reachable euid has_shm (unwire e pr)"

section \<open>Sharing\<close>

definition holds_state :: "nat \<Rightarrow> DomainImpl \<Rightarrow> bool" where
  "holds_state i d \<longleftrightarrow> impl_state d = Some i"

text \<open>Strong counts are the holders; a held state is the one its key's registry entry points to.\<close>

definition process_inv :: "process \<Rightarrow> bool" where
  "process_inv pr \<longleftrightarrow> (\<forall>i. refs pr i = cnt (holds_state i) (doms pr) + cnt ((=) i) (ends pr)) \<and>
     (\<forall>i. 0 < refs pr i \<longrightarrow> i < next_id pr \<and> registry pr (keys pr i) = Some i) \<and>
     (\<forall>k i. registry pr k = Some i \<longrightarrow> i < next_id pr \<and> keys pr i = k)"

lemma cnt_update:
  assumes "h < length xs"
  shows "cnt P (xs[h := y]) + (case xs ! h of None \<Rightarrow> 0 | Some x \<Rightarrow> if P x then 1 else 0) =
    cnt P xs + (case y of None \<Rightarrow> 0 | Some x \<Rightarrow> if P x then 1 else 0)"
  using assms unfolding cnt_def by (induction xs arbitrary: h) (auto split: nat.splits option.splits simp: nth_Cons')

lemma cnt_snoc: "cnt P (xs @ [y]) = cnt P xs + (case y of None \<Rightarrow> 0 | Some x \<Rightarrow> if P x then 1 else 0)"
  by (simp add: cnt_def split: option.splits)

lemma cnt_pos: "h < length xs \<Longrightarrow> xs ! h = Some x \<Longrightarrow> P x \<Longrightarrow> 0 < cnt P xs"
  using cnt_remove [of h xs x P] by simp

lemma process_invI:
  assumes "process_inv pr" "\<And>i. refs pr' i = cnt (holds_state i) (doms pr') + cnt ((=) i) (ends pr')"
    and "registry pr' = registry pr" "keys pr' = keys pr" "next_id pr' = next_id pr" "\<And>i. 0 < refs pr' i \<Longrightarrow> 0 < refs pr i"
  shows "process_inv pr'"
  using assms by (simp add: process_inv_def)

lemma cnt_holder:
  "(case y of None \<Rightarrow> (0 :: nat) | Some x \<Rightarrow> if holds_state i x then 1 else 0) = (if Option.bind y impl_state = Some i then 1 else 0)"
  by (auto simp: holds_state_def split: option.splits)

lemma drop_ref_simps [simp]:
  "refs (drop_ref st pr) i = refs pr i - (if st = Some i then 1 else 0)" "registry (drop_ref st pr) = registry pr"
  "keys (drop_ref st pr) = keys pr" "next_id (drop_ref st pr) = next_id pr" "ends (drop_ref st pr) = ends pr" "doms (drop_ref st pr) = doms pr"
  by (auto simp: drop_ref_def split: option.splits)

lemma process_inv_refs: "process_inv pr \<Longrightarrow> refs pr i = cnt (holds_state i) (doms pr) + cnt ((=) i) (ends pr)"
  by (simp add: process_inv_def)

lemma process_inv_dtor: "process_inv pr \<Longrightarrow> h < length (doms pr) \<Longrightarrow> process_inv (Domain_dtor h pr)"
proof (rule process_invI)
  fix i assume inv: "process_inv pr" and h: "h < length (doms pr)"
  show "refs (Domain_dtor h pr) i = cnt (holds_state i) (doms (Domain_dtor h pr)) + cnt ((=) i) (ends (Domain_dtor h pr))"
    using cnt_update [OF h, of "holds_state i" None] process_inv_refs [OF inv, of i] by (simp add: Domain_dtor_def cnt_holder split: if_splits)
qed (auto simp: Domain_dtor_def)

lemma process_inv_assign:
  assumes "process_inv pr" "h < length (doms pr)" "g < length (doms pr)"
  shows "process_inv (Domain_assign h g pr)"
proof (cases "h = g")
  case False
  show ?thesis
  proof (rule process_invI [OF assms(1)])
    fix i
    let ?P = "holds_state i" and ?xs = "(doms pr)[h := doms pr ! g]"
    have "cnt ?P ?xs + (if Option.bind (doms pr ! h) impl_state = Some i then 1 else 0) =
        cnt ?P (doms pr) + (if Option.bind (doms pr ! g) impl_state = Some i then 1 else 0)"
      using cnt_update [OF assms(2), of ?P "doms pr ! g"] by (simp add: cnt_holder)
    moreover have "cnt ?P (?xs[g := None]) + (if Option.bind (doms pr ! g) impl_state = Some i then 1 else 0) = cnt ?P ?xs"
      using cnt_update [of g ?xs ?P None] assms False by (simp add: cnt_holder)
    ultimately show "refs (Domain_assign h g pr) i = cnt ?P (doms (Domain_assign h g pr)) + cnt ((=) i) (ends (Domain_assign h g pr))"
      using process_inv_refs [OF assms(1), of i] False by (simp add: Domain_assign_def split: if_splits)
  qed (use False in \<open>auto simp: Domain_assign_def\<close>)
qed (use assms in \<open>simp add: Domain_assign_def\<close>)

lemma process_inv_move:
  assumes "process_inv pr" "g < length (doms pr)"
  shows "process_inv (Domain_move g pr)"
proof (rule process_invI [OF assms(1)])
  fix i
  show "refs (Domain_move g pr) i = cnt (holds_state i) (doms (Domain_move g pr)) + cnt ((=) i) (ends (Domain_move g pr))"
    using cnt_update [OF assms(2), of "holds_state i" None] process_inv_refs [OF assms(1), of i]
    by (simp add: Domain_move_def cnt_snoc)
qed (simp_all add: Domain_move_def)

lemma process_inv_unwire:
  assumes "process_inv pr" "e < length (ends pr)"
  shows "process_inv (unwire e pr)"
proof (rule process_invI [OF assms(1)])
  fix i
  have "cnt ((=) i) ((ends pr)[e := None]) + (if ends pr ! e = Some i then 1 else 0) = cnt ((=) i) (ends pr)"
    using cnt_update [OF assms(2), of "(=) i" None] by (auto split: option.splits if_splits)
  then show "refs (unwire e pr) i = cnt (holds_state i) (doms (unwire e pr)) + cnt ((=) i) (ends (unwire e pr))"
    using process_inv_refs [OF assms(1), of i] by (simp add: unwire_def split: if_splits)
qed (auto simp: unwire_def)

lemma process_inv_other: "process_inv pr \<Longrightarrow> impl_state d = None \<Longrightarrow> process_inv (pr\<lparr>doms := doms pr @ [Some d]\<rparr>)"
  by (auto simp: process_inv_def holds_state_def)

lemma Acquire_state_spec:
  assumes inv: "process_inv pr" and a: "AcquireDomainState key pr = (i, pr')"
  shows "keys pr' i = key" "process_inv (pr'\<lparr>doms := doms pr' @ [Some \<lparr>reach = r, impl_state = Some i, shm_key = k\<rparr>]\<rparr>)"
proof -
  note rf = process_inv_refs [OF inv]
  consider (fresh) "i = next_id pr" "pr' = pr\<lparr>registry := (registry pr)(key \<mapsto> next_id pr), refs := (refs pr)(next_id pr := 1),
      keys := (keys pr)(next_id pr := key), next_id := next_id pr + 1\<rparr>" "registry pr key = None \<or> refs pr (the (registry pr key)) = 0"
    | (shared) "registry pr key = Some i" "pr' = pr\<lparr>refs := (refs pr)(i := refs pr i + 1)\<rparr>" "0 < refs pr i"
    using a by (auto simp: AcquireDomainState_def Let_def split: option.splits if_splits)
  then have "keys pr' i = key \<and> process_inv (pr'\<lparr>doms := doms pr' @ [Some \<lparr>reach = r, impl_state = Some i, shm_key = k\<rparr>]\<rparr>)"
  proof cases
    case fresh
    have z: "refs pr (next_id pr) = 0" using inv by (auto simp: process_inv_def)
    have old: "j < next_id pr" "registry pr (keys pr j) = Some j" if "0 < refs pr j" for j
      using inv that unfolding process_inv_def by blast+
    have "registry pr' (keys pr' j) = Some j \<and> j < next_id pr'" if "0 < refs pr j" for j
    proof -
      have "keys pr j \<noteq> key" using old(2) [OF that] fresh(3) that by auto
      then show ?thesis using old [OF that] fresh(2) by simp
    qed
    moreover have "keys pr' j = l \<and> j < next_id pr'" if "registry pr' l = Some j" for j l
      using that inv fresh by (force simp: process_inv_def split: if_splits)
    moreover have "cnt (holds_state (next_id pr)) (doms pr) = 0" "cnt ((=) (next_id pr)) (ends pr) = 0" using z rf by simp_all
    moreover have "refs pr' j = (if j = next_id pr then 1 else refs pr j)" "doms pr' = doms pr" "ends pr' = ends pr" "keys pr' i = key" for j
      using fresh by auto
    moreover have "registry pr' key = Some i" "i < next_id pr'" using fresh by simp_all
    ultimately show ?thesis using fresh(1) unfolding process_inv_def by (simp add: rf holds_state_def split: if_splits)
  next
    case shared
    then have "keys pr i = key" using inv by (simp add: process_inv_def)
    then show ?thesis using shared inv by (auto simp: process_inv_def holds_state_def)
  qed
  then show "keys pr' i = key" "process_inv (pr'\<lparr>doms := doms pr' @ [Some \<lparr>reach = r, impl_state = Some i, shm_key = k\<rparr>]\<rparr>)" by blast+
qed

lemma process_reachable_inv: "process_reachable euid has_shm pr \<Longrightarrow> process_inv pr"
proof (induction rule: process_reachable.induct)
  case start
  show ?case by (simp add: process_inv_def process_init_def)
next
  case (in_process pr nm)
  then show ?case using Acquire_state_spec(2) by (auto simp: Domain_InProcess_def split: prod.splits)
next
  case (wire pr g d i)
  have "0 < refs pr i"
    using process_inv_refs [OF wire.IH, of i] cnt_pos [of g "doms pr" d "holds_state i"] wire by (simp add: holds_state_def)
  then show ?case using wire.IH by (auto simp: process_inv_def wire_def)
qed (simp_all add: process_inv_other process_inv_move process_inv_dtor process_inv_assign process_inv_unwire
      Domain_PosixShm_def Domain_Iceoryx2_def Domain_Zenoh_def)

text \<open>C24. Isolation of in-process domains: a new \<^verbatim>\<open>Domain\<close> gets a state of its own key, and in every process the states held by
  any two live handles or endpoints are the same exactly when their keys are equal. A state lives as long as it is held.\<close>

theorem domain_sharing:
  assumes "process_reachable euid has_shm pr"
  shows "keys (snd (AcquireDomainState key pr)) (fst (AcquireDomainState key pr)) = key \<and>
    (\<forall>i j. 0 < refs pr i \<longrightarrow> 0 < refs pr j \<longrightarrow> (i = j \<longleftrightarrow> keys pr i = keys pr j)) \<and>
    (\<forall>i. refs pr i = cnt (holds_state i) (doms pr) + cnt ((=) i) (ends pr))"
proof (intro conjI)
  have inv: "process_inv pr" by (rule process_reachable_inv [OF assms])
  show "keys (snd (AcquireDomainState key pr)) (fst (AcquireDomainState key pr)) = key"
    by (rule Acquire_state_spec(1) [OF inv]) simp
  show "\<forall>i j. 0 < refs pr i \<longrightarrow> 0 < refs pr j \<longrightarrow> (i = j \<longleftrightarrow> keys pr i = keys pr j)"
    using inv unfolding process_inv_def by (metis option.inject)
  show "\<forall>i. refs pr i = cnt (holds_state i) (doms pr) + cnt ((=) i) (ends pr)" using process_inv_refs [OF inv] by blast
qed

theorem domain_sharing_witness:
  "fst (AcquireDomainState ''u0.nav'' (Domain_InProcess 0 ''nav'' process_init)) = 0 \<and>
   keys (snd (AcquireDomainState ''u0.nav'' (Domain_InProcess 0 ''nav'' process_init)))
     (fst (AcquireDomainState ''u0.nav'' (Domain_InProcess 0 ''nav'' process_init))) = ''u0.nav''"
proof
  have "DeriveIsolationKey 0 ''nav'' = ''u0.nav''" by code_simp
  then show "fst (AcquireDomainState ''u0.nav'' (Domain_InProcess 0 ''nav'' process_init)) = 0"
    by (simp add: Domain_InProcess_def AcquireDomainState_def process_init_def)
  have "process_reachable 0 True (Domain_InProcess 0 ''nav'' process_init)" by (intro process_reachable.intros)
  from domain_sharing [OF this, of "''u0.nav''"]
  show "keys (snd (AcquireDomainState ''u0.nav'' (Domain_InProcess 0 ''nav'' process_init)))
     (fst (AcquireDomainState ''u0.nav'' (Domain_InProcess 0 ''nav'' process_init))) = ''u0.nav''" by blast
qed

section \<open>The readiness barrier\<close>

text \<open>\<open>peers k\<close> are the matching peers observed at poll \<open>k\<close>, \<open>clock k\<close> the clock reading that follows; an endpoint pointer may
  be null. \<open>None\<close> is a loop that never returns.\<close>

definition all_matched :: "nat option list \<Rightarrow> (nat \<Rightarrow> u64) \<Rightarrow> bool" where
  "all_matched endpoints c = list_all (\<lambda>e. case e of None \<Rightarrow> True | Some h \<Rightarrow> c h \<noteq> 0) endpoints"

partial_function (option) wait_loop :: "(nat \<Rightarrow> bool) \<Rightarrow> (nat \<Rightarrow> nanos) \<Rightarrow> nanos \<Rightarrow> nat \<Rightarrow> WaitStatus option" where
  "wait_loop matched clock deadline_at k =
     (if matched k then Some Wait_kMatched
      else if deadline_at - clock k \<le> 0 then Some Wait_kDeadlineExpired
      else wait_loop matched clock deadline_at (Suc k))"

definition WaitUntilMatched :: "DomainImpl option \<Rightarrow> nat option list \<Rightarrow> (nat \<Rightarrow> nat \<Rightarrow> u64) \<Rightarrow> nanos \<Rightarrow> (nat \<Rightarrow> nanos) \<Rightarrow> nanos \<Rightarrow>
  WaitStatus option" where
  "WaitUntilMatched impl endpoints peers entry_time clock timeout =
     (case impl of None \<Rightarrow> Some (if endpoints = [] then Wait_kMatched else Wait_kDeadlineExpired)
      | Some d \<Rightarrow> if \<not> available d then Some (if endpoints = [] then Wait_kMatched else Wait_kDeadlineExpired)
          else wait_loop (\<lambda>k. all_matched endpoints (peers k)) clock (entry_time + timeout) 0)"

definition kPollNs :: nanos where
  "kPollNs = 1000000"

lemma wait_loop_stops:
  assumes "j \<le> k" "matched k \<or> deadline_at \<le> clock k" "\<forall>i. j \<le> i \<and> i < k \<longrightarrow> \<not> matched i \<and> clock i < deadline_at"
  shows "wait_loop matched clock deadline_at j = Some (if matched k then Wait_kMatched else Wait_kDeadlineExpired)"
  using assms
proof (induction "k - j" arbitrary: j)
  case 0
  then have "j = k" by simp
  then show ?case using 0(3) by (auto simp: wait_loop.simps [of matched clock deadline_at k])
next
  case (Suc n)
  then have "wait_loop matched clock deadline_at (Suc j) = Some (if matched k then Wait_kMatched else Wait_kDeadlineExpired)"
    by (intro Suc.hyps) auto
  moreover have "\<not> matched j" "clock j < deadline_at" using Suc.prems Suc.hyps(2) by auto
  ultimately show ?case by (simp add: wait_loop.simps [of matched clock deadline_at j])
qed

lemma clock_progress:
  assumes "\<And>k. clock k < dl \<Longrightarrow> min dl (clock k + kPollNs) \<le> clock (Suc k)"
  shows "(\<exists>i \<le> k. dl \<le> clock i) \<or> clock 0 + int k * kPollNs \<le> clock k"
proof (induction k)
  case (Suc k)
  show ?case
  proof (cases "\<exists>i \<le> k. dl \<le> clock i")
    case False
    then have "clock k < dl" by (meson linorder_not_less order_refl)
    with assms have "min dl (clock k + kPollNs) \<le> clock (Suc k)" .
    then show ?thesis using Suc False by (auto simp: algebra_simps min_def split: if_splits)
  qed (meson le_Suc_eq)
qed simp

text \<open>C25. The barrier is bounded: as long as \<^verbatim>\<open>sleep_for\<close> sleeps at least what it was asked for, the call on an available domain
  returns after at most one poll per millisecond of deadline plus two, with \<^verbatim>\<open>kMatched\<close> exactly when some poll before the
  deadline saw every endpoint matched.\<close>

theorem WaitUntilMatched_bounded:
  assumes "available d" "entry_time \<le> clock 0"
    and "\<forall>k. clock k < entry_time + timeout \<longrightarrow> clock k + min (entry_time + timeout - clock k) kPollNs \<le> clock (Suc k)"
  shows "\<exists>st k. WaitUntilMatched (Some d) endpoints peers entry_time clock timeout = Some st \<and>
     k \<le> nat timeout div nat kPollNs + 1 \<and>
     (st = Wait_kMatched \<longleftrightarrow> all_matched endpoints (peers k)) \<and>
     (\<forall>j < k. \<not> all_matched endpoints (peers j) \<and> clock j < entry_time + timeout) \<and>
     (st = Wait_kDeadlineExpired \<longrightarrow> entry_time + timeout \<le> clock k)"
proof -
  let ?m = "\<lambda>k. all_matched endpoints (peers k)" and ?dl = "entry_time + timeout"
  let ?stop = "\<lambda>k. ?m k \<or> ?dl \<le> clock k" and ?n = "nat timeout div nat kPollNs + 1"
  have prog: "min ?dl (clock k + kPollNs) \<le> clock (Suc k)" if "clock k < ?dl" for k
    using assms(3) that by (auto simp: min_def split: if_splits)
  from clock_progress [of clock ?dl ?n, OF prog] have "\<exists>i \<le> ?n. ?dl \<le> clock i"
  proof
    assume "clock 0 + int ?n * kPollNs \<le> clock ?n"
    moreover have "timeout < int ?n * kPollNs"
    proof -
      have "int (nat timeout) = int (nat timeout div nat kPollNs) * kPollNs + int (nat timeout mod nat kPollNs)"
        by (simp add: kPollNs_def zdiv_int zmod_int)
      moreover have "int (nat timeout mod nat kPollNs) < kPollNs" by (simp add: kPollNs_def zmod_int)
      ultimately show ?thesis by (simp add: kPollNs_def algebra_simps)
    qed
    ultimately show ?thesis using assms(2) by (intro exI [of _ ?n]) linarith
  qed
  then obtain i where i: "i \<le> ?n" "?stop i" by blast
  define k where "k = (LEAST k. ?stop k)"
  have k: "?stop k" "k \<le> i" "\<And>j. j < k \<Longrightarrow> \<not> ?stop j"
    using LeastI [of ?stop, OF i(2)] Least_le [of ?stop, OF i(2)] not_less_Least [of _ ?stop] unfolding k_def by blast+
  have "wait_loop ?m clock ?dl 0 = Some (if ?m k then Wait_kMatched else Wait_kDeadlineExpired)"
    by (rule wait_loop_stops) (use k in \<open>auto simp: not_le\<close>)
  then show ?thesis using assms(1) k i(1)
    by (intro exI [of _ "if ?m k then Wait_kMatched else Wait_kDeadlineExpired"] exI [of _ k]) (auto simp: WaitUntilMatched_def not_le)
qed

theorem WaitUntilMatched_bounded_witness:
  "\<exists>st k. WaitUntilMatched (Some \<lparr>reach = Reach_kPosixShm, impl_state = None, shm_key = ''u0.nav''\<rparr>) [Some 0] (\<lambda>k h. of_nat k) 0
     (\<lambda>k. int k * kPollNs) 5000000 = Some st \<and> k \<le> nat 5000000 div nat kPollNs + 1"
proof -
  let ?d = "\<lparr>reach = Reach_kPosixShm, impl_state = None, shm_key = ''u0.nav''\<rparr>"
  have "\<forall>k. int k * kPollNs < 0 + 5000000 \<longrightarrow> int k * kPollNs + min (0 + 5000000 - int k * kPollNs) kPollNs \<le> int (Suc k) * kPollNs"
    by (simp add: algebra_simps)
  moreover have "available ?d" "0 \<le> int 0 * kPollNs" by (simp_all add: available_def)
  ultimately show ?thesis
    using WaitUntilMatched_bounded [of ?d 0 "\<lambda>k. int k * kPollNs" 5000000 "[Some 0]" "\<lambda>k h. of_nat k"] by blast
qed

end
