(* ===== verification/Shm_Segment.thy ===== *)
theory Shm_Segment
  imports Topic_Fanout Shm_Naming
begin

text \<open>
  \<^verbatim>\<open>include/xmmsg/detail/shm_segment.hpp\<close>: the shared segment, its header and slots, and the race-safe
  \<^verbatim>\<open>OpenOrCreate\<close>; and \<^verbatim>\<open>ShmTopicAttachment\<close> of \<^verbatim>\<open>posix_shm.hpp\<close>, the layout of the data plane and \<^verbatim>\<open>Attach\<close>. What the
  operating system answers to each call is an argument.
\<close>

section \<open>Header\<close>

definition kShmMagic :: u64 where "kShmMagic = 0x31455347534D4D58"
definition kShmLayoutVersion :: u32 where "kShmLayoutVersion = 3"
definition kShmEnvelopeVersion :: u32 where "kShmEnvelopeVersion = 0"
definition kShmMaxSubscribers :: nat where "kShmMaxSubscribers = 16"
definition kShmRingCapacity :: u32 where "kShmRingCapacity = 16"
definition kShmSubFree :: u32 where "kShmSubFree = 0"
definition kShmSubClaimed :: u32 where "kShmSubClaimed = 1"
definition kShmSubActive :: u32 where "kShmSubActive = 2"
definition kShmBaselineUnset :: u64 where "kShmBaselineUnset = - 1"

record ShmSubSlot =
  ss_state :: u32
  ss_pid :: u32
  ss_history_kind :: u32
  ss_queue_depth :: u32
  ss_last_consumed_ordinal :: u64
  ss_take_count :: u64
  ss_drop_count :: u64
  ss_overwrite_count :: u64
  ss_deadline_miss_count :: u64

definition ShmSubSlot_zero :: ShmSubSlot where
  "ShmSubSlot_zero = \<lparr>ss_state = 0, ss_pid = 0, ss_history_kind = 0, ss_queue_depth = 0, ss_last_consumed_ordinal = 0,
     ss_take_count = 0, ss_drop_count = 0, ss_overwrite_count = 0, ss_deadline_miss_count = 0\<rparr>"

record ShmSegmentHeader =
  h_magic :: u64
  h_layout_version :: u32
  h_envelope_version :: u32
  h_schema_hash :: u64
  h_payload_size :: u64
  h_payload_align :: u64
  h_total_size :: u64
  h_max_subscribers :: u32
  h_ring_capacity :: u32
  h_creator_history_kind :: u32
  h_creator_queue_depth :: u32
  h_init_state :: u32
  h_futex_word :: u32
  h_accepted_ordinal :: u64
  h_pub_pid :: u32
  h_pub_epoch :: u32
  h_pub_publish_count :: u64
  h_pub_bytes :: u64
  h_refusal_count :: u64
  h_refused_schema_hash :: u64
  h_refused_payload_size :: u64
  h_refused_pid :: u32
  h_reserved0 :: u32
  h_sub_slots :: "ShmSubSlot list"

text \<open>Fresh pages of the kernel are zero.\<close>

definition ShmSegmentHeader_zero :: ShmSegmentHeader where
  "ShmSegmentHeader_zero = \<lparr>h_magic = 0, h_layout_version = 0, h_envelope_version = 0, h_schema_hash = 0, h_payload_size = 0,
     h_payload_align = 0, h_total_size = 0, h_max_subscribers = 0, h_ring_capacity = 0, h_creator_history_kind = 0,
     h_creator_queue_depth = 0, h_init_state = 0, h_futex_word = 0, h_accepted_ordinal = 0, h_pub_pid = 0, h_pub_epoch = 0, h_pub_publish_count = 0,
     h_pub_bytes = 0, h_refusal_count = 0, h_refused_schema_hash = 0, h_refused_payload_size = 0, h_refused_pid = 0, h_reserved0 = 0,
     h_sub_slots = replicate kShmMaxSubscribers ShmSubSlot_zero\<rparr>"

definition kHeaderSize :: nat where
  "kHeaderSize = 1032"

text \<open>A shared-memory object: its size, the header and the regions of the data plane.\<close>

record ('s, 'q) shm_object =
  obj_size :: nat
  header :: ShmSegmentHeader
  s_master :: 's
  s_latest :: "'s list"
  s_rings :: "'q list"

type_synonym ('s, 'q) dev_shm = "string \<Rightarrow> ('s, 'q) shm_object option"

definition ProcessAlive :: "(u32 \<Rightarrow> bool) \<Rightarrow> u32 \<Rightarrow> bool" where
  "ProcessAlive kill_probe pid \<longleftrightarrow> pid \<noteq> 0 \<and> kill_probe pid"

section \<open>Layout of the data plane\<close>

text \<open>The storage a mailbox and a ring of the payload need are constants of its type.\<close>

record footprint =
  slot_bytes :: nat
  ring_control_bytes :: nat
  ring_record_bytes :: nat

definition Align64 :: "nat \<Rightarrow> nat" where
  "Align64 v = (v + 63) div 64 * 64"

definition LatestRegionBytes :: "footprint \<Rightarrow> nat" where
  "LatestRegionBytes f = Align64 (slot_bytes f)"

definition RingRegionBytes :: "footprint \<Rightarrow> nat" where
  "RingRegionBytes f = Align64 (Align64 (ring_control_bytes f) + unat kShmRingCapacity * ring_record_bytes f)"

definition SubRegionStride :: "footprint \<Rightarrow> nat" where
  "SubRegionStride f = LatestRegionBytes f + RingRegionBytes f"

definition MasterOffset :: nat where
  "MasterOffset = Align64 kHeaderSize"

definition SubRegionOffset :: "footprint \<Rightarrow> nat \<Rightarrow> nat" where
  "SubRegionOffset f i = MasterOffset + LatestRegionBytes f + i * SubRegionStride f"

definition TotalBytes :: "footprint \<Rightarrow> nat" where
  "TotalBytes f = SubRegionOffset f kShmMaxSubscribers"

definition SubLatestBase :: "footprint \<Rightarrow> nat \<Rightarrow> nat" where
  "SubLatestBase f i = SubRegionOffset f i"

definition SubRingBase :: "footprint \<Rightarrow> nat \<Rightarrow> nat" where
  "SubRingBase f i = SubRegionOffset f i + LatestRegionBytes f"

section \<open>Open or create\<close>

datatype ShmAttachStatus = Attach_kOk | Attach_kTypeMismatch | Attach_kUnavailable

datatype create_result = Created | Exists | Create_error
datatype open_result = Opened | Vanished | Open_error

text \<open>The answers of the system calls, per attempt where the loop repeats them: \<^verbatim>\<open>shm_open\<close> exclusive and plain, the size
  \<^verbatim>\<open>fstat\<close> reports and \<^verbatim>\<open>init_state\<close> at each poll, \<^verbatim>\<open>ftruncate\<close> and \<^verbatim>\<open>mmap\<close>.\<close>

record os =
  os_create :: "nat \<Rightarrow> create_result"
  os_open :: "nat \<Rightarrow> open_result"
  os_fstat :: "nat \<Rightarrow> nat \<Rightarrow> nat option"
  os_init_state :: "nat \<Rightarrow> nat \<Rightarrow> u32"
  os_ftruncate :: bool
  os_mmap_header :: bool
  os_mmap :: bool

record identity =
  id_hash :: u64
  id_size :: u64
  id_align :: u64
  id_total :: nat

definition kPolls :: nat where
  "kPolls = 2000"

text \<open>The first bounded wait: \<open>None\<close> when \<^verbatim>\<open>fstat\<close> fails, else whether the size was reached.\<close>

fun wait_size :: "(nat \<Rightarrow> nat option) \<Rightarrow> nat \<Rightarrow> nat \<Rightarrow> bool option" where
  "wait_size stat poll 0 = Some False"
| "wait_size stat poll (Suc n) = (case stat poll of None \<Rightarrow> None
   | Some sz \<Rightarrow> if kHeaderSize \<le> sz then Some True else wait_size stat (Suc poll) n)"

fun wait_ready :: "(nat \<Rightarrow> u32) \<Rightarrow> nat \<Rightarrow> nat \<Rightarrow> bool" where
  "wait_ready init_state poll 0 = False"
| "wait_ready init_state poll (Suc n) = (if init_state poll = 1 then True else wait_ready init_state (Suc poll) n)"

definition created_header :: "identity \<Rightarrow> Qos \<Rightarrow> ShmSegmentHeader" where
  "created_header d qos = ShmSegmentHeader_zero\<lparr>h_magic := kShmMagic, h_layout_version := kShmLayoutVersion,
     h_envelope_version := kShmEnvelopeVersion, h_schema_hash := id_hash d, h_payload_size := id_size d, h_payload_align := id_align d,
     h_total_size := of_nat (id_total d), h_max_subscribers := of_nat kShmMaxSubscribers, h_ring_capacity := kShmRingCapacity,
     h_creator_history_kind := (if hist_kind (history qos) = kLatestOnly then 0 else 1),
     h_creator_queue_depth := hist_depth (history qos)\<rparr>"

definition record_refusal :: "identity \<Rightarrow> u32 \<Rightarrow> ShmSegmentHeader \<Rightarrow> ShmSegmentHeader" where
  "record_refusal d pid h = h\<lparr>h_refused_schema_hash := id_hash d, h_refused_payload_size := id_size d, h_refused_pid := pid,
     h_refusal_count := h_refusal_count h + 1\<rparr>"

definition versions_ok :: "ShmSegmentHeader \<Rightarrow> bool" where
  "versions_ok h \<longleftrightarrow> h_magic h = kShmMagic \<and> h_layout_version h = kShmLayoutVersion \<and> h_envelope_version h = kShmEnvelopeVersion"

definition type_ok :: "identity \<Rightarrow> ShmSegmentHeader \<Rightarrow> bool" where
  "type_ok d h \<longleftrightarrow> h_schema_hash h = id_hash d \<and> h_payload_size h = id_size d \<and> h_payload_align h = id_align d"

definition layout_ok :: "identity \<Rightarrow> ShmSegmentHeader \<Rightarrow> bool" where
  "layout_ok d h \<longleftrightarrow> h_total_size h = of_nat (id_total d) \<and> h_max_subscribers h = of_nat kShmMaxSubscribers \<and>
     h_ring_capacity h = kShmRingCapacity"

text \<open>The attacher's path on an object it opened: its status, and the object it leaves.\<close>

definition attach_existing :: "os \<Rightarrow> nat \<Rightarrow> u32 \<Rightarrow> identity \<Rightarrow> ('s, 'q) shm_object \<Rightarrow> ShmAttachStatus \<times> ('s, 'q) shm_object" where
  "attach_existing os attempt pid d ob =
     (if wait_size (os_fstat os attempt) 0 kPolls \<noteq> Some True then (Attach_kUnavailable, ob)
      else if \<not> os_mmap_header os then (Attach_kUnavailable, ob)
      else if \<not> wait_ready (os_init_state os attempt) 0 kPolls then (Attach_kUnavailable, ob)
      else if \<not> versions_ok (header ob) then (Attach_kUnavailable, ob)
      else if \<not> type_ok d (header ob) then (Attach_kTypeMismatch, ob\<lparr>header := record_refusal d pid (header ob)\<rparr>)
      else if \<not> layout_ok d (header ob) then (Attach_kUnavailable, ob)
      else if \<not> os_mmap os then (Attach_kUnavailable, ob)
      else (Attach_kOk, ob))"

text \<open>The creator's path: the new object's data plane is what zeroed pages are before initialisation. The last component
  tells whether this call created the segment.\<close>

definition create_new :: "os \<Rightarrow> string \<Rightarrow> identity \<Rightarrow> Qos \<Rightarrow> ('s, 'q) shm_object \<Rightarrow> ('s, 'q) dev_shm \<Rightarrow>
  ShmAttachStatus \<times> bool \<times> ('s, 'q) dev_shm" where
  "create_new os nm d qos blank fs =
     (if \<not> os_ftruncate os then (Attach_kUnavailable, False, fs(nm := None))
      else if \<not> os_mmap os then (Attach_kUnavailable, False, fs(nm := None))
      else (Attach_kOk, True, fs(nm \<mapsto> blank\<lparr>obj_size := id_total d, header := created_header d qos\<rparr>)))"

fun open_attempts :: "nat \<Rightarrow> nat \<Rightarrow> os \<Rightarrow> string \<Rightarrow> u32 \<Rightarrow> identity \<Rightarrow> Qos \<Rightarrow> ('s, 'q) shm_object \<Rightarrow> ('s, 'q) dev_shm \<Rightarrow>
  ShmAttachStatus \<times> bool \<times> ('s, 'q) dev_shm" where
  "open_attempts attempt 0 os nm pid d qos blank fs = (Attach_kUnavailable, False, fs)"
| "open_attempts attempt (Suc n) os nm pid d qos blank fs = (case os_create os attempt of
     Created \<Rightarrow> create_new os nm d qos blank fs
   | Create_error \<Rightarrow> (Attach_kUnavailable, False, fs)
   | Exists \<Rightarrow> (case os_open os attempt of
       Vanished \<Rightarrow> open_attempts (Suc attempt) n os nm pid d qos blank fs
     | Open_error \<Rightarrow> (Attach_kUnavailable, False, fs)
     | Opened \<Rightarrow> (case fs nm of None \<Rightarrow> (Attach_kUnavailable, False, fs)
         | Some ob \<Rightarrow> (case attach_existing os attempt pid d ob of (st, ob') \<Rightarrow> (st, False, fs(nm \<mapsto> ob'))))))"

definition OpenOrCreate :: "os \<Rightarrow> string \<Rightarrow> u32 \<Rightarrow> identity \<Rightarrow> Qos \<Rightarrow> ('s, 'q) shm_object \<Rightarrow> ('s, 'q) dev_shm \<Rightarrow>
  ShmAttachStatus \<times> bool \<times> ('s, 'q) dev_shm" where
  "OpenOrCreate os nm pid d qos blank fs = open_attempts 0 4 os nm pid d qos blank fs"

definition MarkReady :: "('s, 'q) shm_object \<Rightarrow> ('s, 'q) shm_object" where
  "MarkReady ob = ob\<lparr>header := (header ob)\<lparr>h_init_state := 1\<rparr>\<rparr>"

text \<open>\<^verbatim>\<open>ShmTopicAttachment::Attach\<close>: the creator initialises the master slot, then publishes the segment.\<close>

definition Attach :: "('a, 's, 'q, 'c) XmBase \<Rightarrow> os \<Rightarrow> string \<Rightarrow> u32 \<Rightarrow> identity \<Rightarrow> Qos \<Rightarrow> ('s, 'q) shm_object \<Rightarrow> ('s, 'q) dev_shm \<Rightarrow>
  ShmAttachStatus \<times> ('s, 'q) dev_shm" where
  "Attach X os nm pid d qos blank fs = (case OpenOrCreate os nm pid d qos blank fs of
     (st, created, fs') \<Rightarrow>
       if st = Attach_kOk \<and> created
       then (st, case fs' nm of None \<Rightarrow> fs' | Some ob \<Rightarrow> fs'(nm \<mapsto> MarkReady (ob\<lparr>s_master := slot_new X\<rparr>)))
       else (st, fs'))"

section \<open>The regions do not overlap\<close>

lemma Align64_le: "v \<le> Align64 v" "64 dvd Align64 v"
  unfolding Align64_def by simp_all

text \<open>C26. The layout of the data plane tiles the segment: header, master slot and, per subscriber, mailbox and ring follow each
  other without overlap up to the total size, every region starts at a multiple of 64 and holds what is stored in it.\<close>

theorem layout_tiles:
  "kHeaderSize \<le> MasterOffset \<and> MasterOffset + LatestRegionBytes f = SubLatestBase f 0 \<and>
   (\<forall>i. SubLatestBase f i + LatestRegionBytes f = SubRingBase f i \<and> SubRingBase f i + RingRegionBytes f = SubLatestBase f (Suc i) \<and>
      64 dvd SubLatestBase f i \<and> 64 dvd SubRingBase f i) \<and>
   SubLatestBase f kShmMaxSubscribers = TotalBytes f \<and>
   slot_bytes f \<le> LatestRegionBytes f \<and> ring_control_bytes f + 16 * ring_record_bytes f \<le> RingRegionBytes f"
proof -
  have "ring_control_bytes f + 16 * ring_record_bytes f \<le> RingRegionBytes f"
    using Align64_le(1) [of "ring_control_bytes f"] Align64_le(1) [of "Align64 (ring_control_bytes f) + 16 * ring_record_bytes f"]
    by (simp add: RingRegionBytes_def kShmRingCapacity_def)
  moreover have "64 dvd RingRegionBytes f" "64 dvd LatestRegionBytes f" "64 dvd MasterOffset"
    by (simp_all add: RingRegionBytes_def LatestRegionBytes_def MasterOffset_def Align64_le(2))
  then have "64 dvd SubLatestBase f i" "64 dvd SubRingBase f i" for i
    by (simp_all add: SubLatestBase_def SubRingBase_def SubRegionOffset_def SubRegionStride_def)
  moreover have "kHeaderSize \<le> MasterOffset" "slot_bytes f \<le> LatestRegionBytes f"
    by (simp_all add: MasterOffset_def LatestRegionBytes_def Align64_le(1))
  ultimately show ?thesis
    by (simp add: SubLatestBase_def SubRingBase_def SubRegionOffset_def SubRegionStride_def TotalBytes_def)
qed

section \<open>The identity gates\<close>

lemma attach_existing_cases:
  assumes "attach_existing os attempt pid d ob = (st, ob')"
  shows "st = Attach_kOk \<Longrightarrow> versions_ok (header ob) \<and> type_ok d (header ob) \<and> layout_ok d (header ob) \<and> ob' = ob"
    "st = Attach_kTypeMismatch \<Longrightarrow> versions_ok (header ob) \<and> \<not> type_ok d (header ob) \<and> ob' = ob\<lparr>header := record_refusal d pid (header ob)\<rparr>"
    "st = Attach_kUnavailable \<Longrightarrow> ob' = ob"
  using assms by (auto simp: attach_existing_def split: if_splits)

text \<open>C20. The gate of \<^verbatim>\<open>OpenOrCreate\<close>, for every behaviour of the operating system: a successful attacher found the magic, the
  versions, the type identity and the layout it expects and changed nothing; a refused one found another type identity and only
  left its refusal record; no other segment is touched; and a call that reports a new segment wrote its own header into it.\<close>

theorem open_gate:
  assumes "OpenOrCreate os nm pid d qos blank fs = (st, created, fs')"
  shows "(\<forall>k. k \<noteq> nm \<longrightarrow> fs' k = fs k) \<and>
     (created \<longrightarrow> st = Attach_kOk \<and> (\<exists>ob. fs' nm = Some ob \<and> header ob = created_header d qos \<and> obj_size ob = id_total d)) \<and>
     (st = Attach_kOk \<longrightarrow> \<not> created \<longrightarrow> (\<exists>ob. fs nm = Some ob \<and> versions_ok (header ob) \<and> type_ok d (header ob) \<and> layout_ok d (header ob) \<and> fs' = fs)) \<and>
     (st = Attach_kTypeMismatch \<longrightarrow> (\<exists>ob. fs nm = Some ob \<and> versions_ok (header ob) \<and> \<not> type_ok d (header ob) \<and>
        fs' = fs(nm \<mapsto> ob\<lparr>header := record_refusal d pid (header ob)\<rparr>)))"
proof -
  have "open_attempts attempt n os nm pid d qos blank fs = (st, created, fs') \<Longrightarrow> ?thesis" for attempt n
  proof (induction n arbitrary: attempt)
    case (Suc n)
    consider (create) "os_create os attempt = Created" | (err) "os_create os attempt = Create_error \<or>
        (os_create os attempt = Exists \<and> os_open os attempt = Open_error)"
      | (again) "os_create os attempt = Exists" "os_open os attempt = Vanished"
      | (opened) "os_create os attempt = Exists" "os_open os attempt = Opened"
      by (cases "os_create os attempt"; cases "os_open os attempt") auto
    then show ?case
    proof cases
      case create
      then show ?thesis using Suc.prems by (auto simp: create_new_def split: if_splits)
    next
      case again
      have "open_attempts (Suc attempt) n os nm pid d qos blank fs = (st, created, fs')" using Suc.prems again by simp
      then show ?thesis by (rule Suc.IH)
    next
      case opened
      show ?thesis
      proof (cases "fs nm")
        case (Some ob)
        obtain st' ob' where a: "attach_existing os attempt pid d ob = (st', ob')" by fastforce
        from attach_existing_cases [OF a] show ?thesis using Suc.prems opened Some a by (cases st') (auto simp: map_upd_triv)
      qed (use Suc.prems opened in simp)
    qed (use Suc.prems in auto)
  qed simp
  then show ?thesis using assms unfolding OpenOrCreate_def by blast
qed

definition demo_os :: "create_result \<Rightarrow> os" where
  "demo_os c = \<lparr>os_create = (\<lambda>_. c), os_open = (\<lambda>_. Opened), os_fstat = (\<lambda>_ _. Some 4096), os_init_state = (\<lambda>_ _. 1), os_ftruncate = True,
     os_mmap_header = True, os_mmap = True\<rparr>"

definition demo_id :: "u64 \<Rightarrow> identity" where
  "demo_id hash = \<lparr>id_hash = hash, id_size = 24, id_align = 8, id_total = 4096\<rparr>"

definition demo_blank :: "(nat MailRecord option, nat \<times> nat MailRecord list) shm_object" where
  "demo_blank = \<lparr>obj_size = 0, header = ShmSegmentHeader_zero, s_master = None, s_latest = replicate kShmMaxSubscribers None,
     s_rings = replicate kShmMaxSubscribers (0, [])\<rparr>"

definition demo_segment :: "u64 \<Rightarrow> (nat MailRecord option, nat \<times> nat MailRecord list) shm_object" where
  "demo_segment hash = MarkReady (demo_blank\<lparr>obj_size := 4096, header := created_header (demo_id hash) Qos_default\<rparr>)"

lemma wait_size_now: "stat 0 = Some sz \<Longrightarrow> kHeaderSize \<le> sz \<Longrightarrow> wait_size stat 0 kPolls = Some True"
  by (simp add: kPolls_def numeral_eq_Suc)

lemma wait_ready_now: "init_state 0 = 1 \<Longrightarrow> wait_ready init_state 0 kPolls"
  by (simp add: kPolls_def numeral_eq_Suc)

lemma open_first:
  "os_create os 0 = Created \<Longrightarrow> OpenOrCreate os nm pid d qos blank fs = create_new os nm d qos blank fs"
  "os_create os 0 = Exists \<Longrightarrow> os_open os 0 = Opened \<Longrightarrow> fs nm = Some ob \<Longrightarrow> attach_existing os 0 pid d ob = (st, ob') \<Longrightarrow>
     OpenOrCreate os nm pid d qos blank fs = (st, False, fs(nm \<mapsto> ob'))"
  using open_attempts.simps(2) [of 0 3 os nm pid d qos blank fs] by (simp_all add: OpenOrCreate_def)

theorem open_gate_witness:
  "\<exists>fs'. OpenOrCreate (demo_os Exists) ''/xmmsg.u0.nav.pose'' 77 (demo_id 9) Qos_default demo_blank
       [''/xmmsg.u0.nav.pose'' \<mapsto> demo_segment 5] = (Attach_kTypeMismatch, False, fs') \<and>
     fs' ''/xmmsg.u0.nav.goal'' = None"
proof -
  have "attach_existing (demo_os Exists) 0 77 (demo_id 9) (demo_segment 5) =
      (Attach_kTypeMismatch, (demo_segment 5)\<lparr>header := record_refusal (demo_id 9) 77 (header (demo_segment 5))\<rparr>)"
    by (simp add: attach_existing_def wait_size_now [of _ 4096] wait_ready_now demo_os_def kHeaderSize_def demo_segment_def MarkReady_def
      created_header_def versions_ok_def type_ok_def demo_id_def)
  from open_first(2) [OF _ _ _ this] obtain fs' where "OpenOrCreate (demo_os Exists) ''/xmmsg.u0.nav.pose'' 77 (demo_id 9) Qos_default demo_blank
      [''/xmmsg.u0.nav.pose'' \<mapsto> demo_segment 5] = (Attach_kTypeMismatch, False, fs')"
    by (fastforce simp: demo_os_def)
  from this open_gate [OF this] show ?thesis by (intro exI [of _ fs']) simp
qed

text \<open>Matching does not depend on who came first: after one process created and published a segment, an attacher is
  accepted exactly when its type identity and layout are the creator's; another type is refused and the creator's header then shows
  the refused hash, size and process beside its own.\<close>

lemma attach_after_create:
  assumes "os_create os1 0 = Created" "os_ftruncate os1" "os_mmap os1"
    and "os_create os2 0 = Exists" "os_open os2 0 = Opened" "os_fstat os2 0 0 = Some (id_total d)" "kHeaderSize \<le> id_total d"
    and "os_init_state os2 0 0 = 1" "os_mmap_header os2" "os_mmap os2"
    and "Attach X os1 nm pid1 d qos1 blank fs = (st1, fs1)" "Attach X os2 nm pid2 e qos2 blank2 fs1 = (st2, fs2)"
  shows "st1 = Attach_kOk \<and> (\<exists>ob. fs1 nm = Some ob \<and> h_init_state (header ob) = 1 \<and> s_master ob = slot_new X \<and>
     (st2 = Attach_kOk \<longleftrightarrow> id_hash e = id_hash d \<and> id_size e = id_size d \<and> id_align e = id_align d \<and>
        (of_nat (id_total e) :: u64) = of_nat (id_total d)) \<and>
     (st2 = Attach_kTypeMismatch \<longleftrightarrow> \<not> (id_hash e = id_hash d \<and> id_size e = id_size d \<and> id_align e = id_align d)) \<and>
     fs2 nm = Some (if st2 = Attach_kTypeMismatch then ob\<lparr>header := record_refusal e pid2 (header ob)\<rparr> else ob) \<and>
     h_schema_hash (header ob) = id_hash d)"
proof -
  let ?ob = "MarkReady (blank\<lparr>obj_size := id_total d, header := created_header d qos1, s_master := slot_new X\<rparr>)"
  have 1: "st1 = Attach_kOk" "fs1 nm = Some ?ob"
    using assms(1-3,11) by (auto simp: Attach_def open_first(1) create_new_def)
  have h: "versions_ok (header ?ob)" "type_ok e (header ?ob) \<longleftrightarrow> id_hash e = id_hash d \<and> id_size e = id_size d \<and> id_align e = id_align d"
    "layout_ok e (header ?ob) \<longleftrightarrow> (of_nat (id_total e) :: u64) = of_nat (id_total d)"
    by (auto simp: versions_ok_def type_ok_def layout_ok_def MarkReady_def created_header_def)
  have "attach_existing os2 0 pid2 e ?ob = (if \<not> type_ok e (header ?ob) then (Attach_kTypeMismatch, ?ob\<lparr>header := record_refusal e pid2 (header ?ob)\<rparr>)
      else if \<not> layout_ok e (header ?ob) then (Attach_kUnavailable, ?ob) else (Attach_kOk, ?ob))"
    using wait_size_now [of "os_fstat os2 0", OF assms(6,7)] wait_ready_now [of "os_init_state os2 0", OF assms(8)] assms(9,10) h(1)
    by (simp add: attach_existing_def)
  then have 2: "(st2, fs2 nm) = (if \<not> type_ok e (header ?ob) then (Attach_kTypeMismatch, Some (?ob\<lparr>header := record_refusal e pid2 (header ?ob)\<rparr>))
      else if \<not> layout_ok e (header ?ob) then (Attach_kUnavailable, Some ?ob) else (Attach_kOk, Some ?ob))"
    using open_first(2) [of os2 fs1 nm ?ob pid2 e, OF assms(4,5) 1(2)] assms(12) by (auto simp: Attach_def split: if_splits)
  have "h_init_state (header ?ob) = 1" "s_master ?ob = slot_new X" "h_schema_hash (header ?ob) = id_hash d"
    by (simp_all add: MarkReady_def created_header_def)
  then show ?thesis using 1 2 h(2,3) by (auto split: if_splits)
qed

lemma attach_after_create_example:
  "\<exists>fs1 fs2 ob. Attach XmBase_nat (demo_os Created) ''/t'' 70 (demo_id 5) Qos_default demo_blank Map.empty = (Attach_kOk, fs1) \<and>
     Attach XmBase_nat (demo_os Exists) ''/t'' 77 (demo_id 9) Qos_default demo_blank fs1 = (Attach_kTypeMismatch, fs2) \<and>
     fs2 ''/t'' = Some ob \<and> h_schema_hash (header ob) = 5 \<and> h_refused_schema_hash (header ob) = 9 \<and> h_refused_pid (header ob) = 77"
proof -
  obtain st1 fs1 where 1: "Attach XmBase_nat (demo_os Created) ''/t'' 70 (demo_id 5) Qos_default demo_blank Map.empty = (st1, fs1)" by fastforce
  obtain st2 fs2 where 2: "Attach XmBase_nat (demo_os Exists) ''/t'' 77 (demo_id 9) Qos_default demo_blank fs1 = (st2, fs2)" by fastforce
  have "os_fstat (demo_os Exists) 0 0 = Some (id_total (demo_id 5))" "kHeaderSize \<le> id_total (demo_id 5)"
    by (simp_all add: demo_os_def demo_id_def kHeaderSize_def)
  from attach_after_create [OF _ _ _ _ _ this _ _ _ 1 2] show ?thesis
    using 1 2 by (auto simp: demo_os_def demo_id_def record_refusal_def)
qed

end
