(* ===== verification/Shm_Transport.thy ===== *)
theory Shm_Transport
  imports Shm_Segment
begin

text \<open>
  \<^verbatim>\<open>include/xmmsg/detail/posix_shm.hpp\<close>: publisher and subscriber endpoints over a shared segment. Each operation is a function
  of the segment as it finds it. A mailbox whose writer died in the middle of a store makes a bounded load stall; that load and
  the repair by the next writer are operations of xmBase and a parameter, like the liveness probe of a process.
\<close>

section \<open>State\<close>

datatype 'a load_result = LR_kValue "'a MailRecord" | LR_kEmpty | LR_kStalled

record ('a, 's) SlotCrash =
  load_bounded :: "'s \<Rightarrow> 'a load_result"
  repair :: "'s \<Rightarrow> 's"

record ShmPubImpl =
  sp_attached :: bool
  sp_owns_publisher_slot :: bool
  sp_publish_count :: u64
  sp_refused_count :: u64
  sp_bytes :: u64
  sp_telemetry :: "pub_instrument tele_log"

definition ShmPubImpl_init :: ShmPubImpl where
  "ShmPubImpl_init = \<lparr>sp_attached = False, sp_owns_publisher_slot = False, sp_publish_count = 0, sp_refused_count = 0, sp_bytes = 0,
     sp_telemetry = []\<rparr>"

record 'a ShmSubImpl =
  su_history :: History
  su_deadline :: "nanos option"
  su_slot :: "nat option"
  su_latest :: bool
  su_ring :: bool
  su_cached :: "'a MailRecord option"
  su_stale_latched :: bool
  su_drops_emitted :: u64
  su_telemetry :: "sub_instrument tele_log"

definition ShmSubImpl_init :: "Qos \<Rightarrow> 'a ShmSubImpl" where
  "ShmSubImpl_init qos = \<lparr>su_history = history qos, su_deadline = deadline qos, su_slot = None, su_latest = False, su_ring = False,
     su_cached = None, su_stale_latched = False, su_drops_emitted = 0, su_telemetry = []\<rparr>"

text \<open>What belongs to subscriber slot \<open>i\<close>: its header slot, its mailbox and its ring.\<close>

definition slot_at :: "('s, 'q) shm_object \<Rightarrow> nat \<Rightarrow> ShmSubSlot" where
  "slot_at ob i = h_sub_slots (header ob) ! i"

definition set_slot :: "nat \<Rightarrow> ShmSubSlot \<Rightarrow> ('s, 'q) shm_object \<Rightarrow> ('s, 'q) shm_object" where
  "set_slot i sl ob = ob\<lparr>header := (header ob)\<lparr>h_sub_slots := (h_sub_slots (header ob))[i := sl]\<rparr>\<rparr>"

definition set_latest :: "nat \<Rightarrow> 's \<Rightarrow> ('s, 'q) shm_object \<Rightarrow> ('s, 'q) shm_object" where
  "set_latest i m ob = ob\<lparr>s_latest := (s_latest ob)[i := m]\<rparr>"

definition set_ring :: "nat \<Rightarrow> 'q \<Rightarrow> ('s, 'q) shm_object \<Rightarrow> ('s, 'q) shm_object" where
  "set_ring i q ob = ob\<lparr>s_rings := (s_rings ob)[i := q]\<rparr>"

definition upd_header :: "(ShmSegmentHeader \<Rightarrow> ShmSegmentHeader) \<Rightarrow> ('s, 'q) shm_object \<Rightarrow> ('s, 'q) shm_object" where
  "upd_header f ob = ob\<lparr>header := f (header ob)\<rparr>"

section \<open>Publisher\<close>

definition repair_slot :: "('a, 's) SlotCrash \<Rightarrow> nat \<Rightarrow> ('s, 'q) shm_object \<Rightarrow> ('s, 'q) shm_object" where
  "repair_slot C i ob = (if ss_state (slot_at ob i) = kShmSubActive \<and> ss_history_kind (slot_at ob i) = 0
     then set_latest i (repair C (s_latest ob ! i)) ob else ob)"

definition repair_all :: "('a, 's) SlotCrash \<Rightarrow> ('s, 'q) shm_object \<Rightarrow> ('s, 'q) shm_object" where
  "repair_all C ob = fold (repair_slot C) [0..<kShmMaxSubscribers] (ob\<lparr>s_master := repair C (s_master ob)\<rparr>)"

definition ClaimPublisherSlot :: "('a, 's) SlotCrash \<Rightarrow> (u32 \<Rightarrow> bool) \<Rightarrow> u32 \<Rightarrow> ShmPubImpl \<Rightarrow> ('s, 'q) shm_object \<Rightarrow>
  AdvertiseStatus \<times> ShmPubImpl \<times> ('s, 'q) shm_object" where
  "ClaimPublisherSlot C alive me pub ob =
     (let expected = h_pub_pid (header ob)
      in if expected \<noteq> 0 \<and> ProcessAlive alive expected then (Advertise_kOwnershipRefused, pub, ob)
         else (Advertise_kOk, pub\<lparr>sp_owns_publisher_slot := True\<rparr>,
           repair_all C (upd_header (\<lambda>h. h\<lparr>h_pub_pid := me, h_pub_epoch := h_pub_epoch h + 1\<rparr>) ob)))"

definition ShmPubImpl_dtor :: "u32 \<Rightarrow> ShmPubImpl \<Rightarrow> ('s, 'q) shm_object \<Rightarrow> ('s, 'q) shm_object" where
  "ShmPubImpl_dtor me pub ob =
     (if sp_attached pub \<and> sp_owns_publisher_slot pub \<and> h_pub_pid (header ob) = me
      then upd_header (\<lambda>h. h\<lparr>h_pub_pid := 0\<rparr>) ob else ob)"

definition Pub_MatchedCount :: "(u32 \<Rightarrow> bool) \<Rightarrow> ShmPubImpl \<Rightarrow> ('s, 'q) shm_object \<Rightarrow> nat" where
  "Pub_MatchedCount alive pub ob = (if \<not> sp_attached pub then 0
     else length (filter (\<lambda>sl. ss_state sl = kShmSubActive \<and> ProcessAlive alive (ss_pid sl)) (h_sub_slots (header ob))))"

text \<open>The body of the fan-out loop.\<close>

definition shm_stamp :: "u64 \<Rightarrow> ShmSubSlot \<Rightarrow> ShmSubSlot" where
  "shm_stamp ord sl = (if ss_last_consumed_ordinal sl = kShmBaselineUnset then sl\<lparr>ss_last_consumed_ordinal := ord - 1\<rparr> else sl)"

definition shm_deliver :: "('a, 's, 'q, 'c) XmBase \<Rightarrow> 'a MailRecord \<Rightarrow> nat \<Rightarrow> ('s, 'q) shm_object \<Rightarrow> ('s, 'q) shm_object" where
  "shm_deliver X r i ob =
     (let sl = slot_at ob i in
      if ss_state sl \<noteq> kShmSubActive then ob
      else if ss_history_kind sl = 0
      then set_latest i (slot_store X (s_latest ob ! i) r) (set_slot i (shm_stamp (ordinal r) sl) ob)
      else case ring_push X (s_rings ob ! i) r of
        Some q' \<Rightarrow> set_ring i q' ob
      | None \<Rightarrow> set_slot i (sl\<lparr>ss_drop_count := ss_drop_count sl + 1\<rparr>) ob)"

definition shm_record :: "('a, 's, 'q, 'c) XmBase \<Rightarrow> 'c \<Rightarrow> nanos \<Rightarrow> 'a \<Rightarrow> DerivedInfo option \<Rightarrow> ('s, 'q) shm_object \<Rightarrow> 'a MailRecord" where
  "shm_record X ctx now val derived ob = \<lparr>envelope = make_envelope X ctx now derived,
     ordinal = h_accepted_ordinal (header ob) + 1, payload = val\<rparr>"

definition Shm_Publish :: "('a, 's, 'q, 'c) XmBase \<Rightarrow> u64 \<Rightarrow> 'c \<Rightarrow> nanos \<Rightarrow> 'a \<Rightarrow> DerivedInfo option \<Rightarrow> ShmPubImpl \<Rightarrow>
  ('s, 'q) shm_object \<Rightarrow> PublishStatus \<times> ShmPubImpl \<times> ('s, 'q) shm_object" where
  "Shm_Publish X sz ctx now val derived pub ob =
     (let r = shm_record X ctx now val derived ob;
          ob1 = upd_header (\<lambda>h. h\<lparr>h_accepted_ordinal := h_accepted_ordinal h + 1\<rparr>) ob;
          ob2 = ob1\<lparr>s_master := slot_store X (s_master ob1) r\<rparr>;
          ob3 = fold (shm_deliver X r) [0..<kShmMaxSubscribers] ob2
      in (Publish_kOk,
          pub\<lparr>sp_publish_count := sp_publish_count pub + 1, sp_bytes := sp_bytes pub + sz,
            sp_telemetry := sp_telemetry pub @ [(T_publish, Add 1), (T_bytes, Add (unat sz))]\<rparr>,
          upd_header (\<lambda>h. h\<lparr>h_pub_publish_count := h_pub_publish_count h + 1, h_pub_bytes := h_pub_bytes h + sz\<rparr>) ob3))"

section \<open>Subscriber\<close>

definition claimable :: "(u32 \<Rightarrow> bool) \<Rightarrow> ShmSubSlot \<Rightarrow> bool" where
  "claimable alive sl \<longleftrightarrow> ss_state sl = kShmSubFree \<or> (ss_state sl = kShmSubActive \<and> \<not> ProcessAlive alive (ss_pid sl))"

definition fresh_slot :: "u32 \<Rightarrow> History \<Rightarrow> ShmSubSlot" where
  "fresh_slot me hist = \<lparr>ss_state = kShmSubActive, ss_pid = me, ss_history_kind = (if hist_kind hist = kLatestOnly then 0 else 1),
     ss_queue_depth = hist_depth hist, ss_last_consumed_ordinal = kShmBaselineUnset, ss_take_count = 0, ss_drop_count = 0,
     ss_overwrite_count = 0, ss_deadline_miss_count = 0\<rparr>"

text \<open>The wait for a racing fan-out after a dead-owner reclaim only delays the claim. \<open>None\<close>: all slots are held by live owners.\<close>

definition ClaimSubscriberSlot :: "('a, 's, 'q, 'c) XmBase \<Rightarrow> ('a, 's) SlotCrash \<Rightarrow> (u32 \<Rightarrow> bool) \<Rightarrow> u32 \<Rightarrow> 'a ShmSubImpl \<Rightarrow>
  ('s, 'q) shm_object \<Rightarrow> ('a ShmSubImpl \<times> ('s, 'q) shm_object) option" where
  "ClaimSubscriberSlot X C alive me sub ob = (case scan kShmMaxSubscribers (\<lambda>i. claimable alive (slot_at ob i)) of
     None \<Rightarrow> None
   | Some i \<Rightarrow>
       (let ob1 = set_slot i (fresh_slot me (su_history sub)) ob
        in if hist_kind (su_history sub) = kLatestOnly
           then let m = (case load_bounded C (s_master ob) of LR_kValue current \<Rightarrow> slot_store X (slot_new X) current | _ \<Rightarrow> slot_new X)
                in Some (sub\<lparr>su_slot := Some i, su_latest := True\<rparr>, set_latest i m ob1)
           else let q = ring_new X (if hist_depth (su_history sub) = 0 then 1 else hist_depth (su_history sub))
                in Some (sub\<lparr>su_slot := Some i, su_ring := True\<rparr>, set_ring i q ob1)))"

definition ShmSubImpl_dtor :: "'a ShmSubImpl \<Rightarrow> ('s, 'q) shm_object \<Rightarrow> ('s, 'q) shm_object" where
  "ShmSubImpl_dtor sub ob = (case su_slot sub of None \<Rightarrow> ob
   | Some i \<Rightarrow> set_slot i ((slot_at ob i)\<lparr>ss_state := kShmSubFree, ss_pid := 0\<rparr>) ob)"

definition Sub_MatchedCount :: "(u32 \<Rightarrow> bool) \<Rightarrow> 'a ShmSubImpl \<Rightarrow> ('s, 'q) shm_object \<Rightarrow> nat" where
  "Sub_MatchedCount alive sub ob = (if su_slot sub = None then 0 else if ProcessAlive alive (h_pub_pid (header ob)) then 1 else 0)"

definition su_emit :: "sub_instrument \<Rightarrow> tele \<Rightarrow> 'a ShmSubImpl \<Rightarrow> 'a ShmSubImpl" where
  "su_emit i t sub = sub\<lparr>su_telemetry := su_telemetry sub @ [(i, t)]\<rparr>"

definition FillSample :: "('a, 's, 'q, 'c) XmBase \<Rightarrow> nanos \<Rightarrow> 'a MailRecord \<Rightarrow> 'a ShmSubImpl \<Rightarrow> ShmSubSlot \<Rightarrow>
  ('a, 'c) Sample \<times> 'a ShmSubImpl \<times> ShmSubSlot" where
  "FillSample X now r sub sl =
     (let age_us = micros (now - publish_stamp_ns (envelope r));
          stale = is_stale (su_deadline sub) now r;
          sl1 = sl\<lparr>ss_take_count := ss_take_count sl + 1\<rparr>;
          sub1 = su_emit T_hop_latency (Record age_us) (su_emit T_take_age (Record age_us) (su_emit T_take (Add 1) sub))
      in (fill_sample X (su_deadline sub) now r,
          if \<not> stale then (sub1\<lparr>su_stale_latched := False\<rparr>, sl1)
          else if su_stale_latched sub1 then (sub1, sl1)
          else (su_emit T_deadline_miss (Add 1) (sub1\<lparr>su_stale_latched := True\<rparr>),
                sl1\<lparr>ss_deadline_miss_count := ss_deadline_miss_count sl1 + 1\<rparr>)))"

definition shm_gap :: "u64 \<Rightarrow> 'a ShmSubImpl \<Rightarrow> ShmSubSlot \<Rightarrow> 'a ShmSubImpl \<times> ShmSubSlot" where
  "shm_gap ord sub sl =
     (let last = ss_last_consumed_ordinal sl in
      if ord > last then
        let gap = ord - last - 1 in
        if gap > 0 then (su_emit T_overwrite (Add (unat gap)) sub,
          sl\<lparr>ss_overwrite_count := ss_overwrite_count sl + gap, ss_last_consumed_ordinal := ord\<rparr>)
        else (sub, sl\<lparr>ss_last_consumed_ordinal := ord\<rparr>)
      else (sub, sl))"

definition TakeLatestSample :: "('a, 's, 'q, 'c) XmBase \<Rightarrow> ('a, 's) SlotCrash \<Rightarrow> nanos \<Rightarrow> 'a ShmSubImpl \<Rightarrow> ('s, 'q) shm_object \<Rightarrow>
  ('a, 'c) Sample \<times> 'a ShmSubImpl \<times> ('s, 'q) shm_object" where
  "TakeLatestSample X C now sub ob = (case su_slot sub of None \<Rightarrow> (Sample_init (ctx_null X), sub, ob)
   | Some i \<Rightarrow> if \<not> su_latest sub then (Sample_init (ctx_null X), sub, ob)
     else
       (let sub0 = (case load_bounded C (s_latest ob ! i) of LR_kValue r \<Rightarrow> sub\<lparr>su_cached := Some r\<rparr> | _ \<Rightarrow> sub)
        in case su_cached sub0 of None \<Rightarrow> (Sample_init (ctx_null X), sub0, ob)
        | Some r \<Rightarrow> (case FillSample X now r sub0 (slot_at ob i) of (smp, sub1, sl1) \<Rightarrow>
            (case shm_gap (ordinal r) sub1 sl1 of (sub2, sl2) \<Rightarrow> (smp, sub2, set_slot i sl2 ob)))))"

definition EmitDropDelta :: "ShmSubSlot \<Rightarrow> 'a ShmSubImpl \<Rightarrow> 'a ShmSubImpl" where
  "EmitDropDelta sl sub = (if ss_drop_count sl > su_drops_emitted sub
     then su_emit T_drop (Add (unat (ss_drop_count sl - su_drops_emitted sub))) (sub\<lparr>su_drops_emitted := ss_drop_count sl\<rparr>)
     else sub)"

definition TryTakeSample :: "('a, 's, 'q, 'c) XmBase \<Rightarrow> nanos \<Rightarrow> 'a ShmSubImpl \<Rightarrow> ('s, 'q) shm_object \<Rightarrow>
  ('a, 'c) Sample \<times> 'a ShmSubImpl \<times> ('s, 'q) shm_object" where
  "TryTakeSample X now sub ob = (case su_slot sub of None \<Rightarrow> (Sample_init (ctx_null X), sub, ob)
   | Some i \<Rightarrow> if \<not> su_ring sub then (Sample_init (ctx_null X), sub, ob)
     else
       (let sub0 = EmitDropDelta (slot_at ob i) sub
        in case ring_pop X (s_rings ob ! i) of None \<Rightarrow> (Sample_init (ctx_null X), sub0, ob)
        | Some (r, q') \<Rightarrow>
            (case FillSample X now r (su_emit T_queue_depth (Set (ring_size X q')) sub0) (slot_at ob i) of (smp, sub1, sl1) \<Rightarrow>
              (smp, sub1, set_slot i sl1 (set_ring i q' ob)))))"

definition ReadCounter :: "(ShmSubSlot \<Rightarrow> u64) \<Rightarrow> 'a ShmSubImpl \<Rightarrow> ('s, 'q) shm_object \<Rightarrow> u64" where
  "ReadCounter field sub ob = (case su_slot sub of None \<Rightarrow> 0 | Some i \<Rightarrow> field (slot_at ob i))"

section \<open>Wiring\<close>

definition upd_fs :: "string \<Rightarrow> ('s, 'q) shm_object \<Rightarrow> ('s, 'q) dev_shm \<Rightarrow> ('s, 'q) dev_shm" where
  "upd_fs nm ob fs = fs(nm \<mapsto> ob)"

definition ShmAdvertiseImpl :: "('a, 's, 'q, 'c) XmBase \<Rightarrow> ('a, 's) SlotCrash \<Rightarrow> os \<Rightarrow> (u32 \<Rightarrow> bool) \<Rightarrow> u32 \<Rightarrow> identity \<Rightarrow>
  ('s, 'q) shm_object \<Rightarrow> string \<Rightarrow> string \<Rightarrow> Qos \<Rightarrow> ('s, 'q) dev_shm \<Rightarrow> AdvertiseStatus \<times> ShmPubImpl \<times> ('s, 'q) dev_shm" where
  "ShmAdvertiseImpl X C os alive me d blank key topic qos fs =
     (if reliability qos = kReliable \<and> hist_kind (history qos) = kQueue then (Advertise_kUnsupportedReach, ShmPubImpl_init, fs)
      else if ownership qos = kShared then (Advertise_kUnsupportedReach, ShmPubImpl_init, fs)
      else let nm = ShmSegmentName key topic in
        case Attach X os nm me d qos blank fs of
          (Attach_kTypeMismatch, fs1) \<Rightarrow> (Advertise_kTypeMismatch, ShmPubImpl_init, fs1)
        | (Attach_kUnavailable, fs1) \<Rightarrow> (Advertise_kUnsupportedReach, ShmPubImpl_init, fs1)
        | (Attach_kOk, fs1) \<Rightarrow> (case fs1 nm of None \<Rightarrow> (Advertise_kUnsupportedReach, ShmPubImpl_init, fs1)
            | Some ob \<Rightarrow> (case ClaimPublisherSlot C alive me (ShmPubImpl_init\<lparr>sp_attached := True\<rparr>) ob of (st, pub, ob') \<Rightarrow>
                (st, if st = Advertise_kOk then pub else pub\<lparr>sp_attached := False\<rparr>, upd_fs nm ob' fs1))))"

definition ShmSubscribeImpl :: "('a, 's, 'q, 'c) XmBase \<Rightarrow> ('a, 's) SlotCrash \<Rightarrow> os \<Rightarrow> (u32 \<Rightarrow> bool) \<Rightarrow> u32 \<Rightarrow> identity \<Rightarrow>
  ('s, 'q) shm_object \<Rightarrow> string \<Rightarrow> string \<Rightarrow> Qos \<Rightarrow> ('s, 'q) dev_shm \<Rightarrow> SubscribeStatus \<times> 'a ShmSubImpl \<times> ('s, 'q) dev_shm" where
  "ShmSubscribeImpl X C os alive me d blank key topic qos fs =
     (if hist_kind (history qos) = kQueue \<and> hist_depth (history qos) > kShmRingCapacity
      then (Subscribe_kUnsupportedReach, ShmSubImpl_init qos, fs)
      else let nm = ShmSegmentName key topic in
        case Attach X os nm me d qos blank fs of
          (Attach_kTypeMismatch, fs1) \<Rightarrow> (Subscribe_kTypeMismatch, ShmSubImpl_init qos, fs1)
        | (Attach_kUnavailable, fs1) \<Rightarrow> (Subscribe_kUnsupportedReach, ShmSubImpl_init qos, fs1)
        | (Attach_kOk, fs1) \<Rightarrow> (case fs1 nm of None \<Rightarrow> (Subscribe_kUnsupportedReach, ShmSubImpl_init qos, fs1)
            | Some ob \<Rightarrow> (case ClaimSubscriberSlot X C alive me (ShmSubImpl_init qos) ob of
                None \<Rightarrow> (Subscribe_kUnsupportedReach, ShmSubImpl_init qos, fs1)
              | Some (sub, ob') \<Rightarrow> (Subscribe_kOk, sub, upd_fs nm ob' fs1))))"

end
