(* ===== verification/Shm_Claim_Race.thy ===== *)
theory Shm_Claim_Race
  imports Shm_Transport
begin

text \<open>
  Processes racing for the publisher slot of one segment: \<^verbatim>\<open>ClaimPublisherSlot\<close> as its two compare-exchanges with the liveness
  probe between them, the releasing destructor, processes that start and processes that die at any point. A process is a
  generation; \<open>pid_of\<close> gives the number the kernel assigned to it.
\<close>

section \<open>One claimant's steps\<close>

datatype claim_pc = Idle | Failed u32 | Probed u32 | Owner | Refused | Released

text \<open>The next atomic action of \<^verbatim>\<open>ClaimPublisherSlot\<close> in process number \<open>me\<close> on the word \<^verbatim>\<open>pub_pid\<close>; \<open>None\<close> when it has returned.\<close>

fun claim_next :: "(u32 \<Rightarrow> bool) \<Rightarrow> u32 \<Rightarrow> u32 \<times> claim_pc \<Rightarrow> (u32 \<times> claim_pc) option" where
  "claim_next alive me (word, Idle) = Some (if word = 0 then (me, Owner) else (word, Failed word))"
| "claim_next alive me (word, Failed expected) = Some (if ProcessAlive alive expected then (word, Refused) else (word, Probed expected))"
| "claim_next alive me (word, Probed expected) = Some (if word = expected then (me, Owner) else (word, Refused))"
| "claim_next alive me (word, _) = None"

text \<open>The destructor's compare-exchange.\<close>

definition release_word :: "u32 \<Rightarrow> u32 \<Rightarrow> u32" where
  "release_word me word = (if word = me then 0 else word)"

section \<open>All processes\<close>

text \<open>The kernel gives a new process a number no living process has.\<close>

type_synonym proc = nat

datatype handle = Handle (proc_of: proc) nat

record claim_state =
  pub_word :: u32
  started :: "proc set"
  crashed :: "proc set"
  pcs :: "handle \<Rightarrow> claim_pc"

definition claim_init :: claim_state where
  "claim_init = \<lparr>pub_word = 0, started = {}, crashed = {}, pcs = (\<lambda>_. Idle)\<rparr>"

definition live :: "claim_state \<Rightarrow> proc \<Rightarrow> bool" where
  "live s p \<longleftrightarrow> p \<in> started s \<and> p \<notin> crashed s"

definition kill_probe_of :: "(proc \<Rightarrow> u32) \<Rightarrow> claim_state \<Rightarrow> u32 \<Rightarrow> bool" where
  "kill_probe_of pid_of s pid \<longleftrightarrow> (\<exists>p. live s p \<and> pid_of p = pid)"

inductive claim_step :: "(proc \<Rightarrow> u32) \<Rightarrow> claim_state \<Rightarrow> claim_state \<Rightarrow> bool" for pid_of where
  spawn: "p \<notin> started s \<Longrightarrow> \<not> kill_probe_of pid_of s (pid_of p) \<Longrightarrow> claim_step pid_of s (s\<lparr>started := insert p (started s)\<rparr>)"
| crash: "live s p \<Longrightarrow> claim_step pid_of s (s\<lparr>crashed := insert p (crashed s)\<rparr>)"
| claim: "live s (proc_of h) \<Longrightarrow> claim_next (kill_probe_of pid_of s) (pid_of (proc_of h)) (pub_word s, pcs s h) = Some (w, c) \<Longrightarrow>
    claim_step pid_of s (s\<lparr>pub_word := w, pcs := (pcs s)(h := c)\<rparr>)"
| release: "live s (proc_of h) \<Longrightarrow> pcs s h = Owner \<Longrightarrow>
    claim_step pid_of s (s\<lparr>pub_word := release_word (pid_of (proc_of h)) (pub_word s), pcs := (pcs s)(h := Released)\<rparr>)"

inductive claim_reach :: "(proc \<Rightarrow> u32) \<Rightarrow> claim_state \<Rightarrow> bool" for pid_of where
  start: "claim_reach pid_of claim_init"
| step: "claim_reach pid_of s \<Longrightarrow> claim_step pid_of s s' \<Longrightarrow> claim_reach pid_of s'"

definition live_owner :: "claim_state \<Rightarrow> handle \<Rightarrow> bool" where
  "live_owner s h \<longleftrightarrow> pcs s h = Owner \<and> live s (proc_of h)"

lemma live_simps [simp]:
  "live (s\<lparr>pub_word := w\<rparr>) = live s" "live (s\<lparr>pcs := f\<rparr>) = live s"
  "live (s\<lparr>started := insert p (started s)\<rparr>) q \<longleftrightarrow> (q = p \<and> p \<notin> crashed s) \<or> live s q"
  "live (s\<lparr>crashed := insert p (crashed s)\<rparr>) q \<longleftrightarrow> q \<noteq> p \<and> live s q"
  by (auto simp: live_def fun_eq_iff)

section \<open>Run alone, the steps are the function\<close>

lemma claim_next_cases:
  assumes "claim_next alive me (w, c) = Some (w', c')"
  obtains (take) "w' = me" "c' = Owner" "c = Idle" "w = 0"
  | (reclaim) e where "w' = me" "c' = Owner" "c = Probed e" "w = e"
  | (failed) "w' = w" "c' = Failed w" "c = Idle" "w \<noteq> 0"
  | (probed) e where "w' = w" "c' = Probed e" "c = Failed e" "\<not> ProcessAlive alive e"
  | (refused) "w' = w" "c' = Refused"
  using assms by (cases c) (auto split: if_splits)

fun claim_alone :: "nat \<Rightarrow> (u32 \<Rightarrow> bool) \<Rightarrow> u32 \<Rightarrow> u32 \<times> claim_pc \<Rightarrow> u32 \<times> claim_pc" where
  "claim_alone 0 alive me x = x"
| "claim_alone (Suc n) alive me x = (case claim_next alive me x of None \<Rightarrow> x | Some y \<Rightarrow> claim_alone n alive me y)"

lemma repair_all_pid:
  fixes ob :: "('s, 'q) shm_object"
  shows "h_pub_pid (header (repair_all C ob)) = h_pub_pid (header ob)"
proof -
  have "h_pub_pid (header (fold (repair_slot C) xs ob)) = h_pub_pid (header ob)" for xs and ob :: "('s, 'q) shm_object"
    by (induction xs arbitrary: ob) (simp_all add: repair_slot_def set_latest_def)
  then show ?thesis by (simp add: repair_all_def)
qed

lemma claim_alone_is_ClaimPublisherSlot:
  assumes "ClaimPublisherSlot C alive me pub ob = (st, pub', ob')"
  shows "claim_alone 3 alive me (h_pub_pid (header ob), Idle) = (h_pub_pid (header ob'), if st = Advertise_kOk then Owner else Refused)"
  using assms by (auto simp: ClaimPublisherSlot_def numeral_3_eq_3 upd_header_def repair_all_pid ProcessAlive_def Let_def split: if_splits)

section \<open>Exclusion\<close>

text \<open>A claimant is about to reclaim a number when it has probed it dead and not yet done its second compare-exchange. Numbers may be
  reused freely, but not in this window: no process starts with a number that a living claimant is about to reclaim.\<close>

definition reclaiming :: "claim_state \<Rightarrow> u32 \<Rightarrow> bool" where
  "reclaiming s e \<longleftrightarrow> (\<exists>h. live s (proc_of h) \<and> pcs s h = Probed e)"

definition window_clear :: "(proc \<Rightarrow> u32) \<Rightarrow> claim_state \<Rightarrow> claim_state \<Rightarrow> bool" where
  "window_clear pid_of s s' \<longleftrightarrow> (\<forall>p \<in> started s' - started s. \<not> reclaiming s (pid_of p))"

inductive calm_reach :: "(proc \<Rightarrow> u32) \<Rightarrow> claim_state \<Rightarrow> bool" for pid_of where
  start: "calm_reach pid_of claim_init"
| step: "calm_reach pid_of s \<Longrightarrow> claim_step pid_of s s' \<Longrightarrow> window_clear pid_of s s' \<Longrightarrow> calm_reach pid_of s'"

text \<open>The invariant: only started processes act, a number about to be reclaimed belongs to no living process, and the word names the one
  living owner.\<close>

definition claim_inv :: "(proc \<Rightarrow> u32) \<Rightarrow> claim_state \<Rightarrow> bool" where
  "claim_inv pid_of s \<longleftrightarrow>
     (\<forall>h. pcs s h \<noteq> Idle \<longrightarrow> proc_of h \<in> started s) \<and>
     (\<forall>e. reclaiming s e \<longrightarrow> \<not> kill_probe_of pid_of s e) \<and>
     (\<forall>h. live_owner s h \<longrightarrow> pub_word s = pid_of (proc_of h)) \<and>
     (\<forall>h k. live_owner s h \<longrightarrow> live_owner s k \<longrightarrow> h = k)"

lemma claim_invI:
  assumes "\<And>h. pcs s h \<noteq> Idle \<Longrightarrow> proc_of h \<in> started s" "\<And>e. reclaiming s e \<Longrightarrow> \<not> kill_probe_of pid_of s e"
    "\<And>h. live_owner s h \<Longrightarrow> pub_word s = pid_of (proc_of h)" "\<And>h k. live_owner s h \<Longrightarrow> live_owner s k \<Longrightarrow> h = k"
  shows "claim_inv pid_of s"
  unfolding claim_inv_def by (intro conjI allI impI; fact assms | erule assms; assumption)

lemma claim_invD:
  assumes "claim_inv pid_of s"
  shows "pcs s h \<noteq> Idle \<Longrightarrow> proc_of h \<in> started s" "reclaiming s e \<Longrightarrow> \<not> kill_probe_of pid_of s e"
    "live_owner s h \<Longrightarrow> pub_word s = pid_of (proc_of h)" "live_owner s h \<Longrightarrow> live_owner s k \<Longrightarrow> h = k"
  using assms unfolding claim_inv_def by blast+

lemma live_owner_probe: "live_owner s h \<Longrightarrow> kill_probe_of pid_of s (pid_of (proc_of h))"
  by (auto simp: live_owner_def kill_probe_of_def)

lemma kill_probe_frame [simp]:
  "kill_probe_of pid_of (s\<lparr>pub_word := w\<rparr>) = kill_probe_of pid_of s" "kill_probe_of pid_of (s\<lparr>pcs := f\<rparr>) = kill_probe_of pid_of s"
  by (simp_all add: kill_probe_of_def fun_eq_iff)

lemma claim_inv_owner:
  assumes "claim_inv pid_of s" "\<And>k. \<not> live_owner s k" "live s (proc_of h)"
  shows "claim_inv pid_of (s\<lparr>pub_word := pid_of (proc_of h), pcs := (pcs s)(h := Owner)\<rparr>)"
  using claim_invD [OF assms(1)] assms(2,3) by (intro claim_invI) (auto simp: live_owner_def live_def reclaiming_def split: if_splits)

lemma claim_inv_keep:
  assumes "claim_inv pid_of s" "c \<noteq> Owner" "live s (proc_of h)" "\<And>e. c = Probed e \<Longrightarrow> \<not> kill_probe_of pid_of s e"
  shows "claim_inv pid_of (s\<lparr>pcs := (pcs s)(h := c)\<rparr>)"
  using claim_invD [OF assms(1)] assms(2-4)
  by (intro claim_invI) (auto simp: live_owner_def live_def reclaiming_def split: if_splits)

lemma claim_inv_claim:
  assumes "claim_inv pid_of s" "\<forall>p. pid_of p \<noteq> 0" "live s (proc_of h)"
    "claim_next (kill_probe_of pid_of s) (pid_of (proc_of h)) (pub_word s, pcs s h) = Some (w, c)"
  shows "claim_inv pid_of (s\<lparr>pub_word := w, pcs := (pcs s)(h := c)\<rparr>)"
  using assms(4)
proof (cases rule: claim_next_cases)
  case take
  then have "\<not> live_owner s k" for k using claim_invD(3) [OF assms(1)] assms(2) by auto
  then show ?thesis using take claim_inv_owner [OF assms(1) _ assms(3)] by simp
next
  case (reclaim e)
  then have "reclaiming s e" using assms(3) by (auto simp: reclaiming_def)
  then have "\<not> live_owner s k" for k
    using claim_invD(2,3) [OF assms(1)] live_owner_probe [of s k pid_of] reclaim(4) by auto
  then show ?thesis using reclaim claim_inv_owner [OF assms(1) _ assms(3)] by simp
next
  case failed
  then show ?thesis using claim_inv_keep [OF assms(1) _ assms(3), of c] by simp
next
  case (probed e)
  then have "\<not> kill_probe_of pid_of s e" by (auto simp: ProcessAlive_def kill_probe_of_def assms(2))
  then show ?thesis using probed claim_inv_keep [OF assms(1) _ assms(3), of c] by simp
next
  case refused
  then show ?thesis using claim_inv_keep [OF assms(1) _ assms(3), of c] by simp
qed

lemma claim_inv_step:
  assumes "claim_step pid_of s s'" "claim_inv pid_of s" "window_clear pid_of s s'" "\<forall>p. pid_of p \<noteq> 0"
  shows "claim_inv pid_of s'"
  using assms(1)
proof cases
  case (spawn p)
  have same: "live_owner s' k \<longleftrightarrow> live_owner s k" "reclaiming s' e \<longleftrightarrow> reclaiming s e" for k e
    using claim_invD(1) [OF assms(2)] spawn by (auto simp: live_owner_def reclaiming_def live_def)
  have "\<not> reclaiming s (pid_of p)" using assms(3) spawn by (auto simp: window_clear_def)
  then have "\<not> kill_probe_of pid_of s' e" if "reclaiming s e" for e
    using claim_invD(2) [OF assms(2) that] that spawn by (auto simp: kill_probe_of_def)
  then show ?thesis
    using claim_invD [OF assms(2)] same spawn(1) by (intro claim_invI) auto
next
  case (crash p)
  have less: "live_owner s' k \<Longrightarrow> live_owner s k" "reclaiming s' e \<Longrightarrow> reclaiming s e" "kill_probe_of pid_of s' e \<Longrightarrow> kill_probe_of pid_of s e" for k e
    using crash by (auto simp: live_owner_def reclaiming_def kill_probe_of_def)
  then have "reclaiming s' e \<Longrightarrow> \<not> kill_probe_of pid_of s' e" for e using claim_invD(2) [OF assms(2)] by blast
  then show ?thesis using claim_invD [OF assms(2)] less crash(1) by (intro claim_invI) auto
next
  case (claim h w c)
  then show ?thesis using claim_inv_claim [OF assms(2,4)] by simp
next
  case (release h)
  then have h: "live_owner s h" by (simp add: live_owner_def)
  have none: "\<not> live_owner s' k" for k
    using claim_invD(4) [OF assms(2) h, of k] release by (cases "k = h") (auto simp: live_owner_def)
  have "reclaiming s' e \<Longrightarrow> reclaiming s e" "kill_probe_of pid_of s' e = kill_probe_of pid_of s e" for e
    using release by (auto simp: reclaiming_def split: if_splits)
  then show ?thesis using claim_invD [OF assms(2)] none release by (intro claim_invI) (auto split: if_splits)
qed

lemma calm_inv: "calm_reach pid_of s \<Longrightarrow> \<forall>p. pid_of p \<noteq> 0 \<Longrightarrow> claim_inv pid_of s"
proof (induction rule: calm_reach.induct)
  case start
  show ?case by (simp add: claim_inv_def claim_init_def live_owner_def reclaiming_def live_def)
next
  case (step s s')
  then show ?case using claim_inv_step by blast
qed

text \<open>A run in which every process has a number of its own is calm.\<close>

lemma claim_seen:
  assumes "claim_reach pid_of s"
  shows "(pub_word s \<noteq> 0 \<longrightarrow> pub_word s \<in> pid_of ` started s) \<and> (\<forall>h e. pcs s h = Failed e \<or> pcs s h = Probed e \<longrightarrow> e \<in> pid_of ` started s)"
  using assms
proof (induction rule: claim_reach.induct)
  case (step s s')
  from step.hyps(2) show ?case
  proof cases
    case (claim h w c)
    from claim(3) show ?thesis by (cases rule: claim_next_cases) (use step.IH claim in \<open>auto simp: live_def\<close>)
  qed (use step.IH in \<open>auto simp: release_word_def split: if_splits\<close>)
qed (simp add: claim_init_def)

lemma started_mono: "claim_step pid_of s s' \<Longrightarrow> started s \<subseteq> started s'"
  by (auto elim: claim_step.cases)

lemma fresh_numbers_calm:
  "claim_reach pid_of s \<Longrightarrow> inj_on pid_of (started s) \<Longrightarrow> calm_reach pid_of s"
proof (induction rule: claim_reach.induct)
  case start
  show ?case by (rule calm_reach.start)
next
  case (step s s')
  note mono = started_mono [OF step.hyps(2)]
  have "window_clear pid_of s s'"
    unfolding window_clear_def
  proof (intro ballI notI)
    fix p assume p: "p \<in> started s' - started s" "reclaiming s (pid_of p)"
    then obtain q where "q \<in> started s" "pid_of q = pid_of p" using claim_seen [OF step.hyps(1)] by (fastforce simp: reclaiming_def)
    then show False using p(1) mono inj_onD [OF step.prems] by blast
  qed
  moreover have "inj_on pid_of (started s)" using step.prems mono by (rule inj_on_subset)
  ultimately show ?case using step calm_reach.step by blast
qed

text \<open>C15. Exclusive ownership across processes: however claims, probes, reclaims, releases, crashes and new processes interleave, dead
  processes' numbers being reused or not, at most one handle of a living process owns the publisher slot, and the slot
  then carries that process's number, provided that no process starts with a number that a living claimant has just probed
  dead and is about to reclaim.\<close>

theorem publisher_exclusive:
  assumes "calm_reach pid_of s" "\<forall>p. pid_of p \<noteq> 0" "live_owner s h"
  shows "pub_word s = pid_of (proc_of h) \<and> (\<forall>k. live_owner s k \<longrightarrow> k = h)"
  using claim_invD(3,4) [OF calm_inv [OF assms(1,2)]] assms(3) by blast

text \<open>Four processes; the fourth has the number the first one had.\<close>

definition demo_pid :: "proc \<Rightarrow> u32" where
  "demo_pid p = (if p = 1 \<or> p = 4 then 101 else if p = 2 then 102 else 103)"

lemma claim_stepI:
  "claim_reach pid_of s \<Longrightarrow> live s (proc_of h) \<Longrightarrow>
     claim_next (kill_probe_of pid_of s) (pid_of (proc_of h)) (pub_word s, pcs s h) = Some (w, c) \<Longrightarrow>
     s' = s\<lparr>pub_word := w, pcs := (pcs s)(h := c)\<rparr> \<Longrightarrow> claim_reach pid_of s'"
  by (auto intro: claim_reach.step claim_step.claim)

lemma kill_probe_set: "kill_probe_of pid_of s pid \<longleftrightarrow> (\<exists>p \<in> started s - crashed s. pid_of p = pid)"
  by (auto simp: kill_probe_of_def live_def)

lemma spawnI:
  "claim_reach pid_of s \<Longrightarrow> p \<notin> started s \<Longrightarrow> \<not> kill_probe_of pid_of s (pid_of p) \<Longrightarrow> s' = s\<lparr>started := insert p (started s)\<rparr> \<Longrightarrow> claim_reach pid_of s'"
  by (auto intro: claim_reach.step claim_step.spawn)

lemma crashI: "claim_reach pid_of s \<Longrightarrow> live s p \<Longrightarrow> s' = s\<lparr>crashed := insert p (crashed s)\<rparr> \<Longrightarrow> claim_reach pid_of s'"
  by (auto intro: claim_reach.step claim_step.crash)

lemma releaseI:
  "claim_reach pid_of s \<Longrightarrow> live s (proc_of h) \<Longrightarrow> pcs s h = Owner \<Longrightarrow>
     s' = s\<lparr>pub_word := release_word (pid_of (proc_of h)) (pub_word s), pcs := (pcs s)(h := Released)\<rparr> \<Longrightarrow> claim_reach pid_of s'"
  by (auto intro: claim_reach.step claim_step.release)

definition demo_state :: "u32 \<Rightarrow> proc set \<Rightarrow> proc set \<Rightarrow> claim_pc \<Rightarrow> claim_pc \<Rightarrow> claim_pc \<Rightarrow> claim_pc \<Rightarrow> claim_state" where
  "demo_state w st cr c1 c2 c3 c4 = \<lparr>pub_word = w, started = st, crashed = cr,
     pcs = (\<lambda>h. case h of Handle p n \<Rightarrow> if n = 0 \<and> p = 1 then c1 else if n = 0 \<and> p = 2 then c2
       else if n = 0 \<and> p = 3 then c3 else if n = 0 \<and> p = 4 then c4 else Idle)\<rparr>"

lemmas demo_simps = demo_state_def live_def demo_pid_def kill_probe_set ProcessAlive_def release_word_def insert_Diff_if fun_eq_iff

text \<open>Processes 1 and 2 start, process 1 claims the slot and dies; process 2 finds its number in the slot and probes it.\<close>

lemma demo_probed: "claim_reach demo_pid (demo_state 101 {1, 2} {1} Owner (Probed 101) Idle Idle)"
proof -
  have "claim_reach demo_pid (demo_state 0 {1} {} Idle Idle Idle Idle)"
    by (rule spawnI [OF claim_reach.start, where p = 1]) (auto simp: demo_simps claim_init_def split: handle.splits)
  then have "claim_reach demo_pid (demo_state 0 {1, 2} {} Idle Idle Idle Idle)"
    by (rule spawnI [where p = 2]) (auto simp: demo_simps)
  then have "claim_reach demo_pid (demo_state 101 {1, 2} {} Owner Idle Idle Idle)"
    by (rule claim_stepI [where h = "Handle 1 0"]) (auto simp: demo_simps split: handle.splits)
  then have "claim_reach demo_pid (demo_state 101 {1, 2} {1} Owner Idle Idle Idle)"
    by (rule crashI [where p = 1]) (auto simp: demo_simps)
  then have "claim_reach demo_pid (demo_state 101 {1, 2} {1} Owner (Failed 101) Idle Idle)"
    by (rule claim_stepI [where h = "Handle 2 0"]) (auto simp: demo_simps split: handle.splits)
  then show ?thesis by (rule claim_stepI [where h = "Handle 2 0"]) (auto simp: demo_simps split: handle.splits)
qed

text \<open>Process 2 takes over the slot of the dead process 1; then process 4 starts with the number of process 1 and is refused. Numbers are
  reused, and nobody was about to reclaim this one.\<close>

lemma demo_reused: "calm_reach demo_pid (demo_state 102 {1, 2, 4} {1} Owner Owner Idle (Failed 102))"
proof -
  let ?s = "demo_state 102 {1, 2} {1} Owner Owner Idle Idle"
  from demo_probed have "claim_reach demo_pid ?s"
    by (rule claim_stepI [where h = "Handle 2 0"]) (auto simp: demo_simps split: handle.splits)
  then have calm: "calm_reach demo_pid ?s" by (rule fresh_numbers_calm) (simp add: demo_simps)
  let ?t = "demo_state 102 {1, 2, 4} {1} Owner Owner Idle Idle"
  have "claim_step demo_pid ?s (?s\<lparr>started := insert 4 (started ?s)\<rparr>)" by (rule claim_step.spawn) (auto simp: demo_simps)
  moreover have "?s\<lparr>started := insert 4 (started ?s)\<rparr> = ?t" by (auto simp: demo_state_def)
  moreover have "window_clear demo_pid ?s ?t" by (auto simp: window_clear_def reclaiming_def demo_state_def split: handle.splits if_splits)
  ultimately have t: "calm_reach demo_pid ?t" using calm_reach.step [OF calm] by simp
  have "claim_step demo_pid ?t (?t\<lparr>pub_word := 102, pcs := (pcs ?t)(Handle 4 0 := Failed 102)\<rparr>)"
    by (rule claim_step.claim) (auto simp: demo_simps)
  moreover have "?t\<lparr>pub_word := 102, pcs := (pcs ?t)(Handle 4 0 := Failed 102)\<rparr> = demo_state 102 {1, 2, 4} {1} Owner Owner Idle (Failed 102)"
    by (auto simp: demo_state_def fun_eq_iff split: handle.splits)
  moreover have "window_clear demo_pid ?t (demo_state 102 {1, 2, 4} {1} Owner Owner Idle (Failed 102))" by (simp add: window_clear_def demo_state_def)
  ultimately show ?thesis using calm_reach.step [OF t] by simp
qed

theorem publisher_exclusive_witness:
  "{k. live_owner (demo_state 102 {1, 2, 4} {1} Owner Owner Idle (Failed 102)) k} = {Handle 2 0} \<and> demo_pid 4 = demo_pid 1"
proof
  let ?s = "demo_state 102 {1, 2, 4} {1} Owner Owner Idle (Failed 102)"
  have 2: "\<forall>p. demo_pid p \<noteq> 0" by (simp add: demo_pid_def)
  have 3: "live_owner ?s (Handle 2 0)" by (simp add: live_owner_def demo_simps)
  from publisher_exclusive [OF demo_reused 2 3] 3 show "{k. live_owner ?s k} = {Handle 2 0}" by blast
qed (simp add: demo_pid_def)

text \<open>The proviso is needed: a claimant that found the first owner dead is overtaken by another claim, a release and
  a new process that got the dead owner's number and claimed the free slot; the stale compare-exchange then succeeds against
  the living owner. (The comment at \<^verbatim>\<open>ProcessAlive\<close> expects of a recycled pid a refused claim only.)\<close>

lemma publisher_pid_reuse:
  "\<exists>pid_of s h k. claim_reach pid_of s \<and> (\<forall>p. pid_of p \<noteq> 0) \<and> h \<noteq> k \<and> live_owner s h \<and> live_owner s k"
proof -
  note sp = demo_simps
  let ?q = "Probed 101"
  from demo_probed have "claim_reach demo_pid (demo_state 101 {1, 2, 3} {1} Owner ?q Idle Idle)"
    by (rule spawnI [where p = 3]) (auto simp: sp)
  then have "claim_reach demo_pid (demo_state 101 {1, 2, 3} {1} Owner ?q (Failed 101) Idle)"
    by (rule claim_stepI [where h = "Handle 3 0"]) (auto simp: sp split: handle.splits)
  then have "claim_reach demo_pid (demo_state 101 {1, 2, 3} {1} Owner ?q ?q Idle)"
    by (rule claim_stepI [where h = "Handle 3 0"]) (auto simp: sp split: handle.splits)
  then have "claim_reach demo_pid (demo_state 103 {1, 2, 3} {1} Owner ?q Owner Idle)"
    by (rule claim_stepI [where h = "Handle 3 0"]) (auto simp: sp split: handle.splits)
  then have "claim_reach demo_pid (demo_state 0 {1, 2, 3} {1} Owner ?q Released Idle)"
    by (rule releaseI [where h = "Handle 3 0"]) (auto simp: sp split: handle.splits)
  then have "claim_reach demo_pid (demo_state 0 {1, 2, 3, 4} {1} Owner ?q Released Idle)"
    by (rule spawnI [where p = 4]) (auto simp: sp)
  then have "claim_reach demo_pid (demo_state 101 {1, 2, 3, 4} {1} Owner ?q Released Owner)"
    by (rule claim_stepI [where h = "Handle 4 0"]) (auto simp: sp split: handle.splits)
  then have "claim_reach demo_pid (demo_state 102 {1, 2, 3, 4} {1} Owner Owner Released Owner)"
    by (rule claim_stepI [where h = "Handle 2 0"]) (auto simp: sp split: handle.splits)
  then show ?thesis
    by (intro exI [of _ demo_pid] exI [of _ "demo_state 102 {1, 2, 3, 4} {1} Owner Owner Released Owner"] exI [of _ "Handle 2 0"] exI [of _ "Handle 4 0"])
      (auto simp: live_owner_def sp)
qed

end
