(* ===== verification/Shm_Sub_Race.thy ===== *)
theory Shm_Sub_Race
  imports Shm_Claim_Race
begin

text \<open>
  Processes racing for the subscriber slots of one segment, atomic access by atomic access: \<^verbatim>\<open>ClaimSubscriberSlot\<close> with its two
  compare-exchanges, the liveness probe between them and the wait for a publisher in mid fan-out; the subscriber destructor with its
  two stores; the publisher that repairs mailboxes after a restart and fans out. A fan-out reads a slot's state word in one step and
  writes into the slot's region in a later one. Processes start and die at any point.
\<close>

section \<open>The shared words\<close>

record seg_words =
  w_state :: "nat \<Rightarrow> u32"
  w_pid :: "nat \<Rightarrow> u32"
  w_pub :: u32
  w_ord :: u64

definition set_wstate :: "nat \<Rightarrow> u32 \<Rightarrow> seg_words \<Rightarrow> seg_words" where
  "set_wstate i st w = w\<lparr>w_state := (w_state w)(i := st)\<rparr>"

definition set_wpid :: "nat \<Rightarrow> u32 \<Rightarrow> seg_words \<Rightarrow> seg_words" where
  "set_wpid i p w = w\<lparr>w_pid := (w_pid w)(i := p)\<rparr>"

lemma set_w_simps [simp]:
  "w_state (set_wstate i st w) = (w_state w)(i := st)" "w_pid (set_wstate i st w) = w_pid w"
  "w_pub (set_wstate i st w) = w_pub w" "w_ord (set_wstate i st w) = w_ord w"
  "w_state (set_wpid i p w) = w_state w" "w_pid (set_wpid i p w) = (w_pid w)(i := p)"
  "w_pub (set_wpid i p w) = w_pub w" "w_ord (set_wpid i p w) = w_ord w"
  by (simp_all add: set_wstate_def set_wpid_def)

section \<open>A subscriber's steps\<close>

text \<open>How a claim came to its slot: it was free; the accepted ordinal moved on by two; the wait ran out; there was no living
  publisher.\<close>

datatype claim_via = ByFree | ByAdvance | ByTimeout | ByDeadPublisher

datatype sub_pc =
  Scan nat | Saw nat | Dead nat | CheckPub nat | ReadOrd nat | Spin nat u64 nat
| Holding nat claim_via | Init nat claim_via | Subscribed nat | Full | Leaving nat | Gone

definition kSpins :: nat where
  "kSpins = 20"

text \<open>The next atomic action of \<^verbatim>\<open>ClaimSubscriberSlot\<close> in process number \<open>me\<close>; \<open>None\<close> when it has returned. Between \<open>Init\<close> and
  \<open>Subscribed\<close> it initialises the region and seeds the mailbox.\<close>

fun sub_next :: "(u32 \<Rightarrow> bool) \<Rightarrow> u32 \<Rightarrow> seg_words \<Rightarrow> sub_pc \<Rightarrow> (seg_words \<times> sub_pc) option" where
  "sub_next alive me w (Scan i) = Some (
     if i < kShmMaxSubscribers
     then if w_state w i = kShmSubFree then (set_wstate i kShmSubClaimed w, Holding i ByFree)
          else if w_state w i = kShmSubActive then (w, Saw i)
          else (w, Scan (Suc i))
     else (w, Full))"
| "sub_next alive me w (Saw i) = Some (w, if ProcessAlive alive (w_pid w i) then Scan (Suc i) else Dead i)"
| "sub_next alive me w (Dead i) = Some (
     if w_state w i = kShmSubActive then (set_wstate i kShmSubClaimed w, CheckPub i) else (w, Scan (Suc i)))"
| "sub_next alive me w (CheckPub i) = Some (w, if ProcessAlive alive (w_pub w) then ReadOrd i else Holding i ByDeadPublisher)"
| "sub_next alive me w (ReadOrd i) = Some (w, Spin i (w_ord w) 0)"
| "sub_next alive me w (Spin i start n) = Some (w,
     if n < kSpins then if w_ord w \<ge> start + 2 then Holding i ByAdvance else Spin i start (Suc n) else Holding i ByTimeout)"
| "sub_next alive me w (Holding i via) = Some (set_wpid i me w, Init i via)"
| "sub_next alive me w (Init i via) = Some (set_wstate i kShmSubActive w, Subscribed i)"
| "sub_next alive me w _ = None"

text \<open>The destructor: first the state word, then the pid.\<close>

fun sub_leave :: "seg_words \<Rightarrow> sub_pc \<Rightarrow> (seg_words \<times> sub_pc) option" where
  "sub_leave w (Subscribed i) = Some (set_wstate i kShmSubFree w, Leaving i)"
| "sub_leave w (Leaving i) = Some (set_wpid i 0 w, Gone)"
| "sub_leave w _ = None"

section \<open>The publisher's steps\<close>

text \<open>\<open>Repairing i\<close> and \<open>Putting i\<close>: it has read slot \<open>i\<close> as active and writes into its region next. The history of a slot is not among the words:
  a queue, which needs no repair, is counted here as written too, which gives the publisher more writes than it makes.\<close>

datatype pub_pc = NoPub | Repair nat | Repairing nat | Ready | Fan nat | Putting nat

fun pub_next :: "seg_words \<Rightarrow> pub_pc \<Rightarrow> (seg_words \<times> pub_pc) option" where
  "pub_next w (Repair i) = Some (w,
     if i < kShmMaxSubscribers then if w_state w i = kShmSubActive then Repairing i else Repair (Suc i) else Ready)"
| "pub_next w (Repairing i) = Some (w, Repair (Suc i))"
| "pub_next w Ready = Some (w\<lparr>w_ord := w_ord w + 1\<rparr>, Fan 0)"
| "pub_next w (Fan i) = Some (w,
     if i < kShmMaxSubscribers then if w_state w i = kShmSubActive then Putting i else Fan (Suc i) else Ready)"
| "pub_next w (Putting i) = Some (w, Fan (Suc i))"
| "pub_next w NoPub = None"

section \<open>All processes\<close>

text \<open>A subscription is an index into \<open>clients\<close>, with its process. \<open>published\<close> counts the ordinals handed out; \<open>overlapped\<close> records
  that a claim reached a slot it could take while another one was in the middle of its own work on that slot.\<close>

record sub_race =
  words :: seg_words
  born :: "proc list"
  fallen :: "proc list"
  clients :: "(proc \<times> sub_pc) list"
  pub_by :: proc
  pub :: pub_pc
  published :: nat
  overlapped :: bool

definition sub_race_init :: sub_race where
  "sub_race_init = \<lparr>words = \<lparr>w_state = (\<lambda>_. kShmSubFree), w_pid = (\<lambda>_. 0), w_pub = 0, w_ord = 0\<rparr>, born = [], fallen = [], clients = [],
     pub_by = 0, pub = NoPub, published = 0, overlapped = False\<rparr>"

definition running :: "sub_race \<Rightarrow> proc \<Rightarrow> bool" where
  "running s p \<longleftrightarrow> p \<in> set (born s) \<and> p \<notin> set (fallen s)"

definition probe :: "(proc \<Rightarrow> u32) \<Rightarrow> sub_race \<Rightarrow> u32 \<Rightarrow> bool" where
  "probe pid_of s pid \<longleftrightarrow> list_ex (\<lambda>p. running s p \<and> pid_of p = pid) (born s)"

fun busy :: "sub_pc \<Rightarrow> nat option" where
  "busy (Saw i) = Some i" | "busy (Dead i) = Some i" | "busy (CheckPub i) = Some i" | "busy (ReadOrd i) = Some i"
| "busy (Spin i _ _) = Some i" | "busy (Holding i _) = Some i" | "busy (Init i _) = Some i" | "busy (Leaving i) = Some i"
| "busy _ = None"

definition meets :: "sub_race \<Rightarrow> nat \<Rightarrow> bool" where
  "meets s k = (case snd (clients s ! k) of
     Scan i \<Rightarrow> i < kShmMaxSubscribers \<and> w_state (words s) i \<in> {kShmSubFree, kShmSubActive} \<and>
       list_ex (\<lambda>j. j \<noteq> k \<and> running s (fst (clients s ! j)) \<and> busy (snd (clients s ! j)) = Some i) [0..<length (clients s)]
   | _ \<Rightarrow> False)"

datatype seg_act = Spawn proc | Crash proc | Open proc | Step nat | Leave nat | PubClaim proc | PubStep | PubRelease

definition put_client :: "nat \<Rightarrow> bool \<Rightarrow> sub_race \<Rightarrow> seg_words \<times> sub_pc \<Rightarrow> sub_race" where
  "put_client k ov s x = s\<lparr>words := fst x, clients := (clients s)[k := (fst (clients s ! k), snd x)], overlapped := overlapped s \<or> ov\<rparr>"

text \<open>One action of one process. The kernel gives a new process a number no running process has; a publisher claims the segment as
  \<open>Shm_Claim_Race\<close> describes, so that one publishes at a time.\<close>

fun race_act :: "(proc \<Rightarrow> u32) \<Rightarrow> seg_act \<Rightarrow> sub_race \<Rightarrow> sub_race option" where
  "race_act pid_of (Spawn p) s = (if p \<notin> set (born s) \<and> \<not> probe pid_of s (pid_of p) then Some (s\<lparr>born := p # born s\<rparr>) else None)"
| "race_act pid_of (Crash p) s = (if running s p then Some (s\<lparr>fallen := p # fallen s\<rparr>) else None)"
| "race_act pid_of (Open p) s = (if running s p then Some (s\<lparr>clients := clients s @ [(p, Scan 0)]\<rparr>) else None)"
| "race_act pid_of (Step k) s = (if k < length (clients s) \<and> running s (fst (clients s ! k))
     then map_option (put_client k (meets s k) s) (sub_next (probe pid_of s) (pid_of (fst (clients s ! k))) (words s) (snd (clients s ! k)))
     else None)"
| "race_act pid_of (Leave k) s = (if k < length (clients s) \<and> running s (fst (clients s ! k))
     then map_option (put_client k False s) (sub_leave (words s) (snd (clients s ! k))) else None)"
| "race_act pid_of (PubClaim p) s = (if running s p \<and> \<not> ProcessAlive (probe pid_of s) (w_pub (words s))
     then Some (s\<lparr>words := (words s)\<lparr>w_pub := pid_of p\<rparr>, pub_by := p, pub := Repair 0\<rparr>) else None)"
| "race_act pid_of PubStep s = (if running s (pub_by s)
     then map_option (\<lambda>(w, c). s\<lparr>words := w, pub := c, published := published s + (if pub s = Ready then 1 else 0)\<rparr>) (pub_next (words s) (pub s))
     else None)"
| "race_act pid_of PubRelease s = (if running s (pub_by s) \<and> pub s = Ready
     then Some (s\<lparr>words := (words s)\<lparr>w_pub := release_word (pid_of (pub_by s)) (w_pub (words s))\<rparr>, pub := NoPub\<rparr>) else None)"


text \<open>A schedule, action by action.\<close>

fun sub_run :: "(proc \<Rightarrow> u32) \<Rightarrow> seg_act list \<Rightarrow> sub_race \<Rightarrow> sub_race option" where
  "sub_run pid_of [] s = Some s"
| "sub_run pid_of (a # as) s = Option.bind (race_act pid_of a s) (sub_run pid_of as)"


section \<open>Invariant\<close>




definition at :: "sub_race \<Rightarrow> nat \<Rightarrow> sub_pc \<Rightarrow> bool" where
  "at s k c \<longleftrightarrow> k < length (clients s) \<and> running s (fst (clients s ! k)) \<and> snd (clients s ! k) = c"

definition publishing :: "sub_race \<Rightarrow> bool" where
  "publishing s \<longleftrightarrow> pub s \<noteq> NoPub \<and> running s (pub_by s)"

text \<open>A living publisher has read slot \<open>i\<close> as active and is about to write into its region.\<close>

definition pending :: "sub_race \<Rightarrow> nat \<Rightarrow> bool" where
  "pending s i \<longleftrightarrow> publishing s \<and> pub s \<in> {Repairing i, Putting i}"






lemma shm_state_distinct [simp]:
  "kShmSubFree \<noteq> kShmSubActive" "kShmSubFree \<noteq> kShmSubClaimed" "kShmSubActive \<noteq> kShmSubClaimed"
  "kShmSubActive \<noteq> kShmSubFree" "kShmSubClaimed \<noteq> kShmSubFree" "kShmSubClaimed \<noteq> kShmSubActive"
  by (simp_all add: kShmSubFree_def kShmSubActive_def kShmSubClaimed_def)








































section \<open>What a claim has when it initialises its slot\<close>


text \<open>Process 1 publishes; process 2 subscribes and dies while the publisher is about to write into its slot; process 3 takes the slot
  over and waits until two more publishes have begun.\<close>

definition demo_pids :: "proc \<Rightarrow> u32" where
  "demo_pids p = (if p = 1 then 101 else if p = 2 then 102 else if p = 3 then 103 else 104)"

definition demo_pub :: "seg_act list" where
  "demo_pub = [Spawn 1, PubClaim 1] @ replicate 17 PubStep @ [Spawn 2, Open 2, Step 0, Step 0, Step 0, PubStep, PubStep]"




section \<open>A claim returns\<close>

fun returned :: "sub_pc \<Rightarrow> bool" where
  "returned (Subscribed i) = True" | "returned Full = True" | "returned _ = False"

text \<open>One claim in whatever surroundings: each of its steps finds its own answers of the liveness probe and its own shared words.\<close>

fun claim_under :: "u32 \<Rightarrow> ((u32 \<Rightarrow> bool) \<times> seg_words) list \<Rightarrow> sub_pc \<Rightarrow> sub_pc" where
  "claim_under me [] c = c"
| "claim_under me (e # es) c = (case sub_next (fst e) me (snd e) c of None \<Rightarrow> c | Some (w, c') \<Rightarrow> claim_under me es c')"

fun claim_rank :: "sub_pc \<Rightarrow> nat" where
  "claim_rank (Scan i) = (16 - i) * 30 + 1" | "claim_rank (Saw i) = (16 - i) * 30" | "claim_rank (Dead i) = (16 - i) * 30 - 1"
| "claim_rank (CheckPub i) = 28" | "claim_rank (ReadOrd i) = 27" | "claim_rank (Spin i start n) = 26 - n"
| "claim_rank (Holding i via) = 2" | "claim_rank (Init i via) = 1" | "claim_rank _ = 0"

fun in_scan :: "sub_pc \<Rightarrow> bool" where
  "in_scan (Scan i) \<longleftrightarrow> i \<le> 16" | "in_scan (Saw i) \<longleftrightarrow> i < 16" | "in_scan (Dead i) \<longleftrightarrow> i < 16" | "in_scan (Spin i start n) \<longleftrightarrow> n \<le> kSpins"
| "in_scan (Leaving i) \<longleftrightarrow> False" | "in_scan Gone \<longleftrightarrow> False" | "in_scan _ \<longleftrightarrow> True"

lemma sub_next_rank:
  assumes "sub_next alive me w c = Some (w', c')" "in_scan c"
  shows "claim_rank c' < claim_rank c \<and> in_scan c'"
  using assms by (cases c) (auto simp: kShmMaxSubscribers_def kSpins_def split: if_splits)

lemma sub_next_None: "sub_next alive me w c = None \<Longrightarrow> in_scan c \<Longrightarrow> returned c"
  by (cases c) auto

lemma claim_under_returns: "in_scan c \<Longrightarrow> claim_rank c < length es \<Longrightarrow> returned (claim_under me es c)"
proof (induction es arbitrary: c)
  case (Cons e es)
  show ?case
  proof (cases "sub_next (fst e) me (snd e) c")
    case None
    then show ?thesis using sub_next_None Cons.prems(1) by simp
  next
    case (Some x)
    then show ?thesis using sub_next_rank [of "fst e" me "snd e" c "fst x" "snd x"] Cons by (cases x) auto
  qed
qed simp

text \<open>C17. Claiming is bounded: whatever the other processes do to the shared words between its steps, a claim has returned, with a slot
  or with the answer that there is none, after 482 steps of its own.\<close>

theorem subscriber_claim_returns:
  assumes "length es \<ge> 482"
  shows "returned (claim_under me es (Scan 0))"
  by (rule claim_under_returns) (use assms in simp_all)

theorem subscriber_claim_returns_witness:
  "returned (claim_under 7 (replicate 500 (\<lambda>_. True, \<lparr>w_state = \<lambda>_. kShmSubActive, w_pid = \<lambda>_. 3, w_pub = 3, w_ord = 0\<rparr>)) (Scan 0))"
  by (rule subscriber_claim_returns) simp

section \<open>Run alone, the steps are the function\<close>

definition words_of :: "('s, 'q) shm_object \<Rightarrow> seg_words" where
  "words_of ob = \<lparr>w_state = (\<lambda>i. ss_state (slot_at ob i)), w_pid = (\<lambda>i. ss_pid (slot_at ob i)),
     w_pub = h_pub_pid (header ob), w_ord = h_accepted_ordinal (header ob)\<rparr>"

inductive alone :: "(u32 \<Rightarrow> bool) \<Rightarrow> u32 \<Rightarrow> seg_words \<times> sub_pc \<Rightarrow> seg_words \<times> sub_pc \<Rightarrow> bool" for alive me where
  stop: "alone alive me x x"
| go_on: "sub_next alive me (fst x) (snd x) = Some y \<Longrightarrow> alone alive me y z \<Longrightarrow> alone alive me x z"

definition claimable_word :: "(u32 \<Rightarrow> bool) \<Rightarrow> seg_words \<Rightarrow> nat \<Rightarrow> bool" where
  "claimable_word alive w i \<longleftrightarrow> w_state w i = kShmSubFree \<or> w_state w i = kShmSubActive \<and> \<not> ProcessAlive alive (w_pid w i)"

lemma alone_step:
  "sub_next alive me w c = Some (w', c') \<Longrightarrow> alone alive me (w', c') z \<Longrightarrow> alone alive me (w, c) z"
  by (rule alone.go_on [where y = "(w', c')"]) simp_all

lemma alone_pass:
  assumes "\<not> claimable_word alive w i" "i < kShmMaxSubscribers" "alone alive me (w, Scan (Suc i)) z"
  shows "alone alive me (w, Scan i) z"
proof (cases "w_state w i = kShmSubActive")
  case True
  have "alone alive me (w, Saw i) z" by (rule alone_step [OF _ assms(3)]) (use True assms(1) in \<open>simp add: claimable_word_def\<close>)
  then show ?thesis by (rule alone_step [rotated]) (use True assms(2) in simp)
next
  case False
  then show ?thesis by (intro alone_step [OF _ assms(3)]) (use assms(1,2) in \<open>simp add: claimable_word_def\<close>)
qed

lemma alone_scan:
  assumes "k \<le> i" "i \<le> kShmMaxSubscribers" "\<forall>j<i. \<not> claimable_word alive w j" "alone alive me (w, Scan i) z"
  shows "alone alive me (w, Scan k) z"
  using assms(1)
proof (induction rule: inc_induct)
  case base
  show ?case by (rule assms(4))
next
  case (step n)
  show ?case by (rule alone_pass [OF _ _ step.IH]) (use step.hyps assms(2,3) in simp_all)
qed

lemma alone_hold: "alone alive me (w, Holding i via) (set_wstate i kShmSubActive (set_wpid i me w), Subscribed i)"
proof (rule alone_step)
  show "alone alive me (set_wpid i me w, Init i via) (set_wstate i kShmSubActive (set_wpid i me w), Subscribed i)"
    by (rule alone_step [OF _ alone.stop]) simp
qed simp

lemma alone_spin: "n \<le> kSpins \<Longrightarrow> alone alive me (w, Spin i start n) (set_wstate i kShmSubActive (set_wpid i me w), Subscribed i)"
proof (induction rule: inc_induct)
  case base
  show ?case by (rule alone_step [OF _ alone_hold [where via = ByTimeout]]) simp
next
  case (step n)
  show ?case
  proof (cases "w_ord w \<ge> start + 2")
    case True
    then show ?thesis using step.hyps by (intro alone_step [OF _ alone_hold [where via = ByAdvance]]) simp
  next
    case False
    then show ?thesis using step.hyps by (intro alone_step [OF _ step.IH]) simp
  qed
qed

lemma alone_take:
  assumes "claimable_word alive w i" "i < kShmMaxSubscribers"
  shows "alone alive me (w, Scan i) (set_wstate i kShmSubActive (set_wpid i me (set_wstate i kShmSubClaimed w)), Subscribed i)"
proof (cases "w_state w i = kShmSubFree")
  case True
  then show ?thesis using assms(2) by (intro alone_step [OF _ alone_hold]) simp
next
  case False
  let ?w = "set_wstate i kShmSubClaimed w"
  have "alone alive me (?w, CheckPub i) (set_wstate i kShmSubActive (set_wpid i me ?w), Subscribed i)"
  proof (cases "ProcessAlive alive (w_pub w)")
    case True
    have "alone alive me (?w, ReadOrd i) (set_wstate i kShmSubActive (set_wpid i me ?w), Subscribed i)"
      by (rule alone_step [OF _ alone_spin [of 0]]) simp_all
    then show ?thesis using True by (intro alone_step [where c = "CheckPub i", rotated]) simp_all
  next
    case False
    then show ?thesis by (intro alone_step [OF _ alone_hold [where via = ByDeadPublisher]]) simp
  qed
  then have "alone alive me (w, Dead i) (set_wstate i kShmSubActive (set_wpid i me ?w), Subscribed i)"
    using False assms(1) by (intro alone_step [where c = "Dead i", rotated]) (simp_all add: claimable_word_def)
  then have "alone alive me (w, Saw i) (set_wstate i kShmSubActive (set_wpid i me ?w), Subscribed i)"
    using False assms(1) by (intro alone_step [where c = "Saw i", rotated]) (simp_all add: claimable_word_def)
  then show ?thesis using False assms by (intro alone_step [where c = "Scan i", rotated]) (simp_all add: claimable_word_def)
qed

text \<open>A claim that no other process disturbs ends as \<^verbatim>\<open>ClaimSubscriberSlot\<close> of \<open>Shm_Transport\<close> describes it in one step.\<close>

lemma alone_is_ClaimSubscriberSlot:
  "case ClaimSubscriberSlot X C alive me sub ob of
     None \<Rightarrow> alone alive me (words_of ob, Scan 0) (words_of ob, Full)
   | Some (sub', ob') \<Rightarrow> \<exists>i w. su_slot sub' = Some i \<and> alone alive me (words_of ob, Scan 0) (w, Subscribed i) \<and>
       w_state w = (w_state (words_of ob))(i := kShmSubActive) \<and> w_pid w = (w_pid (words_of ob))(i := me)"
proof (cases "scan kShmMaxSubscribers (\<lambda>i. claimable alive (slot_at ob i))")
  case None
  then have "\<forall>i<kShmMaxSubscribers. \<not> claimable_word alive (words_of ob) i"
    by (simp add: scan_None_iff claimable_def claimable_word_def words_of_def)
  moreover have "alone alive me (words_of ob, Scan kShmMaxSubscribers) (words_of ob, Full)"
    by (rule alone_step [OF _ alone.stop]) simp
  ultimately have "alone alive me (words_of ob, Scan 0) (words_of ob, Full)" using alone_scan [of 0 kShmMaxSubscribers] by simp
  then show ?thesis using None by (simp add: ClaimSubscriberSlot_def)
next
  case (Some i)
  then have i: "i < kShmMaxSubscribers" "claimable_word alive (words_of ob) i" "\<forall>j<i. \<not> claimable_word alive (words_of ob) j"
    by (simp_all add: scan_Some_iff claimable_def claimable_word_def words_of_def)
  from alone_scan [OF _ _ i(3) alone_take [OF i(2,1)], of 0] i(1)
  have "alone alive me (words_of ob, Scan 0)
      (set_wstate i kShmSubActive (set_wpid i me (set_wstate i kShmSubClaimed (words_of ob))), Subscribed i)" by simp
  then show ?thesis using Some by (fastforce simp: ClaimSubscriberSlot_def Let_def)
qed

section \<open>Where exclusion ends\<close>

text \<open>Two claims that both found the owner of a slot dead: the second compare-exchange expects only the state word to be active, which
  it is again once the first claim has finished. The second claim takes the slot from its living owner. No process number is
  reused and nobody leaves.\<close>

definition demo_theft :: "seg_act list" where
  "demo_theft = [Spawn 1, Open 1, Step 0, Step 0, Step 0, Crash 1, Spawn 2, Open 2, Spawn 3, Open 3, Step 1, Step 2, Step 1, Step 2,
     Step 1, Step 1, Step 1, Step 1, Step 2]"

lemma subscriber_slot_stolen:
  "case sub_run demo_pids demo_theft sub_race_init of None \<Rightarrow> False | Some s \<Rightarrow> at s 1 (Subscribed 0) \<and> at s 2 (CheckPub 0)"
  by code_simp

text \<open>A claim that comes between the two stores of the destructor loses its pid, and with it the slot to the next claim.\<close>

definition demo_lost_pid :: "seg_act list" where
  "demo_lost_pid = [Spawn 1, Open 1, Step 0, Step 0, Step 0, Leave 0, Spawn 2, Open 2, Step 1, Step 1, Leave 0, Step 1,
     Spawn 3, Open 3, Step 2, Step 2, Step 2]"

lemma subscriber_pid_lost:
  "case sub_run demo_pids demo_lost_pid sub_race_init of None \<Rightarrow> False | Some s \<Rightarrow> at s 1 (Subscribed 0) \<and> at s 2 (CheckPub 0)"
  by code_simp

text \<open>Only a reclaim waits for the fan-out. A slot given up by its destructor is claimed at once, while a publisher that had read it as
  active may still be about to write into the region being initialised.\<close>

definition demo_free_window :: "seg_act list" where
  "demo_free_window = demo_pub @ [Leave 0, Leave 0, Spawn 3, Open 3, Step 1, Step 1]"

lemma free_claim_window:
  "case sub_run demo_pids demo_free_window sub_race_init of None \<Rightarrow> False
   | Some s \<Rightarrow> \<not> overlapped s \<and> at s 1 (Init 0 ByFree) \<and> pending s 0"
  by code_simp

text \<open>A claim that dies before it has activated its slot leaves a slot every later claim passes over.\<close>

definition demo_stuck :: "seg_act list" where
  "demo_stuck = [Spawn 1, Open 1, Step 0, Step 0, Crash 1, Spawn 2, Open 2, Step 1, Step 1]"

lemma claimed_slot_stuck:
  "case sub_run demo_pids demo_stuck sub_race_init of None \<Rightarrow> False
   | Some s \<Rightarrow> w_state (words s) 0 = kShmSubClaimed \<and> at s 1 (Holding 1 ByFree)"
  by code_simp

end
