(* ===== verification/Shm_Properties.thy ===== *)
theory Shm_Properties
  imports Shm_Transport
begin

text \<open>
  The shared-memory reach against the in-process one: what publishing, taking and claiming do to a subscriber's slot, mailbox and ring is what
  they do to the in-process core the slot stands for.
\<close>

section \<open>Frames\<close>

definition wf_segment :: "('s, 'q) shm_object \<Rightarrow> bool" where
  "wf_segment ob \<longleftrightarrow> length (h_sub_slots (header ob)) = kShmMaxSubscribers \<and> length (s_latest ob) = kShmMaxSubscribers \<and>
     length (s_rings ob) = kShmMaxSubscribers"

lemma wf_segment_simps [simp]:
  "wf_segment (set_slot i sl ob) = wf_segment ob" "wf_segment (set_latest i m ob) = wf_segment ob" "wf_segment (set_ring i q ob) = wf_segment ob"
  "wf_segment (ob\<lparr>s_master := m\<rparr>) = wf_segment ob" "wf_segment (ob\<lparr>header := h\<lparr>h_accepted_ordinal := a\<rparr>\<rparr>) = wf_segment (ob\<lparr>header := h\<rparr>)"
  by (simp_all add: wf_segment_def set_slot_def set_latest_def set_ring_def)

lemma set_slot_simps [simp]:
  "wf_segment ob \<Longrightarrow> i < kShmMaxSubscribers \<Longrightarrow> slot_at (set_slot i sl ob) j = (if j = i then sl else slot_at ob j)"
  "s_latest (set_slot i sl ob) = s_latest ob" "s_rings (set_slot i sl ob) = s_rings ob" "s_master (set_slot i sl ob) = s_master ob"
  "slot_at (set_latest i m ob) j = slot_at ob j" "s_rings (set_latest i m ob) = s_rings ob" "header (set_latest i m ob) = header ob"
  "slot_at (set_ring i q ob) j = slot_at ob j" "s_latest (set_ring i q ob) = s_latest ob" "header (set_ring i q ob) = header ob"
  "h_accepted_ordinal (header (set_slot i sl ob)) = h_accepted_ordinal (header ob)"
  "wf_segment ob \<Longrightarrow> i < kShmMaxSubscribers \<Longrightarrow> s_latest (set_latest i m ob) ! j = (if j = i then m else s_latest ob ! j)"
  "wf_segment ob \<Longrightarrow> i < kShmMaxSubscribers \<Longrightarrow> s_rings (set_ring i q ob) ! j = (if j = i then q else s_rings ob ! j)"
  by (simp_all add: slot_at_def set_slot_def set_latest_def set_ring_def wf_segment_def nth_list_update_if)

text \<open>What slot \<open>i\<close> holds, and that operations on other slots leave it alone.\<close>

definition region :: "('s, 'q) shm_object \<Rightarrow> nat \<Rightarrow> ShmSubSlot \<times> 's \<times> 'q" where
  "region ob i = (slot_at ob i, s_latest ob ! i, s_rings ob ! i)"

lemma shm_deliver_frame:
  assumes "wf_segment ob" "i < kShmMaxSubscribers"
  shows "wf_segment (shm_deliver X r i ob)" "j \<noteq> i \<Longrightarrow> region (shm_deliver X r i ob) j = region ob j"
  using assms by (auto simp: shm_deliver_def region_def Let_def split: option.splits)

lemma fold_deliver_other:
  "wf_segment ob \<Longrightarrow> i \<notin> set xs \<Longrightarrow> \<forall>j \<in> set xs. j < kShmMaxSubscribers \<Longrightarrow>
   wf_segment (fold (shm_deliver X r) xs ob) \<and> region (fold (shm_deliver X r) xs ob) i = region ob i"
proof (induction xs arbitrary: ob)
  case (Cons j xs)
  then show ?case using shm_deliver_frame [of ob j, where X = X and r = r] by auto
qed simp

lemma region_fold_deliver:
  assumes "wf_segment ob" "i < kShmMaxSubscribers"
  shows "region (fold (shm_deliver X r) [0..<kShmMaxSubscribers] ob) i = region (shm_deliver X r i (fold (shm_deliver X r) [0..<i] ob)) i"
    "region (fold (shm_deliver X r) [0..<i] ob) i = region ob i" "wf_segment (fold (shm_deliver X r) [0..<i] ob)"
proof -
  have s: "[0..<kShmMaxSubscribers] = [0..<i] @ i # [Suc i..<kShmMaxSubscribers]"
    using assms(2) upt_add_eq_append [of 0 i "kShmMaxSubscribers - i"] by (simp add: upt_conv_Cons)
  show b: "region (fold (shm_deliver X r) [0..<i] ob) i = region ob i" "wf_segment (fold (shm_deliver X r) [0..<i] ob)"
    using fold_deliver_other [of ob i "[0..<i]"] assms by auto
  have "wf_segment (shm_deliver X r i (fold (shm_deliver X r) [0..<i] ob))" by (rule shm_deliver_frame(1) [OF b(2) assms(2)])
  from fold_deliver_other [OF this, of i "[Suc i..<kShmMaxSubscribers]" X r]
  show "region (fold (shm_deliver X r) [0..<kShmMaxSubscribers] ob) i = region (shm_deliver X r i (fold (shm_deliver X r) [0..<i] ob)) i"
    unfolding s by simp
qed

section \<open>Refinement of the in-process core\<close>

text \<open>The in-process core a shared slot stands for, without the instruments (drops are counted by the publisher's process and
  shown by the subscriber's at its next take).\<close>

definition region_core :: "'a ShmSubImpl \<Rightarrow> ShmSubSlot \<times> 's \<times> 'q \<Rightarrow> ('s, 'q) SubCore" where
  "region_core sub = (\<lambda>(sl, m, q). \<lparr>sub_history = su_history sub, sub_deadline = su_deadline sub,
     latest = (if su_latest sub then Some m else None), queue = (if su_ring sub then Some q else None),
     take_count = ss_take_count sl, drop_count = ss_drop_count sl, overwrite_count = ss_overwrite_count sl,
     deadline_miss_count = ss_deadline_miss_count sl, last_consumed_ordinal = ss_last_consumed_ordinal sl,
     stale_latched = su_stale_latched sub, sub_telemetry = []\<rparr>)"

definition shm_core :: "'a ShmSubImpl \<Rightarrow> nat \<Rightarrow> ('s, 'q) shm_object \<Rightarrow> ('s, 'q) SubCore" where
  "shm_core sub i ob = region_core sub (region ob i)"

definition strip :: "('s, 'q) SubCore \<Rightarrow> ('s, 'q) SubCore" where
  "strip c = c\<lparr>sub_telemetry := []\<rparr>"

definition holds_slot :: "'a ShmSubImpl \<Rightarrow> nat \<Rightarrow> ('s, 'q) shm_object \<Rightarrow> bool" where
  "holds_slot sub i ob \<longleftrightarrow> wf_segment ob \<and> i < kShmMaxSubscribers \<and> su_slot sub = Some i \<and> ss_state (slot_at ob i) = kShmSubActive \<and>
     (ss_history_kind (slot_at ob i) = 0 \<longleftrightarrow> su_latest sub) \<and> su_ring sub = (\<not> su_latest sub)"

text \<open>A mailbox no writer died in: the bounded load agrees with the plain one, and a mailbox once read is not empty again.\<close>

definition healthy :: "('a, 's, 'q, 'c) XmBase \<Rightarrow> ('a, 's) SlotCrash \<Rightarrow> 's \<Rightarrow> 'a ShmSubImpl \<Rightarrow> bool" where
  "healthy X C m sub \<longleftrightarrow> load_bounded C m = (case slot_load X m of None \<Rightarrow> LR_kEmpty | Some r \<Rightarrow> LR_kValue r) \<and>
     (slot_load X m = None \<longrightarrow> su_cached sub = None)"

lemma region_deliver:
  assumes "wf_segment ob" "i < kShmMaxSubscribers" "ss_state (slot_at ob i) = kShmSubActive"
    "ss_history_kind (slot_at ob i) = 0 \<longleftrightarrow> su_latest sub" "su_ring sub = (\<not> su_latest sub)"
  shows "region_core sub (region (shm_deliver X r i ob) i) = strip (deliver_core X r (region_core sub (region ob i)))"
  using assms by (auto simp: shm_deliver_def deliver_core_def region_core_def region_def strip_def shm_stamp_def stamp_baseline_def Let_def
    kShmBaselineUnset_def kBaselineUnset_def split: option.splits)

lemma upd_header_region [simp]:
  "region (upd_header (\<lambda>h. h\<lparr>h_accepted_ordinal := f h\<rparr>) ob) i = region ob i"
  "region (upd_header (\<lambda>h. h\<lparr>h_pub_publish_count := g h, h_pub_bytes := k h\<rparr>) ob) i = region ob i"
  "region (ob\<lparr>s_master := m\<rparr>) i = region ob i"
  "wf_segment (upd_header (\<lambda>h. h\<lparr>h_accepted_ordinal := f h\<rparr>) ob) = wf_segment ob"
  by (simp_all add: region_def slot_at_def upd_header_def wf_segment_def)

lemma fold_deliver_header:
  "wf_segment ob \<Longrightarrow> \<forall>j \<in> set xs. j < kShmMaxSubscribers \<Longrightarrow> wf_segment (fold (shm_deliver X r) xs ob) \<and>
     h_accepted_ordinal (header (fold (shm_deliver X r) xs ob)) = h_accepted_ordinal (header ob)"
proof (induction xs arbitrary: ob)
  case (Cons j xs)
  have "h_accepted_ordinal (header (shm_deliver X r j ob)) = h_accepted_ordinal (header ob)"
    by (simp add: shm_deliver_def Let_def split: option.splits)
  then show ?case using Cons shm_deliver_frame(1) [of ob j X r] by simp
qed simp

lemma Publish_region:
  assumes "wf_segment ob" "i < kShmMaxSubscribers" "Shm_Publish X sz ctx now val derived pub ob = (st, pub', ob')"
  obtains ob3 where "wf_segment ob3" "region ob3 i = region ob i" "wf_segment ob'"
    "region ob' i = region (shm_deliver X (shm_record X ctx now val derived ob) i ob3) i"
    "h_accepted_ordinal (header ob') = h_accepted_ordinal (header ob) + 1"
proof -
  let ?r = "shm_record X ctx now val derived ob"
  let ?ob1 = "upd_header (\<lambda>h. h\<lparr>h_accepted_ordinal := h_accepted_ordinal h + 1\<rparr>) ob"
  let ?ob2 = "?ob1\<lparr>s_master := slot_store X (s_master ?ob1) ?r\<rparr>"
  have wf: "wf_segment ?ob2" using assms(1) by simp
  note f = region_fold_deliver [OF wf assms(2), of X ?r]
  note g = fold_deliver_header [OF wf, of "[0..<kShmMaxSubscribers]" X ?r]
  have ob': "ob' = upd_header (\<lambda>h. h\<lparr>h_pub_publish_count := h_pub_publish_count h + 1, h_pub_bytes := h_pub_bytes h + sz\<rparr>)
      (fold (shm_deliver X ?r) [0..<kShmMaxSubscribers] ?ob2)" using assms(3) by (simp add: Shm_Publish_def Let_def)
  show thesis
  proof (rule that [OF f(3)])
    show "region ob' i = region (shm_deliver X ?r i (fold (shm_deliver X ?r) [0..<i] ?ob2)) i" unfolding ob' by (simp add: f(1))
    show "wf_segment ob'" using g by (simp add: ob' upd_header_def wf_segment_def)
    show "h_accepted_ordinal (header ob') = h_accepted_ordinal (header ob) + 1" using g by (simp add: ob' upd_header_def)
  qed (use f(2) in simp)
qed

lemma Publish_refines:
  assumes "holds_slot sub i ob" "Shm_Publish X sz ctx now val derived pub ob = (st, pub', ob')"
  shows "shm_core sub i ob' = strip (deliver_core X (shm_record X ctx now val derived ob) (shm_core sub i ob))"
proof -
  let ?r = "shm_record X ctx now val derived ob"
  have wf: "wf_segment ob" "i < kShmMaxSubscribers" using assms(1) by (simp_all add: holds_slot_def)
  from Publish_region [OF wf assms(2)] obtain ob3 where ob3: "wf_segment ob3" "region ob3 i = region ob i" "wf_segment ob'"
    "region ob' i = region (shm_deliver X ?r i ob3) i" .
  have "slot_at ob3 i = slot_at ob i" using ob3(2) by (simp add: region_def)
  then have "region_core sub (region (shm_deliver X ?r i ob3) i) = strip (deliver_core X ?r (region_core sub (region ob3 i)))"
    by (intro region_deliver [OF ob3(1) wf(2)]) (use assms(1) in \<open>simp_all add: holds_slot_def\<close>)
  then show ?thesis using ob3 by (simp add: shm_core_def)
qed

lemma FillSample_core:
  assumes "FillSample X now r sub sl = (smp, sub', sl')"
  shows "smp = fill_sample X (su_deadline sub) now r"
    "strip (note_staleness (is_stale (su_deadline sub) now r) (note_take now r (region_core sub (sl, m, q)))) = region_core sub' (sl', m, q)"
    "su_history sub' = su_history sub" "su_deadline sub' = su_deadline sub" "su_slot sub' = su_slot sub" "su_latest sub' = su_latest sub"
    "su_ring sub' = su_ring sub" "su_cached sub' = su_cached sub" "ss_last_consumed_ordinal sl' = ss_last_consumed_ordinal sl"
  using assms by (auto simp: FillSample_def su_emit_def Let_def region_core_def strip_def note_staleness_def note_take_def split: if_splits)

lemma shm_gap_core:
  assumes "shm_gap ord sub sl = (sub', sl')"
  shows "strip (note_gap ord (region_core sub (sl, m, q))) = region_core sub' (sl', m, q)"
  using assms by (auto simp: shm_gap_def note_gap_def su_emit_def Let_def region_core_def strip_def split: if_splits)

lemma strip_notes:
  "strip (note_staleness b (strip c)) = strip (note_staleness b c)" "strip (note_take now r (strip c)) = strip (note_take now r c)"
  "strip (note_gap ord (strip c)) = strip (note_gap ord c)" "strip (strip c) = strip c"
  by (auto simp: strip_def note_staleness_def note_take_def note_gap_def Let_def)

lemma gap_staleness_commute: "strip (note_gap ord (note_staleness b c)) = strip (note_staleness b (note_gap ord c))"
  by (auto simp: strip_def note_staleness_def note_gap_def Let_def)

lemma region_core_cached [simp]: "region_core (sub\<lparr>su_cached := c\<rparr>) x = region_core sub x"
  "region_core (su_emit i t sub) x = region_core sub x" "region_core (EmitDropDelta sl sub) x = region_core sub x"
  by (auto simp: region_core_def su_emit_def EmitDropDelta_def split: prod.splits)

lemma TakeLatest_refines:
  assumes h: "holds_slot sub i ob" "su_latest sub" "healthy X C (s_latest ob ! i) sub"
    and t: "TakeLatestSample X C now sub ob = (smp, sub', ob')"
  shows "smp = fst (TakeLatest X now (shm_core sub i ob)) \<and> shm_core sub' i ob' = strip (snd (TakeLatest X now (shm_core sub i ob)))"
proof -
  let ?m = "s_latest ob ! i" and ?q = "s_rings ob ! i"
  have core: "shm_core sub i ob = region_core sub (slot_at ob i, ?m, ?q)" by (simp add: shm_core_def region_def)
  have lat: "latest (region_core sub (slot_at ob i, ?m, ?q)) = Some ?m" "sub_deadline (region_core sub (slot_at ob i, ?m, ?q)) = su_deadline sub"
    using h(2) by (simp_all add: region_core_def)
  have i: "su_slot sub = Some i" "wf_segment ob" "i < kShmMaxSubscribers" using h(1) by (simp_all add: holds_slot_def)
  show ?thesis
  proof (cases "slot_load X ?m")
    case None
    then have "smp = Sample_init (ctx_null X)" "sub' = sub" "ob' = ob" using t h i by (auto simp: TakeLatestSample_def healthy_def)
    then show ?thesis using None core lat by (simp add: TakeLatest_def strip_def region_core_def)
  next
    case (Some r)
    let ?sub0 = "sub\<lparr>su_cached := Some r\<rparr>"
    obtain s1 sub1 sl1 where f: "FillSample X now r ?sub0 (slot_at ob i) = (s1, sub1, sl1)" by (metis prod_cases3)
    obtain sub2 sl2 where g: "shm_gap (ordinal r) sub1 sl1 = (sub2, sl2)" by fastforce
    have res: "smp = s1" "sub' = sub2" "ob' = set_slot i sl2 ob" using t h i Some f g by (auto simp: TakeLatestSample_def healthy_def)
    note fc = FillSample_core(1) [OF f] FillSample_core(2) [OF f, of ?m ?q]
    have "shm_core sub' i ob' = region_core sub2 (sl2, ?m, ?q)" using res i by (simp add: shm_core_def region_def)
    also have "\<dots> = strip (note_gap (ordinal r) (region_core sub1 (sl1, ?m, ?q)))" by (rule shm_gap_core [OF g, symmetric])
    also have "\<dots> = strip (note_gap (ordinal r) (note_staleness (is_stale (su_deadline sub) now r) (note_take now r (region_core sub (slot_at ob i, ?m, ?q)))))"
      unfolding fc(2) [symmetric] by (simp add: strip_notes)
    also have "\<dots> = strip (snd (TakeLatest X now (shm_core sub i ob)))"
      using Some core lat by (simp add: TakeLatest_def gap_staleness_commute)
    finally show ?thesis using res(1) fc(1) Some core lat by (simp add: TakeLatest_def)
  qed
qed

lemma TryTake_refines:
  assumes h: "holds_slot sub i ob" "\<not> su_latest sub" and t: "TryTakeSample X now sub ob = (smp, sub', ob')"
  shows "smp = fst (TryTake X now (shm_core sub i ob)) \<and> shm_core sub' i ob' = strip (snd (TryTake X now (shm_core sub i ob)))"
proof -
  let ?m = "s_latest ob ! i" and ?q = "s_rings ob ! i"
  have core: "shm_core sub i ob = region_core sub (slot_at ob i, ?m, ?q)" by (simp add: shm_core_def region_def)
  have i: "su_slot sub = Some i" "wf_segment ob" "i < kShmMaxSubscribers" "su_ring sub" using h by (simp_all add: holds_slot_def)
  have lat: "queue (region_core sub (slot_at ob i, ?m, ?q)) = Some ?q" "sub_deadline (region_core sub (slot_at ob i, ?m, ?q)) = su_deadline sub"
    using i(4) by (simp_all add: region_core_def)
  let ?sub0 = "EmitDropDelta (slot_at ob i) sub"
  show ?thesis
  proof (cases "ring_pop X ?q")
    case None
    then have "smp = Sample_init (ctx_null X)" "sub' = ?sub0" "ob' = ob" using t i by (auto simp: TryTakeSample_def)
    then have "smp = Sample_init (ctx_null X) \<and> shm_core sub' i ob' = shm_core sub i ob" by (simp add: shm_core_def)
    then show ?thesis using None core lat by (simp add: TryTake_def strip_def region_core_def)
  next
    case (Some p)
    then obtain r q' where p: "ring_pop X ?q = Some (r, q')" by (cases p) auto
    let ?sub1 = "su_emit T_queue_depth (Set (ring_size X q')) ?sub0"
    obtain s1 sub2 sl2 where f: "FillSample X now r ?sub1 (slot_at ob i) = (s1, sub2, sl2)" by (metis prod_cases3)
    have res: "smp = s1" "sub' = sub2" "ob' = set_slot i sl2 (set_ring i q' ob)" using t i p f by (auto simp: TryTakeSample_def)
    have dl: "su_deadline ?sub1 = su_deadline sub" by (simp add: su_emit_def EmitDropDelta_def)
    note fc = FillSample_core(1) [OF f, unfolded dl] FillSample_core(2) [OF f, of ?m q', unfolded dl region_core_cached]
    let ?c = "region_core sub (slot_at ob i, ?m, ?q)"
    have q: "region_core sub (slot_at ob i, ?m, q') = strip (emit T_queue_depth (Set (ring_size X q')) (?c\<lparr>queue := Some q'\<rparr>))"
      using i(4) by (simp add: region_core_def strip_def)
    have "shm_core sub' i ob' = strip (note_staleness (is_stale (su_deadline sub) now r) (note_take now r
        (emit T_queue_depth (Set (ring_size X q')) (?c\<lparr>queue := Some q'\<rparr>))))"
      using res i fc(2) [symmetric] unfolding q shm_core_def region_def by (simp add: strip_notes)
        (metis strip_notes(1,2))
    then show ?thesis using res(1) fc(1) p core lat by (simp add: TryTake_def)
  qed
qed

lemma strip_step:
  "strip (deliver_core X r (strip c)) = strip (deliver_core X r c)"
  "fst (TakeLatest X now (strip c)) = fst (TakeLatest X now c)" "strip (snd (TakeLatest X now (strip c))) = strip (snd (TakeLatest X now c))"
  "fst (TryTake X now (strip c)) = fst (TryTake X now c)" "strip (snd (TryTake X now (strip c))) = strip (snd (TryTake X now c))"
  "latest (strip c) = latest c"
  by (auto simp: strip_def deliver_core_def stamp_baseline_def TakeLatest_def TryTake_def note_take_def note_gap_def note_staleness_def Let_def
    split: option.splits)

text \<open>A bounded load that never stalls is a plain load; the slot laws keep a mailbox non-empty once stored to.\<close>

definition never_stalls :: "('a, 's, 'q, 'c) XmBase \<Rightarrow> ('a, 's) SlotCrash \<Rightarrow> bool" where
  "never_stalls X C \<longleftrightarrow> (\<forall>m. load_bounded C m = (case slot_load X m of None \<Rightarrow> LR_kEmpty | Some r \<Rightarrow> LR_kValue r))"

definition consistent :: "('a, 's, 'q, 'c) XmBase \<Rightarrow> 'a ShmSubImpl \<Rightarrow> nat \<Rightarrow> ('s, 'q) shm_object \<Rightarrow> bool" where
  "consistent X sub i ob \<longleftrightarrow> holds_slot sub i ob \<and> (slot_load X (s_latest ob ! i) = None \<longrightarrow> su_cached sub = None)"

lemma region_deliver_frame:
  assumes "wf_segment ob" "i < kShmMaxSubscribers" "xmbase X items capacity"
  shows "ss_state (slot_at (shm_deliver X r i ob) i) = ss_state (slot_at ob i)"
    "ss_history_kind (slot_at (shm_deliver X r i ob) i) = ss_history_kind (slot_at ob i)"
    "slot_load X (s_latest (shm_deliver X r i ob) ! i) = None \<Longrightarrow> slot_load X (s_latest ob ! i) = None"
  using assms message_slot.load_store [OF xmbase.axioms(1) [OF assms(3)]]
  by (auto simp: shm_deliver_def shm_stamp_def Let_def split: option.splits if_splits)

lemma Publish_consistent:
  assumes "consistent X sub i ob" "xmbase X items capacity" "Shm_Publish X sz ctx now val derived pub ob = (st, pub', ob')"
  shows "consistent X sub i ob'" "h_accepted_ordinal (header ob') = h_accepted_ordinal (header ob) + 1"
proof -
  let ?r = "shm_record X ctx now val derived ob"
  have wf: "wf_segment ob" "i < kShmMaxSubscribers" using assms(1) by (simp_all add: consistent_def holds_slot_def)
  from Publish_region [OF wf assms(3)] obtain ob3 where ob3: "wf_segment ob3" "region ob3 i = region ob i" "wf_segment ob'"
    "region ob' i = region (shm_deliver X ?r i ob3) i" and acc: "h_accepted_ordinal (header ob') = h_accepted_ordinal (header ob) + 1" .
  note f = region_deliver_frame [OF ob3(1) wf(2) assms(2), of ?r]
  have "slot_at ob3 i = slot_at ob i" "s_latest ob3 ! i = s_latest ob ! i" "slot_at ob' i = slot_at (shm_deliver X ?r i ob3) i"
    "s_latest ob' ! i = s_latest (shm_deliver X ?r i ob3) ! i" using ob3(2,4) by (simp_all add: region_def)
  then show "consistent X sub i ob'" using f ob3(3) assms(1) by (simp add: consistent_def holds_slot_def)
  show "h_accepted_ordinal (header ob') = h_accepted_ordinal (header ob) + 1" by (rule acc)
qed

lemma FillSample_frame:
  assumes "FillSample X now r sub sl = (smp, sub', sl')"
  shows "su_slot sub' = su_slot sub \<and> su_latest sub' = su_latest sub \<and> su_ring sub' = su_ring sub \<and> su_cached sub' = su_cached sub \<and>
    ss_state sl' = ss_state sl \<and> ss_history_kind sl' = ss_history_kind sl"
  using assms by (auto simp: FillSample_def su_emit_def Let_def split: if_splits)

lemma shm_gap_frame:
  assumes "shm_gap ord sub sl = (sub', sl')"
  shows "su_slot sub' = su_slot sub \<and> su_latest sub' = su_latest sub \<and> su_ring sub' = su_ring sub \<and> su_cached sub' = su_cached sub \<and>
    ss_state sl' = ss_state sl \<and> ss_history_kind sl' = ss_history_kind sl"
  using assms by (auto simp: shm_gap_def su_emit_def Let_def split: if_splits)

lemma emit_frame [simp]:
  "su_slot (su_emit n t sub) = su_slot sub" "su_latest (su_emit n t sub) = su_latest sub" "su_ring (su_emit n t sub) = su_ring sub"
  "su_cached (su_emit n t sub) = su_cached sub"
  "su_slot (EmitDropDelta sl sub) = su_slot sub" "su_latest (EmitDropDelta sl sub) = su_latest sub" "su_ring (EmitDropDelta sl sub) = su_ring sub"
  "su_cached (EmitDropDelta sl sub) = su_cached sub"
  by (simp_all add: su_emit_def EmitDropDelta_def)

lemma TakeLatest_consistent:
  assumes "consistent X sub i ob" "never_stalls X C" "TakeLatestSample X C now sub ob = (smp, sub', ob')"
  shows "consistent X sub' i ob'" "h_accepted_ordinal (header ob') = h_accepted_ordinal (header ob)" "su_latest sub' = su_latest sub"
  using assms(1,3) spec [OF assms(2) [unfolded never_stalls_def], of "s_latest ob ! i"]
  by (auto simp: consistent_def holds_slot_def TakeLatestSample_def Let_def
    split: option.splits prod.splits if_splits load_result.splits dest!: FillSample_frame shm_gap_frame)

lemma TryTake_consistent:
  assumes "consistent X sub i ob" "TryTakeSample X now sub ob = (smp, sub', ob')"
  shows "consistent X sub' i ob'" "h_accepted_ordinal (header ob') = h_accepted_ordinal (header ob)" "su_latest sub' = su_latest sub"
  using assms by (auto simp: consistent_def holds_slot_def TryTakeSample_def Let_def
    split: option.splits prod.splits if_splits dest!: FillSample_frame)

lemma claim_core:
  assumes "wf_segment ob" "never_stalls X C" "hist_kind (history qos) = kQueue \<Longrightarrow> hist_depth (history qos) \<noteq> 0" "slot_load X (slot_new X) = None"
    "ClaimSubscriberSlot X C alive me (ShmSubImpl_init qos) ob = Some (sub, ob')" "master t = s_master ob"
  obtains i where "consistent X sub i ob'" "shm_core sub i ob' = seed_core X t (SubCore_init X qos)"
    "h_accepted_ordinal (header ob') = h_accepted_ordinal (header ob)"
proof -
  from assms(5) obtain i where i: "scan kShmMaxSubscribers (\<lambda>i. claimable alive (slot_at ob i)) = Some i"
    by (auto simp: ClaimSubscriberSlot_def split: option.splits)
  then have lt: "i < kShmMaxSubscribers" using scan_SomeD by blast
  note simps = ClaimSubscriberSlot_def consistent_def holds_slot_def shm_core_def region_core_def region_def fresh_slot_def ShmSubImpl_init_def
    seed_core_def SubCore_init_def kShmBaselineUnset_def kBaselineUnset_def Let_def
  show thesis
  proof (rule that [of i])
    show "consistent X sub i ob'" using assms(1,3,5) i lt by (auto simp: simps split: if_splits)
    show "shm_core sub i ob' = seed_core X t (SubCore_init X qos)"
      using assms spec [OF assms(2) [unfolded never_stalls_def], of "s_master ob"] i lt
      by (cases "hist_kind (history qos)"; cases "slot_load X (s_master ob)") (auto simp: simps split: if_splits)
    show "h_accepted_ordinal (header ob') = h_accepted_ordinal (header ob)" using assms(5) i by (auto simp: simps split: if_splits)
  qed
qed

definition SlotCrash_ref :: "('a, 'a MailRecord option) SlotCrash" where
  "SlotCrash_ref = \<lparr>load_bounded = (\<lambda>m. case m of None \<Rightarrow> LR_kEmpty | Some r \<Rightarrow> LR_kValue r), repair = (\<lambda>m. m)\<rparr>"

end
