(* ===== verification/Shm_Restart.thy ===== *)
theory Shm_Restart
  imports Shm_Properties
begin

text \<open>
  A publisher that dies in the middle of a store, and its successor: what \<^verbatim>\<open>LoadBounded\<close> and \<^verbatim>\<open>RepairAfterWriterCrash\<close> of xmBase
  promise is the locale \<open>crash_slot\<close>; the theorems follow the segment and its subscribers across the crash.
\<close>

section \<open>The laws of the bounded load and the repair\<close>

locale crash_slot = message_slot new_slot store load
  for new_slot :: 's and store :: "'s \<Rightarrow> 'a MailRecord \<Rightarrow> 's" and load :: "'s \<Rightarrow> 'a MailRecord option" +
  fixes bounded :: "'s \<Rightarrow> 'a load_result"
    and fix_up :: "'s \<Rightarrow> 's"
  assumes bounded_store: "bounded s \<noteq> LR_kStalled \<Longrightarrow> bounded (store s r) = LR_kValue r"
    and bounded_repair: "bounded (fix_up s) = (if bounded s = LR_kStalled then LR_kEmpty else bounded s)"
begin

lemma repaired_not_stalled: "bounded (fix_up s) \<noteq> LR_kStalled"
  by (simp add: bounded_repair)

lemma store_after_repair: "bounded (store (fix_up s) r) = LR_kValue r"
  by (rule bounded_store [OF repaired_not_stalled])

end

text \<open>A reference instance: a cell is blank, full, or torn by a writer that died; a repair empties a torn one.\<close>

datatype 'a cell = Blank | Full "'a MailRecord" | Torn

definition cell_store :: "'a cell \<Rightarrow> 'a MailRecord \<Rightarrow> 'a cell" where
  "cell_store c r = Full r"

definition cell_load :: "'a cell \<Rightarrow> 'a MailRecord option" where
  "cell_load c = (case c of Full r \<Rightarrow> Some r | _ \<Rightarrow> None)"

definition XmBase_cell :: "(nat, nat cell, nat \<times> nat MailRecord list, ref_context) XmBase" where
  "XmBase_cell = \<lparr>slot_new = Blank, slot_store = cell_store, slot_load = cell_load,
     ring_new = (\<lambda>d. (unat d, [])), ring_push = ref_push, ring_pop = ref_pop,
     ring_full = (\<lambda>q. fst q \<le> length (snd q)), ring_size = (\<lambda>q. length (snd q)),
     ctx_inject = ref_inject, ctx_extract = ref_extract, ctx_null = (0, 0, 0)\<rparr>"

definition SlotCrash_cell :: "(nat, nat cell) SlotCrash" where
  "SlotCrash_cell = \<lparr>load_bounded = (\<lambda>c. case c of Blank \<Rightarrow> LR_kEmpty | Full r \<Rightarrow> LR_kValue r | Torn \<Rightarrow> LR_kStalled),
     repair = (\<lambda>c. if c = Torn then Blank else c)\<rparr>"

interpretation torn: crash_slot "slot_new XmBase_cell" "slot_store XmBase_cell" "slot_load XmBase_cell" "load_bounded SlotCrash_cell" "repair SlotCrash_cell"
  by unfold_locales (auto simp: XmBase_cell_def SlotCrash_cell_def cell_store_def cell_load_def split: cell.splits)

section \<open>Frames of the repair\<close>

lemma repair_slot_frame:
  assumes "wf_segment ob" "i < kShmMaxSubscribers"
  shows "wf_segment (repair_slot C i ob)" "header (repair_slot C i ob) = header ob" "s_rings (repair_slot C i ob) = s_rings ob"
    "s_master (repair_slot C i ob) = s_master ob"
    "s_latest (repair_slot C i ob) ! j = (if j = i \<and> ss_state (slot_at ob i) = kShmSubActive \<and> ss_history_kind (slot_at ob i) = 0
       then repair C (s_latest ob ! i) else s_latest ob ! j)"
  using assms by (auto simp: repair_slot_def) (simp_all add: set_latest_def)

lemma fold_repair:
  "wf_segment ob \<Longrightarrow> \<forall>i \<in> set xs. i < kShmMaxSubscribers \<Longrightarrow> distinct xs \<Longrightarrow>
   wf_segment (fold (repair_slot C) xs ob) \<and> header (fold (repair_slot C) xs ob) = header ob \<and> s_rings (fold (repair_slot C) xs ob) = s_rings ob \<and>
   s_master (fold (repair_slot C) xs ob) = s_master ob \<and>
   s_latest (fold (repair_slot C) xs ob) ! j = (if j \<in> set xs \<and> ss_state (slot_at ob j) = kShmSubActive \<and> ss_history_kind (slot_at ob j) = 0
       then repair C (s_latest ob ! j) else s_latest ob ! j)"
proof (induction xs arbitrary: ob)
  case (Cons i xs)
  have i: "i < kShmMaxSubscribers" using Cons.prems(2) by simp
  note f = repair_slot_frame [OF Cons.prems(1) i, of C]
  have "slot_at (repair_slot C i ob) j = slot_at ob j" by (simp add: slot_at_def f(2))
  then show ?case using Cons.IH [OF f(1)] Cons.prems f(2-5) by auto
qed simp

definition latest_slot :: "('s, 'q) shm_object \<Rightarrow> nat \<Rightarrow> bool" where
  "latest_slot ob i \<longleftrightarrow> i < kShmMaxSubscribers \<and> ss_state (slot_at ob i) = kShmSubActive \<and> ss_history_kind (slot_at ob i) = 0"

lemma claim_repairs:
  assumes "wf_segment ob" "ClaimPublisherSlot C alive me pub ob = (Advertise_kOk, pub', ob1)"
  shows "wf_segment ob1" "header ob1 = (header ob)\<lparr>h_pub_pid := me, h_pub_epoch := h_pub_epoch (header ob) + 1\<rparr>"
    "s_rings ob1 = s_rings ob" "s_master ob1 = repair C (s_master ob)"
    "j < kShmMaxSubscribers \<Longrightarrow> s_latest ob1 ! j = (if latest_slot ob j then repair C (s_latest ob ! j) else s_latest ob ! j)"
proof -
  let ?h = "(header ob)\<lparr>h_pub_pid := me, h_pub_epoch := h_pub_epoch (header ob) + 1\<rparr>"
  let ?a = "ob\<lparr>header := ?h, s_master := repair C (s_master ob)\<rparr>"
  have "wf_segment ?a" using assms(1) by (simp add: wf_segment_def)
  note f = fold_repair [OF this, of "[0..<kShmMaxSubscribers]" C]
  have "ob1 = fold (repair_slot C) [0..<kShmMaxSubscribers] ?a"
    using assms(2) by (auto simp: ClaimPublisherSlot_def repair_all_def upd_header_def Let_def split: if_splits)
  then show "wf_segment ob1" "header ob1 = ?h" "s_rings ob1 = s_rings ob" "s_master ob1 = repair C (s_master ob)"
    "j < kShmMaxSubscribers \<Longrightarrow> s_latest ob1 ! j = (if latest_slot ob j then repair C (s_latest ob ! j) else s_latest ob ! j)"
    using f [of j] by (simp_all add: latest_slot_def slot_at_def)
qed

lemma publish_reaches_latest:
  assumes "wf_segment ob" "latest_slot ob i" "Shm_Publish X sz ctx now val derived pub ob = (st, pub', ob')"
  shows "s_latest ob' ! i = slot_store X (s_latest ob ! i) (shm_record X ctx now val derived ob)"
proof -
  let ?r = "shm_record X ctx now val derived ob"
  have i: "i < kShmMaxSubscribers" using assms(2) by (simp add: latest_slot_def)
  from Publish_region [OF assms(1) i assms(3)] obtain ob3 where o3: "wf_segment ob3" "region ob3 i = region ob i"
    "region ob' i = region (shm_deliver X ?r i ob3) i" .
  from o3(2) have "slot_at ob3 i = slot_at ob i" "s_latest ob3 ! i = s_latest ob ! i" by (simp_all add: region_def)
  then show ?thesis using o3(1,3) assms(2) i by (simp add: region_def latest_slot_def shm_deliver_def Let_def)
qed

section \<open>The successor\<close>

text \<open>C18. A restarted publisher resumes where the dead one stopped: the claim succeeds, counts a new generation, and keeps the ordinal
  author, the subscriber slots with all their counts, every queue and every mailbox that is not torn; torn cells are emptied; the
  next publish carries the next ordinal and is readable in every latest-only mailbox.\<close>

theorem restart_resumes:
  assumes "crash_slot (slot_new X) (slot_store X) (slot_load X) (load_bounded C) (repair C)"
    and "wf_segment ob" "\<not> ProcessAlive alive (h_pub_pid (header ob))"
    and "ClaimPublisherSlot C alive me pub ob = (st, pub1, ob1)" "Shm_Publish X sz ctx now val derived pub1 ob1 = (st2, pub2, ob2)"
  shows "st = Advertise_kOk \<and> sp_owns_publisher_slot pub1 \<and>
     header ob1 = (header ob)\<lparr>h_pub_pid := me, h_pub_epoch := h_pub_epoch (header ob) + 1\<rparr> \<and> s_rings ob1 = s_rings ob \<and>
     (\<forall>i. latest_slot ob i \<longrightarrow> load_bounded C (s_latest ob1 ! i) =
        (if load_bounded C (s_latest ob ! i) = LR_kStalled then LR_kEmpty else load_bounded C (s_latest ob ! i))) \<and>
     h_accepted_ordinal (header ob2) = h_accepted_ordinal (header ob) + 1 \<and>
     (\<forall>i. latest_slot ob i \<longrightarrow> load_bounded C (s_latest ob2 ! i) = LR_kValue
        \<lparr>envelope = make_envelope X ctx now derived, ordinal = h_accepted_ordinal (header ob) + 1, payload = val\<rparr>)"
proof -
  have st: "st = Advertise_kOk" "sp_owns_publisher_slot pub1" using assms(3,4) by (auto simp: ClaimPublisherSlot_def Let_def)
  note c = claim_repairs [OF assms(2) assms(4) [unfolded st(1)]]
  have same: "latest_slot ob1 i = latest_slot ob i" for i using c(2) by (simp add: latest_slot_def slot_at_def)
  have k: "i < kShmMaxSubscribers" if "latest_slot ob i" for i using that by (simp add: latest_slot_def)
  have 1: "load_bounded C (s_latest ob1 ! i) =
      (if load_bounded C (s_latest ob ! i) = LR_kStalled then LR_kEmpty else load_bounded C (s_latest ob ! i))" if "latest_slot ob i" for i
    using c(5) [OF k [OF that]] that crash_slot.bounded_repair [OF assms(1)] by simp
  have 2: "load_bounded C (s_latest ob2 ! i) = LR_kValue (shm_record X ctx now val derived ob1)" if "latest_slot ob i" for i
    using publish_reaches_latest [OF c(1) _ assms(5)] same that c(5) [OF k [OF that]] crash_slot.store_after_repair [OF assms(1)] by simp
  from Publish_region [OF c(1) _ assms(5), of 0] have "h_accepted_ordinal (header ob2) = h_accepted_ordinal (header ob1) + 1"
    by (auto simp: kShmMaxSubscribers_def)
  then show ?thesis using st c(2,3) 1 2 by (simp add: shm_record_def)
qed

definition demo_torn :: "(nat cell, nat \<times> nat MailRecord list) shm_object" where
  "demo_torn = \<lparr>obj_size = 4096, header = (created_header (demo_id 5) Qos_default)\<lparr>h_init_state := 1, h_accepted_ordinal := 2, h_pub_pid := 101,
     h_pub_epoch := 1, h_sub_slots := (replicate kShmMaxSubscribers ShmSubSlot_zero)[0 := (fresh_slot 77 LatestOnly)\<lparr>ss_last_consumed_ordinal := 1\<rparr>]\<rparr>,
     s_master = Torn, s_latest = (replicate kShmMaxSubscribers Blank)[0 := Torn], s_rings = replicate kShmMaxSubscribers (0, [])\<rparr>"

lemma demo_torn_simps:
  "wf_segment demo_torn" "latest_slot demo_torn 0" "slot_at demo_torn 0 = (fresh_slot 77 LatestOnly)\<lparr>ss_last_consumed_ordinal := 1\<rparr>"
  "h_pub_pid (header demo_torn) = 101" "h_accepted_ordinal (header demo_torn) = 2" "s_latest demo_torn ! 0 = Torn"
  by (simp_all add: demo_torn_def wf_segment_def latest_slot_def slot_at_def fresh_slot_def kShmMaxSubscribers_def LatestOnly_def)

theorem restart_resumes_witness:
  "\<exists>pub1 ob1 st2 pub2 ob2 r. ClaimPublisherSlot SlotCrash_cell (\<lambda>pid. pid = 102) 102 ShmPubImpl_init demo_torn = (Advertise_kOk, pub1, ob1) \<and>
     Shm_Publish XmBase_cell 8 (1, 2, 3) 9000 30 None pub1 ob1 = (st2, pub2, ob2) \<and>
     load_bounded SlotCrash_cell (s_latest demo_torn ! 0) = LR_kStalled \<and> load_bounded SlotCrash_cell (s_latest ob1 ! 0) = LR_kEmpty \<and>
     load_bounded SlotCrash_cell (s_latest ob2 ! 0) = LR_kValue r \<and> ordinal r = 3 \<and> payload r = 30"
proof -
  obtain st pub1 ob1 where 1: "ClaimPublisherSlot SlotCrash_cell (\<lambda>pid. pid = 102) 102 ShmPubImpl_init demo_torn = (st, pub1, ob1)" by (metis prod_cases3)
  obtain st2 pub2 ob2 where 2: "Shm_Publish XmBase_cell 8 (1, 2, 3) 9000 30 None pub1 ob1 = (st2, pub2, ob2)" by (metis prod_cases3)
  have dead: "\<not> ProcessAlive (\<lambda>pid. pid = 102) (h_pub_pid (header demo_torn))" by (simp add: ProcessAlive_def demo_torn_simps)
  have t: "load_bounded SlotCrash_cell (s_latest demo_torn ! 0) = LR_kStalled" by (simp add: demo_torn_simps SlotCrash_cell_def)
  from restart_resumes [OF torn.crash_slot_axioms demo_torn_simps(1) dead 1 2] show ?thesis using 1 2 t demo_torn_simps(2,5) by auto
qed

text \<open>C19. A latest-only subscriber loses nothing to the crash of its publisher: while its mailbox is torn, or emptied by the repair, it
  keeps returning the value it already held with its true stamps (so its staleness keeps rising), is charged no overwrite for it,
  and leaves mailbox, queues and the other slots alone.\<close>

theorem take_survives_crash:
  assumes "holds_slot sub i ob" "su_latest sub" "su_cached sub = Some r" "ordinal r \<le> ss_last_consumed_ordinal (slot_at ob i)"
    and "load_bounded C (s_latest ob ! i) \<in> {LR_kStalled, LR_kEmpty}" "TakeLatestSample X C now sub ob = (smp, sub', ob')"
  shows "smp = fill_sample X (su_deadline sub) now r \<and> su_cached sub' = Some r \<and>
     ReadCounter ss_take_count sub' ob' = ReadCounter ss_take_count sub ob + 1 \<and>
     ReadCounter ss_overwrite_count sub' ob' = ReadCounter ss_overwrite_count sub ob \<and>
     ss_last_consumed_ordinal (slot_at ob' i) = ss_last_consumed_ordinal (slot_at ob i) \<and>
     s_latest ob' = s_latest ob \<and> s_rings ob' = s_rings ob \<and> (\<forall>j. j \<noteq> i \<longrightarrow> slot_at ob' j = slot_at ob j)"
proof -
  have i: "su_slot sub = Some i" "wf_segment ob" "i < kShmMaxSubscribers" using assms(1) by (simp_all add: holds_slot_def)
  obtain s1 sub1 sl1 where f: "FillSample X now r sub (slot_at ob i) = (s1, sub1, sl1)" by (metis prod_cases3)
  have fl: "s1 = fill_sample X (su_deadline sub) now r" "ss_take_count sl1 = ss_take_count (slot_at ob i) + 1"
    "ss_overwrite_count sl1 = ss_overwrite_count (slot_at ob i)" "ss_last_consumed_ordinal sl1 = ss_last_consumed_ordinal (slot_at ob i)"
    using f by (auto simp: FillSample_def Let_def split: if_splits)
  have "\<not> ss_last_consumed_ordinal sl1 < ordinal r" using assms(4) fl(4) by (simp add: not_less)
  then have "shm_gap (ordinal r) sub1 sl1 = (sub1, sl1)" by (simp add: shm_gap_def Let_def)
  then have res: "smp = s1" "sub' = sub1" "ob' = set_slot i sl1 ob"
    using assms(2,3,5,6) i(1) f by (auto simp: TakeLatestSample_def Let_def)
  show ?thesis using res fl FillSample_frame [OF f] i assms(3) by (simp add: ReadCounter_def)
qed

definition demo_holder :: "nat ShmSubImpl" where
  "demo_holder = (ShmSubImpl_init (Qos_default\<lparr>deadline := Some 500\<rparr>))\<lparr>su_slot := Some 0, su_latest := True, su_cached := Some (demo_mail 1)\<rparr>"

theorem take_survives_crash_witness:
  "\<exists>smp sub' ob'. TakeLatestSample XmBase_cell SlotCrash_cell 9000 demo_holder demo_torn = (smp, sub', ob') \<and>
     smp_value smp = Some 10 \<and> smp_stamp smp = 1000 \<and> smp_freshness smp = kStale \<and> ReadCounter ss_overwrite_count sub' ob' = 0"
proof -
  obtain smp sub' ob' where t: "TakeLatestSample XmBase_cell SlotCrash_cell 9000 demo_holder demo_torn = (smp, sub', ob')" by (metis prod_cases3)
  have h: "holds_slot demo_holder 0 demo_torn" "su_latest demo_holder" "su_cached demo_holder = Some (demo_mail 1)"
    "ordinal (demo_mail 1) \<le> ss_last_consumed_ordinal (slot_at demo_torn 0)"
    "load_bounded SlotCrash_cell (s_latest demo_torn ! 0) \<in> {LR_kStalled, LR_kEmpty}"
    by (simp_all add: holds_slot_def demo_torn_simps demo_holder_def ShmSubImpl_init_def fresh_slot_def LatestOnly_def kShmMaxSubscribers_def
      demo_mail_def SlotCrash_cell_def)
  from take_survives_crash [OF h t]
  have "smp = fill_sample XmBase_cell (su_deadline demo_holder) 9000 (demo_mail 1)" "ReadCounter ss_overwrite_count sub' ob' = ReadCounter ss_overwrite_count demo_holder demo_torn"
    by simp_all
  then have "smp_value smp = Some 10" "smp_stamp smp = 1000" "smp_freshness smp = kStale" "ReadCounter ss_overwrite_count sub' ob' = 0"
    by (simp_all add: fill_sample_def is_stale_def demo_mail_def demo_holder_def ShmSubImpl_init_def ReadCounter_def demo_torn_simps fresh_slot_def)
  with t show ?thesis by blast
qed

end
