(* ===== verification/Introspect.thy ===== *)
theory Introspect
  imports Shm_Segment
begin

text \<open>
  \<^verbatim>\<open>include/xmmsg/detail/introspect_reader.hpp\<close>: the observer that finds segments by name, validates them, and reads their header
  and the last published envelope without writing anything. What the kernel answers and what each load returns are arguments.
\<close>

section \<open>Discovery\<close>

text \<open>\<open>None\<close>: \<^verbatim>\<open>opendir\<close> failed.\<close>

definition DiscoverXmmsgSegments :: "string list option \<Rightarrow> DiscoveredSegment list" where
  "DiscoverXmmsgSegments dir = (case dir of None \<Rightarrow> []
   | Some entries \<Rightarrow> List.map_filter (\<lambda>d_name. ParseSegmentName (''/'' @ d_name)) entries)"

section \<open>Snapshots\<close>

record IntrospectSubSlot =
  is_index :: nat
  is_state :: u32
  is_pid :: u32
  is_alive :: bool
  is_history_kind :: u32
  is_queue_depth :: u32
  is_last_consumed_ordinal :: u64
  is_take_count :: u64
  is_drop_count :: u64
  is_overwrite_count :: u64
  is_deadline_miss_count :: u64

datatype MasterReadResult = Master_kEmpty | Master_kValue | Master_kStalled

record IntrospectSnapshot =
  sn_layout_version :: u32
  sn_envelope_version :: u32
  sn_schema_hash :: u64
  sn_payload_size :: u64
  sn_payload_align :: u64
  sn_total_size :: u64
  sn_max_subscribers :: u32
  sn_ring_capacity :: u32
  sn_creator_history_kind :: u32
  sn_creator_queue_depth :: u32
  sn_pub_pid :: u32
  sn_pub_alive :: bool
  sn_pub_epoch :: u32
  sn_pub_publish_count :: u64
  sn_pub_bytes :: u64
  sn_accepted_ordinal :: u64
  sn_refusal_count :: u64
  sn_refused_schema_hash :: u64
  sn_refused_payload_size :: u64
  sn_refused_pid :: u32
  sn_master :: MasterReadResult
  sn_last_publish_stamp_ns :: int
  sn_last_origin_stamp_ns :: int
  sn_last_ordinal :: u64
  sn_subscribers :: "IntrospectSubSlot list"
  sn_active_subscriber_count :: nat

datatype IntrospectOpenStatus = Open_kOk | Open_kForeign | Open_kVersionSkew | Open_kNotReady | Open_kUnavailable

record IntrospectReader =
  ir_mapped :: bool
  ir_size :: nat
  ir_name :: string

definition IntrospectReader_init :: IntrospectReader where
  "IntrospectReader_init = \<lparr>ir_mapped = False, ir_size = 0, ir_name = []\<rparr>"

text \<open>\<open>look name\<close> is the object \<^verbatim>\<open>shm_open\<close> finds, \<open>fstat_ok\<close> and \<open>mmap_ok\<close> whether the calls succeed on it.\<close>

definition IntrospectReader_Open :: "(string \<Rightarrow> ('s, 'q) shm_object option) \<Rightarrow> (string \<Rightarrow> bool) \<Rightarrow> (string \<Rightarrow> bool) \<Rightarrow> string \<Rightarrow>
  IntrospectReader \<Rightarrow> IntrospectOpenStatus \<times> IntrospectReader" where
  "IntrospectReader_Open look fstat_ok mmap_ok nm out = (case look nm of
     None \<Rightarrow> (Open_kUnavailable, out)
   | Some ob \<Rightarrow>
       if \<not> fstat_ok nm then (Open_kUnavailable, out)
       else if obj_size ob < kHeaderSize then (Open_kNotReady, out)
       else if \<not> mmap_ok nm then (Open_kUnavailable, out)
       else let h = header ob in
         if h_init_state h \<noteq> 1 then (Open_kNotReady, out)
         else if h_magic h \<noteq> kShmMagic then (Open_kForeign, out)
         else if h_layout_version h \<noteq> kShmLayoutVersion \<or> h_envelope_version h \<noteq> kShmEnvelopeVersion then (Open_kVersionSkew, out)
         else if h_total_size h \<noteq> of_nat (obj_size ob) \<or> h_max_subscribers h \<noteq> of_nat kShmMaxSubscribers then (Open_kForeign, out)
         else (Open_kOk, \<lparr>ir_mapped = True, ir_size = obj_size ob, ir_name = nm\<rparr>))"

section \<open>The bounded read of the master slot\<close>

definition kIntrospectRetryBudget :: nat where "kIntrospectRetryBudget = 4096"
definition kMasterOffset :: nat where "kMasterOffset = Align64 kHeaderSize"
definition kCellPrefixWords :: nat where "kCellPrefixWords = 2"
definition kEnvelopeWords :: nat where "kEnvelopeWords = 7"
definition kPublishStampWord :: nat where "kPublishStampWord = 3"
definition kOriginStampWord :: nat where "kOriginStampWord = 4"
definition kOrdinalWord :: nat where "kOrdinalWord = 6"

text \<open>\<open>rd n w\<close> is what the \<open>n\<close>-th load of the reader returns when it reads word \<open>w\<close> of the cell; \<open>n\<close> counts its loads. The loop
  returns the copied words, or how it ended without them.\<close>

fun master_loop :: "(nat \<Rightarrow> nat \<Rightarrow> u64) \<Rightarrow> nat \<Rightarrow> nat \<Rightarrow> MasterReadResult \<times> u64 list" where
  "master_loop rd n 0 = (Master_kStalled, [])"
| "master_loop rd n (Suc attempts) =
     (let s1 = rd n 0 in
      if s1 = 0 then (Master_kEmpty, [])
      else if s1 AND 1 \<noteq> 0 then master_loop rd (n + 1) attempts
      else
        let staged = map (\<lambda>i. rd (n + 1 + i) (kCellPrefixWords + i)) [0..<kEnvelopeWords];
            n' = n + 1 + kEnvelopeWords
        in if rd n' 0 = s1 then (Master_kValue, staged) else master_loop rd (n' + 1) attempts)"

definition ReadMasterEnvelope :: "(nat \<Rightarrow> nat \<Rightarrow> u64) \<Rightarrow> nat \<Rightarrow> IntrospectSnapshot \<Rightarrow> IntrospectSnapshot" where
  "ReadMasterEnvelope rd sz out =
     (let out1 = out\<lparr>sn_master := Master_kStalled, sn_last_publish_stamp_ns := 0, sn_last_origin_stamp_ns := 0, sn_last_ordinal := 0\<rparr> in
      if kMasterOffset + (kCellPrefixWords + kEnvelopeWords) * 8 > sz then out1\<lparr>sn_master := Master_kEmpty\<rparr>
      else case master_loop rd 0 (kIntrospectRetryBudget + 1) of
        (Master_kValue, staged) \<Rightarrow> out1\<lparr>sn_master := Master_kValue, sn_last_publish_stamp_ns := sint (staged ! kPublishStampWord),
          sn_last_origin_stamp_ns := sint (staged ! kOriginStampWord), sn_last_ordinal := staged ! kOrdinalWord\<rparr>
      | (res, _) \<Rightarrow> out1\<lparr>sn_master := res\<rparr>)"

section \<open>The snapshot\<close>

definition snap_slot :: "(u32 \<Rightarrow> bool) \<Rightarrow> nat \<times> ShmSubSlot \<Rightarrow> IntrospectSubSlot" where
  "snap_slot alive = (\<lambda>(i, sl). \<lparr>is_index = i, is_state = ss_state sl, is_pid = ss_pid sl,
     is_alive = (ss_pid sl \<noteq> 0 \<and> ProcessAlive alive (ss_pid sl)), is_history_kind = ss_history_kind sl, is_queue_depth = ss_queue_depth sl,
     is_last_consumed_ordinal = ss_last_consumed_ordinal sl, is_take_count = ss_take_count sl, is_drop_count = ss_drop_count sl,
     is_overwrite_count = ss_overwrite_count sl, is_deadline_miss_count = ss_deadline_miss_count sl\<rparr>)"

definition taken_slots :: "ShmSegmentHeader \<Rightarrow> (nat \<times> ShmSubSlot) list" where
  "taken_slots h = filter (\<lambda>(i, sl). ss_state sl \<noteq> kShmSubFree) (map (\<lambda>i. (i, h_sub_slots h ! i)) [0..<kShmMaxSubscribers])"

definition Snapshot :: "(u32 \<Rightarrow> bool) \<Rightarrow> (nat \<Rightarrow> nat \<Rightarrow> u64) \<Rightarrow> ShmSegmentHeader \<Rightarrow> IntrospectReader \<Rightarrow> IntrospectSnapshot option" where
  "Snapshot alive rd h reader =
     (if \<not> ir_mapped reader then None
      else Some (ReadMasterEnvelope rd (ir_size reader)
        \<lparr>sn_layout_version = h_layout_version h, sn_envelope_version = h_envelope_version h, sn_schema_hash = h_schema_hash h,
          sn_payload_size = h_payload_size h, sn_payload_align = h_payload_align h, sn_total_size = h_total_size h,
          sn_max_subscribers = h_max_subscribers h, sn_ring_capacity = h_ring_capacity h,
          sn_creator_history_kind = h_creator_history_kind h, sn_creator_queue_depth = h_creator_queue_depth h,
          sn_pub_pid = h_pub_pid h, sn_pub_alive = (h_pub_pid h \<noteq> 0 \<and> ProcessAlive alive (h_pub_pid h)), sn_pub_epoch = h_pub_epoch h,
          sn_pub_publish_count = h_pub_publish_count h, sn_pub_bytes = h_pub_bytes h, sn_accepted_ordinal = h_accepted_ordinal h,
          sn_refusal_count = h_refusal_count h, sn_refused_schema_hash = h_refused_schema_hash h,
          sn_refused_payload_size = h_refused_payload_size h, sn_refused_pid = h_refused_pid h,
          sn_master = Master_kEmpty, sn_last_publish_stamp_ns = 0, sn_last_origin_stamp_ns = 0, sn_last_ordinal = 0,
          sn_subscribers = map (snap_slot alive) (taken_slots h),
          sn_active_subscriber_count = length (filter (\<lambda>(i, sl). ss_state sl = kShmSubActive) (taken_slots h))\<rparr>))"

lemma snap_header_fields:
  assumes "Snapshot alive rd h reader = Some s"
  shows "sn_pub_pid s = h_pub_pid h" "sn_pub_alive s = ProcessAlive alive (h_pub_pid h)" "sn_subscribers s = map (snap_slot alive) (taken_slots h)"
  using assms by (auto simp: Snapshot_def ReadMasterEnvelope_def Let_def ProcessAlive_def split: if_splits prod.splits MasterReadResult.splits)

section \<open>Torn reads are rejected\<close>

text \<open>What the writer's side documents of a seqlock cell, as a history \<open>mem t w\<close> of its words: the sequence never goes back while a
  read lasts (only the repair after a crash resets it), and the other words change only while a store is in progress.\<close>

locale seqlock_history =
  fixes mem :: "nat \<Rightarrow> nat \<Rightarrow> u64"
  assumes seq_mono: "mem t 0 \<le> mem (Suc t) 0"
    and words_guarded: "mem t (Suc w) \<noteq> mem (Suc t) (Suc w) \<Longrightarrow> mem t 0 AND 1 \<noteq> 0"
begin

lemma seq_le: "t \<le> u \<Longrightarrow> mem t 0 \<le> mem u 0"
  by (rule lift_Suc_mono_le [where f = "\<lambda>t. mem t 0"]) (rule seq_mono)

lemma words_stable:
  assumes "t \<le> v" "v \<le> u" "mem t 0 = mem u 0" "mem t 0 AND 1 = 0"
  shows "mem v (Suc w) = mem t (Suc w)"
  using assms(1,2)
proof (induction v rule: dec_induct)
  case (step v)
  have "mem v 0 = mem t 0" using seq_le [of t v] seq_le [of v u] step assms(3) by simp
  then have "mem (Suc v) (Suc w) = mem v (Suc w)" using words_guarded [of v w] assms(4) by metis
  then show ?case using step by simp
qed simp

lemma loop_value:
  assumes "mono tm"
  shows "master_loop (\<lambda>n. mem (tm n)) n attempts = (Master_kValue, staged) \<Longrightarrow>
     \<exists>t. mem t 0 \<noteq> 0 \<and> mem t 0 AND 1 = 0 \<and> tm n \<le> t \<and> staged = map (\<lambda>i. mem t (kCellPrefixWords + i)) [0..<kEnvelopeWords]"
proof (induction attempts arbitrary: n)
  case (Suc attempts)
  have le: "tm a \<le> tm b" if "a \<le> b" for a b using monoD [OF assms that] .
  let ?s = "mem (tm n) 0" and ?n = "n + 1 + kEnvelopeWords"
  consider (odd) "?s \<noteq> 0" "?s AND 1 \<noteq> 0" "master_loop (\<lambda>n. mem (tm n)) (n + 1) attempts = (Master_kValue, staged)"
    | (valid) "?s \<noteq> 0" "?s AND 1 = 0" "mem (tm ?n) 0 = ?s"
        "staged = map (\<lambda>i. mem (tm (n + 1 + i)) (kCellPrefixWords + i)) [0..<kEnvelopeWords]"
    | (retry) "master_loop (\<lambda>n. mem (tm n)) (?n + 1) attempts = (Master_kValue, staged)"
    using Suc.prems unfolding master_loop.simps Let_def
    by (cases "?s = 0"; cases "?s AND 1 = 0"; cases "mem (tm ?n) 0 = ?s") (simp_all only: if_True if_False prod.inject simp_thms MasterReadResult.distinct)
  then show ?case
  proof cases
    case odd
    from Suc.IH [OF this(3)] show ?thesis using le_trans [OF le [of n "n + 1"]] by fastforce
  next
    case retry
    have "tm n \<le> tm (?n + 1)" by (rule le) simp
    with Suc.IH [OF retry] show ?thesis by (blast intro: le_trans)
  next
    case valid
    have "mem (tm (n + 1 + i)) (kCellPrefixWords + i) = mem (tm n) (kCellPrefixWords + i)" if "i < kEnvelopeWords" for i
      using words_stable [of "tm n" "tm (n + 1 + i)" "tm ?n" "Suc i"] valid le [of n "n + 1 + i"] le [of "n + 1 + i" ?n] that
      by (simp add: kCellPrefixWords_def)
    then have "staged = map (\<lambda>i. mem (tm n) (kCellPrefixWords + i)) [0..<kEnvelopeWords]" using valid(4) by simp
    then show ?thesis using valid(1,2) by (intro exI [of _ "tm n"]) simp
  qed
qed simp

end

text \<open>A writer that dies in a store leaves an odd sequence behind: the loop ends, stalled, after its budget.\<close>

lemma loop_stalled: "\<forall>n. rd n 0 AND 1 \<noteq> 0 \<Longrightarrow> master_loop rd n attempts = (Master_kStalled, [])"
proof (induction attempts arbitrary: n)
  case (Suc attempts)
  have "rd n 0 \<noteq> 0" using Suc.prems by (metis and.left_neutral and_zero_eq word_bw_comms(1) zero_and_eq)
  then show ?case using Suc by simp
qed simp

lemma loop_quiescent:
  "rd n 0 \<noteq> 0 \<Longrightarrow> rd n 0 AND 1 = 0 \<Longrightarrow> rd (n + 1 + kEnvelopeWords) 0 = rd n 0 \<Longrightarrow> fst (master_loop rd n (Suc attempts)) = Master_kValue"
  by (simp add: Let_def)

text \<open>C23. The observer's read of the last publish is bounded and never torn: whatever the writer does meanwhile, a reported value is the
  stamps and the ordinal the cell held at one instant, not before the read began, at which no store was in progress; otherwise no
  stamp is reported. A writer that died in a store gives the stalled verdict, an idle writer a value.\<close>

theorem master_read_untorn:
  assumes "seqlock_history mem" "mono tm" "ReadMasterEnvelope (\<lambda>n. mem (tm n)) sz out = out'"
  shows "(sn_master out' = Master_kValue \<longrightarrow> (\<exists>t. tm 0 \<le> t \<and> mem t 0 \<noteq> 0 \<and> mem t 0 AND 1 = 0 \<and>
        sn_last_publish_stamp_ns out' = sint (mem t 5) \<and> sn_last_origin_stamp_ns out' = sint (mem t 6) \<and> sn_last_ordinal out' = mem t 8)) \<and>
     (sn_master out' \<noteq> Master_kValue \<longrightarrow> sn_last_publish_stamp_ns out' = 0 \<and> sn_last_origin_stamp_ns out' = 0 \<and> sn_last_ordinal out' = 0) \<and>
     ((\<forall>n. mem (tm n) 0 AND 1 \<noteq> 0) \<and> kMasterOffset + 72 \<le> sz \<longrightarrow> sn_master out' = Master_kStalled) \<and>
     (mem (tm 0) 0 \<noteq> 0 \<and> mem (tm 0) 0 AND 1 = 0 \<and> mem (tm 8) 0 = mem (tm 0) 0 \<and> kMasterOffset + 72 \<le> sz \<longrightarrow> sn_master out' = Master_kValue)"
proof -
  let ?rd = "\<lambda>n. mem (tm n)"
  obtain res staged where l: "master_loop ?rd 0 (Suc kIntrospectRetryBudget) = (res, staged)" by fastforce
  have v: "\<exists>t. mem t 0 \<noteq> 0 \<and> mem t 0 AND 1 = 0 \<and> tm 0 \<le> t \<and> staged = map (\<lambda>i. mem t (kCellPrefixWords + i)) [0..<kEnvelopeWords]" if "res = Master_kValue"
    using seqlock_history.loop_value [OF assms(1,2)] l that by blast
  have w: "staged ! 3 = mem t 5" "staged ! 4 = mem t 6" "staged ! 6 = mem t 8"
    if "staged = map (\<lambda>i. mem t (kCellPrefixWords + i)) [0..<kEnvelopeWords]" for t
    using that by (simp_all add: kCellPrefixWords_def kEnvelopeWords_def)
  have st: "res = Master_kStalled" if "\<forall>n. mem (tm n) 0 AND 1 \<noteq> 0" using loop_stalled [of ?rd] l that by simp
  have q: "res = Master_kValue" if "mem (tm 0) 0 \<noteq> 0" "mem (tm 0) 0 AND 1 = 0" "mem (tm 8) 0 = mem (tm 0) 0"
    using loop_quiescent [of ?rd 0 kIntrospectRetryBudget] l that by (simp add: kEnvelopeWords_def del: master_loop.simps)
  note sizes = kCellPrefixWords_def kEnvelopeWords_def
  note words = kPublishStampWord_def kOriginStampWord_def kOrdinalWord_def
  show ?thesis
  proof (cases "kMasterOffset + 72 \<le> sz")
    case True
    then have "out' = (if res = Master_kValue then out\<lparr>sn_master := Master_kValue, sn_last_publish_stamp_ns := sint (staged ! 3),
        sn_last_origin_stamp_ns := sint (staged ! 4), sn_last_ordinal := staged ! 6\<rparr>
      else out\<lparr>sn_master := res, sn_last_publish_stamp_ns := 0, sn_last_origin_stamp_ns := 0, sn_last_ordinal := 0\<rparr>)"
      using assms(3) l by (cases res) (auto simp: ReadMasterEnvelope_def sizes words simp del: master_loop.simps)
    then have o: "sn_master out' = res" "res \<noteq> Master_kValue \<Longrightarrow> sn_last_publish_stamp_ns out' = 0 \<and> sn_last_origin_stamp_ns out' = 0 \<and> sn_last_ordinal out' = 0"
      "res = Master_kValue \<Longrightarrow> sn_last_publish_stamp_ns out' = sint (staged ! 3) \<and> sn_last_origin_stamp_ns out' = sint (staged ! 4) \<and>
         sn_last_ordinal out' = staged ! 6" by auto
    have "\<exists>t. tm 0 \<le> t \<and> mem t 0 \<noteq> 0 \<and> mem t 0 AND 1 = 0 \<and> sn_last_publish_stamp_ns out' = sint (mem t 5) \<and>
        sn_last_origin_stamp_ns out' = sint (mem t 6) \<and> sn_last_ordinal out' = mem t 8" if r: "res = Master_kValue"
    proof -
      from v [OF r] obtain t where "mem t 0 \<noteq> 0" "mem t 0 AND 1 = 0" "tm 0 \<le> t" and t: "staged = map (\<lambda>i. mem t (kCellPrefixWords + i)) [0..<kEnvelopeWords]"
        by blast
      then show ?thesis using o(3) [OF r] w [OF t] by (intro exI [of _ t]) simp
    qed
    then show ?thesis using o(1,2) st q by blast
  next
    case False
    then show ?thesis using assms(3) by (auto simp: ReadMasterEnvelope_def sizes)
  qed
qed

text \<open>A history in which one record is stored, word by word.\<close>

definition demo_mem :: "nat \<Rightarrow> nat \<Rightarrow> u64" where
  "demo_mem t w = (if w = 0 then (if t = 0 then 0 else if t < 9 then 1 else 2) else if w < t \<and> w < 9 then of_nat (100 * w) else 0)"

interpretation stored: seqlock_history demo_mem
  by unfold_locales (auto simp: demo_mem_def split: if_splits)

definition blank_snapshot :: IntrospectSnapshot where
  "blank_snapshot = (case Snapshot (\<lambda>_. True) (\<lambda>_ _. 0) ShmSegmentHeader_zero \<lparr>ir_mapped = True, ir_size = 0, ir_name = []\<rparr> of Some s \<Rightarrow> s)"

theorem master_read_untorn_witness:
  "sn_master (ReadMasterEnvelope (\<lambda>n. demo_mem (9 + n)) 4096 blank_snapshot) = Master_kValue \<and>
   (\<exists>t. sn_last_publish_stamp_ns (ReadMasterEnvelope (\<lambda>n. demo_mem (9 + n)) 4096 blank_snapshot) = sint (demo_mem t 5) \<and> 9 \<le> t) \<and>
   sn_master (ReadMasterEnvelope (\<lambda>n. demo_mem 4) 4096 blank_snapshot) = Master_kStalled"
proof -
  let ?idle = "\<lambda>n. demo_mem (9 + n)" and ?dead = "\<lambda>n :: nat. demo_mem 4"
  have m: "mono (\<lambda>n :: nat. 9 + n)" "mono (\<lambda>n :: nat. 4 :: nat)" by (simp_all add: mono_def)
  have sz: "kMasterOffset + 72 \<le> 4096" by (simp add: kMasterOffset_def Align64_def kHeaderSize_def)
  note a = master_read_untorn [OF stored.seqlock_history_axioms m(1) refl, of 4096 blank_snapshot]
  note b = master_read_untorn [OF stored.seqlock_history_axioms m(2) refl, of 4096 blank_snapshot]
  have "\<forall>n :: nat. demo_mem 4 0 AND 1 \<noteq> 0" by (simp add: demo_mem_def)
  then have 1: "sn_master (ReadMasterEnvelope ?dead 4096 blank_snapshot) = Master_kStalled" using b sz by blast
  have "demo_mem (9 + 0) 0 \<noteq> 0 \<and> demo_mem (9 + 0) 0 AND 1 = 0 \<and> demo_mem (9 + 8) 0 = demo_mem (9 + 0) 0" by (simp add: demo_mem_def)
  then have 2: "sn_master (ReadMasterEnvelope ?idle 4096 blank_snapshot) = Master_kValue" using a sz by blast
  then have "\<exists>t \<ge> 9 + 0. sn_last_publish_stamp_ns (ReadMasterEnvelope ?idle 4096 blank_snapshot) = sint (demo_mem t 5)" using a by blast
  then show ?thesis using 1 2 by auto
qed

end
