(* ===== verification/Cli_Json.thy ===== *)
theory Cli_Json
  imports Text_Format
begin

text \<open>
  JSON as the command-line tool writes it (\<^verbatim>\<open>JsonEscape\<close> of \<^verbatim>\<open>tools/xmmsg/xmmsg.cpp\<close>): a tree, its text, and a reader that gives the
  tree back. The reader decodes the escapes and skips white space, as any JSON consumer does.
\<close>

section \<open>Escaping\<close>

definition json_unit :: "char \<Rightarrow> string" where
  "json_unit c = (if c = CHR 0x22 \<or> c = CHR 0x5C then [CHR 0x5C, c]
     else if (of_char c :: nat) < 0x20 then [CHR 0x5C, CHR ''u''] @ hex_pad 4 (of_char c)
     else [c])"

definition JsonEscape :: "string \<Rightarrow> string" where
  "JsonEscape text = concat (map json_unit text)"

definition hex_value :: "char \<Rightarrow> nat option" where
  "hex_value c = (let n = (of_char c :: nat) in
     if 48 \<le> n \<and> n \<le> 57 then Some (n - 48) else if 97 \<le> n \<and> n \<le> 102 then Some (n - 87)
     else if 65 \<le> n \<and> n \<le> 70 then Some (n - 55) else None)"

text \<open>The characters up to the closing quote, decoded, and what follows the quote.\<close>

fun parse_str :: "string \<Rightarrow> (string \<times> string) option" where
  "parse_str [] = None"
| "parse_str (c # s) =
     (if c = CHR 0x22 then Some ([], s)
      else if (of_char c :: nat) < 0x20 then None
      else if c \<noteq> CHR 0x5C then map_option (apfst (Cons c)) (parse_str s)
      else case s of
        d # s1 \<Rightarrow>
          if d = CHR 0x22 \<or> d = CHR 0x5C \<or> d = CHR ''/'' then map_option (apfst (Cons d)) (parse_str s1)
          else if d = CHR ''u'' then (case s1 of
              h1 # h2 # h3 # h4 # s2 \<Rightarrow> (case (hex_value h1, hex_value h2, hex_value h3, hex_value h4) of
                  (Some a1, Some a2, Some a3, Some a4) \<Rightarrow>
                    (let n = ((a1 * 16 + a2) * 16 + a3) * 16 + a4
                     in if n < 128 then map_option (apfst (Cons (char_of n))) (parse_str s2) else None)
                | _ \<Rightarrow> None)
            | _ \<Rightarrow> None)
          else None
      | [] \<Rightarrow> None)"

lemma hex_pad_4_small:
  assumes "n < 32"
  shows "hex_pad 4 n = [CHR ''0'', CHR ''0'', digit (n div 16), digit (n mod 16)]"
proof (cases "n < 16")
  case True
  then have "render 16 n = [digit n]" by (simp add: render.simps [of 16 n])
  then show ?thesis using True by (simp add: hex_pad_def numeral_3_eq_3 digit_simps(1))
next
  case False
  then have "n div 16 < 16" using assms by linarith
  then have "render 16 n = [digit (n div 16), digit (n mod 16)]" using False by (simp add: render.simps [of 16 n] render.simps [of 16 "n div 16"])
  then show ?thesis by (simp add: hex_pad_def numeral_2_eq_2)
qed

lemma hex_value_digit: "d < 16 \<Longrightarrow> hex_value (digit d) = Some d"
  using less_16_cases [of d] by (auto simp: hex_value_def digit_simps)

lemma parse_unit: "parse_str (json_unit c @ s) = map_option (apfst (Cons c)) (parse_str s)"
proof (cases "(of_char c :: nat) < 0x20")
  case True
  let ?n = "of_char c :: nat"
  have c: "c \<noteq> CHR 0x22" "c \<noteq> CHR 0x5C" using True by auto
  have h: "hex_value (CHR ''0'') = Some 0" "hex_value (digit (?n div 16)) = Some (?n div 16)" "hex_value (digit (?n mod 16)) = Some (?n mod 16)"
    using True by (simp add: hex_value_def, simp_all add: hex_value_digit)
  have "?n div 16 * 16 + ?n mod 16 = ?n" "?n < 128" using True by simp_all
  then show ?thesis using c True h by (simp add: json_unit_def hex_pad_4_small Let_def)
qed (auto simp: json_unit_def)

lemma parse_escape: "parse_str (JsonEscape t @ CHR 0x22 # s) = Some (t, s)"
proof (induction t)
  case (Cons c t)
  have "JsonEscape (c # t) @ CHR 0x22 # s = json_unit c @ JsonEscape t @ CHR 0x22 # s" by (simp add: JsonEscape_def)
  then show ?case using Cons by (simp add: parse_unit)
qed (simp add: JsonEscape_def)

section \<open>Trees\<close>

datatype json = JStr string | JNum string | JBool bool | JArr "json list" | JObj "(string \<times> json) list"

fun commas :: "string list \<Rightarrow> string" where
  "commas [] = []"
| "commas [x] = x"
| "commas (x # y # xs) = x @ '','' @ commas (y # xs)"

definition quoted :: "string \<Rightarrow> string" where
  "quoted t = [CHR 0x22] @ t @ [CHR 0x22]"

fun show_json :: "json \<Rightarrow> string" where
  "show_json (JStr t) = quoted (JsonEscape t)"
| "show_json (JNum t) = t"
| "show_json (JBool b) = (if b then ''true'' else ''false'')"
| "show_json (JArr js) = ''['' @ commas (map show_json js) @ '']''"
| "show_json (JObj ms) = ''{'' @ commas (map (\<lambda>(k, j). quoted (JsonEscape k) @ '':'' @ show_json j) ms) @ ''}''"

definition number_char :: "char \<Rightarrow> bool" where
  "number_char c \<longleftrightarrow> c \<in> set ''0123456789.-+eE''"

definition blank :: "char \<Rightarrow> bool" where
  "blank c \<longleftrightarrow> c \<in> {CHR '' '', CHR 0x0A, CHR 0x0D, CHR 0x09}"

definition skip :: "string \<Rightarrow> string" where
  "skip s = dropWhile blank s"

text \<open>The reader, with fuel for the nesting and the number of elements.\<close>

fun parse_val :: "nat \<Rightarrow> string \<Rightarrow> (json \<times> string) option"
  and parse_elems :: "nat \<Rightarrow> string \<Rightarrow> (json list \<times> string) option"
  and parse_members :: "nat \<Rightarrow> string \<Rightarrow> ((string \<times> json) list \<times> string) option" where
  "parse_val 0 s = None"
| "parse_val (Suc n) s = (case skip s of
     [] \<Rightarrow> None
   | c # r \<Rightarrow>
       if c = CHR 0x22 then map_option (apfst JStr) (parse_str r)
       else if c = CHR ''['' then
         (if take 1 (skip r) = '']'' then Some (JArr [], drop 1 (skip r)) else map_option (apfst JArr) (parse_elems n r))
       else if c = CHR ''{'' then
         (if take 1 (skip r) = ''}'' then Some (JObj [], drop 1 (skip r)) else map_option (apfst JObj) (parse_members n r))
       else if take 4 (c # r) = ''true'' then Some (JBool True, drop 4 (c # r))
       else if take 5 (c # r) = ''false'' then Some (JBool False, drop 5 (c # r))
       else if number_char c then Some (JNum (takeWhile number_char (c # r)), dropWhile number_char (c # r))
       else None)"
| "parse_elems 0 s = None"
| "parse_elems (Suc n) s = (case parse_val n s of
     None \<Rightarrow> None
   | Some (v, r) \<Rightarrow> (case skip r of
       c # r1 \<Rightarrow> if c = CHR '']'' then Some ([v], r1)
         else if c = CHR '','' then map_option (apfst (Cons v)) (parse_elems n r1) else None
     | [] \<Rightarrow> None))"
| "parse_members 0 s = None"
| "parse_members (Suc n) s = (case skip s of
     [] \<Rightarrow> None
   | q # s1 \<Rightarrow> if q \<noteq> CHR 0x22 then None else (case parse_str s1 of
       None \<Rightarrow> None
     | Some (k, s2) \<Rightarrow> (case skip s2 of
         [] \<Rightarrow> None
       | col # s3 \<Rightarrow> if col \<noteq> CHR '':'' then None else (case parse_val n s3 of
           None \<Rightarrow> None
         | Some (v, r) \<Rightarrow> (case skip r of
             c # r1 \<Rightarrow> if c = CHR ''}'' then Some ([(k, v)], r1)
               else if c = CHR '','' then map_option (apfst (Cons (k, v))) (parse_members n r1) else None
           | [] \<Rightarrow> None)))))"

section \<open>Reading back what is written\<close>

fun jfuel :: "json \<Rightarrow> nat" where
  "jfuel (JArr js) = Suc (sum_list (map (\<lambda>j. Suc (jfuel j)) js))"
| "jfuel (JObj ms) = Suc (sum_list (map (\<lambda>(k, j). Suc (jfuel j)) ms))"
| "jfuel _ = 1"

fun wf_json :: "json \<Rightarrow> bool" where
  "wf_json (JNum t) \<longleftrightarrow> t \<noteq> [] \<and> list_all number_char t"
| "wf_json (JArr js) \<longleftrightarrow> (\<forall>j \<in> set js. wf_json j)"
| "wf_json (JObj ms) \<longleftrightarrow> (\<forall>(k, j) \<in> set ms. wf_json j)"
| "wf_json _ \<longleftrightarrow> True"

definition ends :: "string \<Rightarrow> bool" where
  "ends rest \<longleftrightarrow> rest = [] \<or> \<not> number_char (hd rest)"

text \<open>\<open>reads t j\<close>: in front of anything a number cannot run into, the text \<open>t\<close> is read as \<open>j\<close>.\<close>

definition reads :: "string \<Rightarrow> json \<Rightarrow> bool" where
  "reads t j \<longleftrightarrow> (\<exists>c u. skip t = c # u \<and> c \<noteq> CHR '']'') \<and>
     (\<forall>n rest. jfuel j \<le> n \<longrightarrow> ends rest \<longrightarrow> parse_val n (t @ rest) = Some (j, rest))"

lemma readsI:
  assumes "skip t = c # u" "c \<noteq> CHR '']''" "\<And>n rest. jfuel j \<le> n \<Longrightarrow> ends rest \<Longrightarrow> parse_val n (t @ rest) = Some (j, rest)"
  shows "reads t j"
  using assms by (auto simp: reads_def)

lemma readsD: "reads t j \<Longrightarrow> jfuel j \<le> n \<Longrightarrow> ends rest \<Longrightarrow> parse_val n (t @ rest) = Some (j, rest)"
  by (simp add: reads_def)

lemma skip_simps [simp]: "skip [] = []" "skip (c # s) = (if blank c then skip s else c # s)"
  by (simp_all add: skip_def)

lemma blank_simps [simp]:
  "\<not> blank (CHR '']'')" "\<not> blank (CHR '','')" "\<not> blank (CHR ''}'')" "\<not> blank (CHR '':'')" "\<not> blank (CHR 0x22)" "\<not> blank (CHR ''['')"
  "\<not> blank (CHR ''{'')" "\<not> blank (CHR ''t'')" "\<not> blank (CHR ''f'')" "number_char c \<Longrightarrow> \<not> blank c"
  by (auto simp: blank_def number_char_def)

lemma skip_blanks: "list_all blank w \<Longrightarrow> skip (w @ s) = skip s"
  by (induction w) auto

lemma skip_append: "skip t = c # u \<Longrightarrow> skip (t @ s) = c # u @ s"
  by (induction t) (auto split: if_splits)

lemma parse_val_skip: "parse_val n (w @ s) = parse_val n s" if "list_all blank w"
  using that by (cases n) (simp_all add: skip_blanks)

lemma reads_blanks: "reads t j \<Longrightarrow> list_all blank w \<Longrightarrow> reads (w @ t) j"
  by (auto simp: reads_def skip_blanks parse_val_skip)

lemma ends_simps [simp]: "ends (CHR '','' # s)" "ends (CHR '']'' # s)" "ends (CHR ''}'' # s)" "ends []"
  by (simp_all add: ends_def number_char_def)

lemma ends_blanks: "list_all blank w \<Longrightarrow> ends s \<Longrightarrow> ends (w @ s)"
  by (cases w) (auto simp: ends_def number_char_def blank_def)

lemma parse_elems_reads:
  "list_all2 reads ts js \<Longrightarrow> ts \<noteq> [] \<Longrightarrow> list_all blank w \<Longrightarrow> sum_list (map (\<lambda>j. Suc (jfuel j)) js) \<le> n \<Longrightarrow>
   parse_elems n (commas ts @ w @ CHR '']'' # rest) = Some (js, rest)"
proof (induction ts js arbitrary: n rule: list_all2_induct)
  case (Cons t ts j js)
  then obtain m where n: "n = Suc m" "jfuel j \<le> m" "sum_list (map (\<lambda>j. Suc (jfuel j)) js) \<le> m" by (cases n) auto
  show ?case
  proof (cases ts)
    case Nil
    have "parse_val m (t @ w @ CHR '']'' # rest) = Some (j, w @ CHR '']'' # rest)"
      by (rule readsD [OF Cons.hyps(1) n(2)]) (simp add: ends_blanks Cons.prems)
    then show ?thesis using Nil Cons n by (simp add: skip_blanks)
  next
    case (Cons t' ts')
    let ?r = "CHR '','' # commas ts @ w @ CHR '']'' # rest"
    have "parse_val m (t @ ?r) = Some (j, ?r)" by (rule readsD [OF Cons.hyps(1) n(2)]) simp
    then show ?thesis using Cons Cons.IH [OF _ Cons.prems(2) n(3)] n(1) by simp
  qed
qed simp

definition member :: "string \<times> string \<Rightarrow> string" where
  "member = (\<lambda>(k, t). quoted (JsonEscape k) @ '':'' @ t)"

lemma parse_members_reads:
  "list_all2 (\<lambda>kt m. fst kt = fst m \<and> reads (snd kt) (snd m)) kts ms \<Longrightarrow> kts \<noteq> [] \<Longrightarrow>
   sum_list (map (\<lambda>(k, j). Suc (jfuel j)) ms) \<le> n \<Longrightarrow> parse_members n (commas (map member kts) @ CHR ''}'' # rest) = Some (ms, rest)"
proof (induction kts ms arbitrary: n rule: list_all2_induct)
  case (Cons kt kts m ms)
  obtain k t j where kt: "kt = (k, t)" "m = (k, j)" "reads t j" using Cons.hyps(1) by (cases kt; cases m) auto
  obtain i where n: "n = Suc i" "jfuel j \<le> i" "sum_list (map (\<lambda>(k, j). Suc (jfuel j)) ms) \<le> i" using Cons.prems kt by (cases n) auto
  have val: "parse_val i (t @ r) = Some (j, r)" if "ends r" for r by (rule readsD [OF kt(3) n(2) that])
  have key: "parse_str (JsonEscape k @ CHR 0x22 # r) = Some (k, r)" for r by (rule parse_escape)
  show ?case
  proof (cases kts)
    case Nil
    then show ?thesis using Cons kt n val [of "CHR ''}'' # rest"] key by (simp add: member_def quoted_def)
  next
    case (Cons kt' kts')
    let ?r = "CHR '','' # commas (map member kts) @ CHR ''}'' # rest"
    show ?thesis using Cons Cons.IH [OF _ n(3)] kt n(1) val [of ?r] key by (simp add: member_def quoted_def)
  qed
qed simp

lemma commas_head: "ts \<noteq> [] \<Longrightarrow> skip (hd ts) = c # u \<Longrightarrow> \<exists>u'. skip (commas ts @ r) = c # u'"
  by (cases ts rule: commas.cases) (auto simp: skip_append)

lemma reads_arr:
  assumes "list_all2 reads ts js" "list_all blank w"
  shows "reads (''['' @ commas ts @ w @ '']'') (JArr js)"
proof (rule readsI)
  fix n rest assume n: "jfuel (JArr js) \<le> n"
  then obtain m where m: "n = Suc m" "sum_list (map (\<lambda>j. Suc (jfuel j)) js) \<le> m" by (cases n) auto
  show "parse_val n ((''['' @ commas ts @ w @ '']'') @ rest) = Some (JArr js, rest)"
  proof (cases "ts = []")
    case True
    then show ?thesis using assms m(1) by (simp add: skip_blanks)
  next
    case False
    then obtain c u where c: "skip (hd ts) = c # u" "c \<noteq> CHR '']''" using assms(1) by (cases ts) (auto simp: list_all2_Cons1 reads_def)
    from commas_head [OF False c(1)] obtain u' where "skip (commas ts @ w @ CHR '']'' # rest) = c # u'" by blast
    then show ?thesis using parse_elems_reads [OF assms(1) False assms(2) m(2)] m(1) c(2) by simp
  qed
qed (simp, simp)

lemma reads_obj:
  assumes "list_all2 (\<lambda>kt m. fst kt = fst m \<and> reads (snd kt) (snd m)) kts ms"
  shows "reads (''{'' @ commas (map member kts) @ ''}'') (JObj ms)"
proof (rule readsI)
  fix n rest assume n: "jfuel (JObj ms) \<le> n"
  then obtain m where m: "n = Suc m" "sum_list (map (\<lambda>(k, j). Suc (jfuel j)) ms) \<le> m" by (cases n) auto
  show "parse_val n ((''{'' @ commas (map member kts) @ ''}'') @ rest) = Some (JObj ms, rest)"
  proof (cases kts)
    case Nil
    then show ?thesis using assms m(1) by simp
  next
    case (Cons kt kts')
    then have "\<exists>u. skip (hd (map member kts)) = CHR 0x22 # u" by (cases kt) (simp add: member_def quoted_def)
    then obtain u where u: "skip (hd (map member kts)) = CHR 0x22 # u" ..
    from commas_head [OF _ u, of "CHR ''}'' # rest"] obtain u' where "skip (commas (map member kts) @ CHR ''}'' # rest) = CHR 0x22 # u'" using Cons by auto
    then show ?thesis using parse_members_reads [OF assms _ m(2), of rest] m(1) Cons by simp
  qed
qed (simp, simp)

lemma reads_str: "reads (quoted (JsonEscape t)) (JStr t)"
proof (rule readsI)
  fix n rest assume "jfuel (JStr t) \<le> n"
  then show "parse_val n (quoted (JsonEscape t) @ rest) = Some (JStr t, rest)" by (cases n) (simp_all add: quoted_def parse_escape)
qed (simp add: quoted_def, simp)

lemma reads_num:
  assumes "t \<noteq> []" "list_all number_char t"
  shows "reads t (JNum t)"
proof (rule readsI)
  obtain c u where t: "t = c # u" "number_char c" using assms by (cases t) auto
  then show "skip t = hd t # tl t" "hd t \<noteq> CHR '']''" by (auto simp: number_char_def)
  fix n rest assume "jfuel (JNum t) \<le> n" and e: "ends rest"
  then obtain m where n: "n = Suc m" by (cases n) auto
  have "takeWhile number_char (t @ rest) = t" "dropWhile number_char (t @ rest) = rest"
    using assms(2) e by (induction t) (cases rest; auto simp: ends_def)+
  then show "parse_val n (t @ rest) = Some (JNum t, rest)" using t n by (auto simp: number_char_def)
qed

lemma reads_bool: "reads (if b then ''true'' else ''false'') (JBool b)"
proof (rule readsI)
  show "skip (if b then ''true'' else ''false'') = (if b then CHR ''t'' else CHR ''f'') # (if b then ''rue'' else ''alse'')" by simp
  fix n rest assume "jfuel (JBool b) \<le> n"
  then show "parse_val n ((if b then ''true'' else ''false'') @ rest) = Some (JBool b, rest)" by (cases n) (simp_all add: number_char_def)
qed simp

lemma reads_show: "wf_json j \<Longrightarrow> reads (show_json j) j"
proof (induction j)
  case (JArr js)
  have "list_all2 reads (map show_json js) js" using JArr by (auto simp: list_all2_conv_all_nth)
  from reads_arr [OF this, of "[]"] show ?case by simp
next
  case (JObj ms)
  let ?kts = "map (\<lambda>(k, j). (k, show_json j)) ms"
  have m: "reads (show_json (snd m)) (snd m)" if "m \<in> set ms" for m
    using JObj.IH [OF that, of "snd m"] JObj.prems that by (cases m) auto
  have "list_all2 (\<lambda>kt m. fst kt = fst m \<and> reads (snd kt) (snd m)) ?kts ms"
    using m by (simp add: list_all2_conv_all_nth split_beta)
  from reads_obj [OF this] show ?case by (simp add: member_def comp_def case_prod_unfold)
qed (auto simp: reads_str reads_num reads_bool)

end
