(* ===== verification/Cli.thy ===== *)
theory Cli
  imports Introspect Cli_Json
begin

text \<open>
  \<^verbatim>\<open>tools/xmmsg/xmmsg.cpp\<close>: the introspection tool. A command is a function of what it observes (the directory of
  shared-memory objects, their contents, the liveness of processes, the clock) to its exit code, its output and, for
  \<^verbatim>\<open>clean\<close>, the objects it unlinked. How \<^verbatim>\<open>printf\<close> renders a floating-point age is an argument.
\<close>

section \<open>What a run observes\<close>

record ('s, 'q) world =
  w_dir :: "string list option"
  w_look :: "string \<Rightarrow> ('s, 'q) shm_object option"
  w_fstat :: "string \<Rightarrow> bool"
  w_mmap :: "string \<Rightarrow> bool"
  w_alive :: "u32 \<Rightarrow> bool"
  w_rd :: "string \<Rightarrow> nat \<Rightarrow> nat \<Rightarrow> u64"
  w_now :: int

text \<open>The ages \<^verbatim>\<open>%.1f\<close>, \<^verbatim>\<open>%.0f us\<close>, \<^verbatim>\<open>%.1f ms\<close> and \<^verbatim>\<open>%.1f s\<close> print, from nanoseconds.\<close>

record age_format =
  fmt_us1 :: "int \<Rightarrow> string"
  fmt_us :: "int \<Rightarrow> string"
  fmt_ms :: "int \<Rightarrow> string"
  fmt_s :: "int \<Rightarrow> string"

record TopicView =
  tv_seg :: DiscoveredSegment
  tv_status :: IntrospectOpenStatus
  tv_snap :: "IntrospectSnapshot option"

definition view_of :: "('s, 'q) world \<Rightarrow> DiscoveredSegment \<Rightarrow> TopicView" where
  "view_of w seg = (case IntrospectReader_Open (w_look w) (w_fstat w) (w_mmap w) (seg_name seg) IntrospectReader_init of
     (st, reader) \<Rightarrow> \<lparr>tv_seg = seg, tv_status = st,
       tv_snap = (if st = Open_kOk then (case w_look w (seg_name seg) of None \<Rightarrow> None
         | Some ob \<Rightarrow> Snapshot (w_alive w) (w_rd w (seg_name seg)) (header ob) reader) else None)\<rparr>)"

definition Collect_views :: "('s, 'q) world \<Rightarrow> string \<Rightarrow> TopicView list" where
  "Collect_views w domain_filter = filter (\<lambda>v. tv_status v \<noteq> Open_kForeign)
     (map (view_of w) (filter (\<lambda>seg. domain_filter = [] \<or> seg_isolation_key seg = domain_filter) (DiscoverXmmsgSegments (w_dir w))))"

section \<open>Formatting\<close>

definition to_upper :: "char \<Rightarrow> char" where
  "to_upper c = (if in_range (CHR ''a'') (CHR ''z'') c then char_of ((of_char c :: nat) - 32) else c)"

definition HashHex :: "u64 \<Rightarrow> string" where
  "HashHex h = ''0x'' @ map to_upper (hex_pad 16 (unat h))"

definition QosString :: "IntrospectSnapshot \<Rightarrow> string" where
  "QosString s = (if sn_creator_history_kind s = 0 then ''latest-only'' else ''queue<'' @ decimal (unat (sn_creator_queue_depth s)) @ ''>'')"

definition LastPublishAge :: "int \<Rightarrow> IntrospectSnapshot \<Rightarrow> int option" where
  "LastPublishAge now s = (if sn_master s \<noteq> Master_kValue then None else Some (now - sn_last_publish_stamp_ns s))"

definition AgeString :: "age_format \<Rightarrow> int \<Rightarrow> IntrospectSnapshot \<Rightarrow> string" where
  "AgeString F now s = (if sn_master s = Master_kEmpty then ''never''
     else case LastPublishAge now s of None \<Rightarrow> ''unknown''
     | Some ns \<Rightarrow> if ns < 10000000 then fmt_us F ns @ '' us''
         else if ns < 10000000000 then fmt_ms F ns @ '' ms'' else fmt_s F ns @ '' s'')"

definition PubString :: "IntrospectSnapshot \<Rightarrow> string" where
  "PubString s = (if sn_pub_pid s = 0 then ''none'' else if sn_pub_alive s then ''alive'' else ''DEAD'')"

fun StatusString :: "IntrospectOpenStatus \<Rightarrow> string" where
  "StatusString Open_kOk = ''ok''"
| "StatusString Open_kForeign = ''foreign''"
| "StatusString Open_kVersionSkew = ''version-skew''"
| "StatusString Open_kNotReady = ''not-ready''"
| "StatusString Open_kUnavailable = ''unavailable''"

definition pad_right :: "nat \<Rightarrow> string \<Rightarrow> string" where
  "pad_right n s = s @ replicate (n - length s) (CHR '' '')"

definition pad_left :: "nat \<Rightarrow> string \<Rightarrow> string" where
  "pad_left n s = replicate (n - length s) (CHR '' '') @ s"

definition eol :: string where
  "eol = [CHR 0x0A]"

definition tick :: string where
  "tick = [CHR 0x27]"

definition em_dash :: string where
  "em_dash = [CHR 0xE2, CHR 0x80, CHR 0x94]"

abbreviation dec32 :: "u32 \<Rightarrow> string" where
  "dec32 x \<equiv> decimal (unat x)"

abbreviation dec64 :: "u64 \<Rightarrow> string" where
  "dec64 x \<equiv> decimal (unat x)"

definition bool_text :: "bool \<Rightarrow> string" where
  "bool_text b = (if b then ''true'' else ''false'')"

text \<open>\<open>key k\<close> is the text \<^verbatim>\<open>,"k":\<close> between two members of an object.\<close>

definition key :: "string \<Rightarrow> string" where
  "key k = '','' @ quoted k @ '':''"

section \<open>JSON\<close>

definition master_text :: "MasterReadResult \<Rightarrow> string" where
  "master_text m = (if m = Master_kValue then ''value'' else if m = Master_kEmpty then ''empty'' else ''stalled'')"

definition print_sub_json :: "IntrospectSubSlot \<Rightarrow> string" where
  "print_sub_json sub = ''{'' @ quoted ''slot'' @ '':'' @ decimal (is_index sub) @ key ''pid'' @ dec32 (is_pid sub) @
     key ''alive'' @ bool_text (is_alive sub) @
     key ''history'' @ quoted (if is_history_kind sub = 0 then ''latest-only'' else ''queue'') @ key ''queue_depth'' @ dec32 (is_queue_depth sub) @
     key ''take_count'' @ dec64 (is_take_count sub) @ key ''drop_count'' @ dec64 (is_drop_count sub) @
     key ''overwrite_count'' @ dec64 (is_overwrite_count sub) @ key ''deadline_miss_count'' @ dec64 (is_deadline_miss_count sub) @
     key ''last_consumed_ordinal'' @ dec64 (is_last_consumed_ordinal sub) @ ''}''"

fun print_subs_json :: "bool \<Rightarrow> IntrospectSubSlot list \<Rightarrow> string" where
  "print_subs_json is_first [] = []"
| "print_subs_json is_first (sub # subs) = (if is_first then [] else '','') @ print_sub_json sub @ print_subs_json False subs"

definition print_snap_json :: "age_format \<Rightarrow> int \<Rightarrow> IntrospectSnapshot \<Rightarrow> string" where
  "print_snap_json F now s =
     key ''layout_version'' @ dec32 (sn_layout_version s) @ key ''envelope_version'' @ dec32 (sn_envelope_version s) @
     key ''schema_hash'' @ quoted (HashHex (sn_schema_hash s)) @ key ''payload_size'' @ dec64 (sn_payload_size s) @
     key ''payload_align'' @ dec64 (sn_payload_align s) @ key ''qos'' @ quoted (QosString s) @
     key ''publisher'' @ ''{'' @ quoted ''pid'' @ '':'' @ dec32 (sn_pub_pid s) @ key ''alive'' @ bool_text (sn_pub_alive s) @
     key ''epoch'' @ dec32 (sn_pub_epoch s) @ key ''publish_count'' @ dec64 (sn_pub_publish_count s) @ key ''bytes'' @ dec64 (sn_pub_bytes s) @ ''}'' @
     key ''accepted_ordinal'' @ dec64 (sn_accepted_ordinal s) @
     key ''last_publish'' @ ''{'' @ quoted ''state'' @ '':'' @ quoted (master_text (sn_master s)) @
     (case LastPublishAge now s of None \<Rightarrow> [] | Some ns \<Rightarrow> key ''age_us'' @ fmt_us1 F ns @ key ''ordinal'' @ dec64 (sn_last_ordinal s)) @ ''}'' @
     key ''refusals'' @ ''{'' @ quoted ''count'' @ '':'' @ dec64 (sn_refusal_count s) @
     (if sn_refusal_count s > 0 then key ''last_schema_hash'' @ quoted (HashHex (sn_refused_schema_hash s)) @
        key ''last_payload_size'' @ dec64 (sn_refused_payload_size s) @ key ''last_pid'' @ dec32 (sn_refused_pid s) else []) @ ''}'' @
     key ''subscribers'' @ ''['' @ print_subs_json True (sn_subscribers s) @ '']''"

definition PrintTopicJson :: "age_format \<Rightarrow> int \<Rightarrow> TopicView \<Rightarrow> string \<Rightarrow> string" where
  "PrintTopicJson F now view indent = indent @ ''{'' @ quoted ''topic'' @ '':'' @ quoted (JsonEscape (seg_topic (tv_seg view))) @
     key ''segment'' @ quoted (JsonEscape (seg_name (tv_seg view))) @ key ''status'' @ quoted (StatusString (tv_status view)) @
     (case tv_snap view of Some s \<Rightarrow> if tv_status view = Open_kOk then print_snap_json F now s else [] | None \<Rightarrow> []) @ ''}''"

section \<open>Commands\<close>

text \<open>Exit code, standard output and standard error.\<close>

record outcome =
  out_code :: nat
  out_stdout :: string
  out_stderr :: string

definition domain_column :: "TopicView \<Rightarrow> string" where
  "domain_column v = (if seg_hashed_name (tv_seg v) then seg_name (tv_seg v) else seg_isolation_key (tv_seg v))"

definition topic_column :: "TopicView \<Rightarrow> string" where
  "topic_column v = (if seg_hashed_name (tv_seg v) then ''(hashed name)'' else seg_topic (tv_seg v))"

definition column_width :: "string \<Rightarrow> (TopicView \<Rightarrow> string) \<Rightarrow> TopicView list \<Rightarrow> nat" where
  "column_width title col views = fold (\<lambda>v w. if length (col v) > w then length (col v) else w) views (length title)"

abbreviation gap :: string where
  "gap \<equiv> ''  ''"

definition list_row :: "age_format \<Rightarrow> int \<Rightarrow> nat \<Rightarrow> nat \<Rightarrow> TopicView \<Rightarrow> string" where
  "list_row F now w_domain w_topic v = pad_right w_domain (domain_column v) @ gap @ pad_right w_topic (topic_column v) @ gap @
     (case tv_snap v of
        Some s \<Rightarrow> pad_right 18 (HashHex (sn_schema_hash s)) @ gap @ pad_right 12 (QosString s) @ gap @ pad_left 8 (dec64 (sn_payload_size s)) @ gap @
          pad_left 8 (dec32 (sn_pub_pid s)) @ gap @ pad_right 5 (PubString s) @ gap @ pad_left 4 (decimal (sn_active_subscriber_count s)) @ gap @
          AgeString F now s
      | None \<Rightarrow> ''['' @ StatusString (tv_status v) @ '']'') @ eol"

definition list_header :: "nat \<Rightarrow> nat \<Rightarrow> string" where
  "list_header w_domain w_topic = pad_right w_domain ''DOMAIN'' @ gap @ pad_right w_topic ''TOPIC'' @ gap @ pad_right 18 ''TYPE-HASH'' @ gap @
     pad_right 12 ''QOS'' @ gap @ pad_left 8 ''PAYLOAD'' @ gap @ pad_left 8 ''PUB-PID'' @ gap @ pad_right 5 ''PUB'' @ gap @ pad_left 4 ''SUBS'' @ gap @
     ''LAST-PUB'' @ eol"

definition list_json_entry :: "age_format \<Rightarrow> int \<Rightarrow> TopicView \<Rightarrow> string" where
  "list_json_entry F now v = eol @ ''  {'' @ quoted ''domain'' @ '':'' @ quoted (JsonEscape (seg_isolation_key (tv_seg v))) @ key ''info'' @
     PrintTopicJson F now v [] @ ''}''"

definition CmdList :: "age_format \<Rightarrow> ('s, 'q) world \<Rightarrow> string \<Rightarrow> bool \<Rightarrow> outcome" where
  "CmdList F w domain_filter json =
     (let views = Collect_views w domain_filter;
          ok = (\<lambda>text. \<lparr>out_code = 0, out_stdout = text, out_stderr = []\<rparr>)
      in if json then ok (''{'' @ quoted ''topics'' @ '':'' @ ''['' @ commas (map (list_json_entry F (w_now w)) views) @ eol @ '']}'' @ eol)
         else if views = [] then
           ok (''no xmmsg segments'' @ (if domain_filter = [] then [] else '' for domain '' @ domain_filter) @ '' in /dev/shm'' @ eol)
         else let w_domain = column_width ''DOMAIN'' domain_column views; w_topic = column_width ''TOPIC'' topic_column views
           in ok (list_header w_domain w_topic @ concat (map (list_row F (w_now w) w_domain w_topic) views)))"

text \<open>\<open>Inl\<close>: the diagnostic of an argument that names no segment, or several.\<close>

definition ResolveTopic :: "('s, 'q) world \<Rightarrow> string \<Rightarrow> string \<Rightarrow> string + TopicView" where
  "ResolveTopic w arg domain_filter =
     (let raw = (arg \<noteq> [] \<and> (hd arg = CHR ''/'' \<or> take 6 arg = ''xmmsg.''));
          raw_name = (if arg \<noteq> [] \<and> hd arg = CHR ''/'' then arg else ''/'' @ arg);
          matches = filter (\<lambda>v. if raw then seg_name (tv_seg v) = raw_name else seg_topic (tv_seg v) = arg) (Collect_views w domain_filter)
      in case matches of
        [] \<Rightarrow> Inl (''xmmsg: no live segment for topic '' @ tick @ arg @ tick @
          (if domain_filter = [] then [] else '' in domain '' @ domain_filter) @ eol)
      | [v] \<Rightarrow> Inr v
      | _ \<Rightarrow> Inl (''xmmsg: topic '' @ tick @ arg @ tick @ '' exists in '' @ decimal (length matches) @ '' domains '' @ em_dash @
          '' disambiguate with --domain:'' @ eol @ concat (map (\<lambda>v. ''  --domain '' @ seg_isolation_key (tv_seg v) @ eol) matches)))"

definition sub_line :: "IntrospectSubSlot \<Rightarrow> string" where
  "sub_line sub = ''  ['' @ pad_left 2 (decimal (is_index sub)) @ ''] pid '' @ pad_right 8 (dec32 (is_pid sub)) @ '' '' @
     pad_right 5 (if is_alive sub then ''alive'' else ''DEAD'') @ '' '' @
     pad_right 11 (if is_history_kind sub = 0 then ''latest-only'' else ''queue<'' @ dec32 (is_queue_depth sub) @ ''>'') @
     '' take='' @ dec64 (is_take_count sub) @ '' overwrite='' @ dec64 (is_overwrite_count sub) @ '' drop='' @ dec64 (is_drop_count sub) @
     '' deadline_miss='' @ dec64 (is_deadline_miss_count sub) @ '' last_consumed='' @ dec64 (is_last_consumed_ordinal sub) @ eol"

definition snap_lines :: "age_format \<Rightarrow> int \<Rightarrow> IntrospectSnapshot \<Rightarrow> string" where
  "snap_lines F now s =
     ''layout/envelope:  v'' @ dec32 (sn_layout_version s) @ '' / v'' @ dec32 (sn_envelope_version s) @ eol @
     ''type hash:        '' @ HashHex (sn_schema_hash s) @ eol @
     ''payload:          '' @ dec64 (sn_payload_size s) @ '' B (align '' @ dec64 (sn_payload_align s) @ '')'' @ eol @
     ''qos (creator):    '' @ QosString s @ eol @
     ''publisher:        '' @ (if sn_pub_pid s = 0 then ''none'' else ''pid '' @ dec32 (sn_pub_pid s) @ '' '' @
        (if sn_pub_alive s then ''alive'' else ''DEAD'') @ '' (epoch '' @ dec32 (sn_pub_epoch s) @ '')'') @ eol @
     ''published:        '' @ dec64 (sn_pub_publish_count s) @ '' msgs, '' @ dec64 (sn_pub_bytes s) @ '' payload bytes'' @ eol @
     ''accepted ordinal: '' @ dec64 (sn_accepted_ordinal s) @ eol @
     ''last publish:     '' @ AgeString F now s @ (if sn_master s = Master_kValue then '' ago'' else []) @ eol @
     (if sn_refusal_count s > 0 then ''refusals:         '' @ dec64 (sn_refusal_count s) @ '' (last: hash '' @ HashHex (sn_refused_schema_hash s) @
        '', payload '' @ dec64 (sn_refused_payload_size s) @ '' B, pid '' @ dec32 (sn_refused_pid s) @ '') TYPE MISMATCH'' @ eol else []) @
     ''subscribers:      '' @ decimal (sn_active_subscriber_count s) @ '' active / '' @ dec32 (sn_max_subscribers s) @ '' slots'' @ eol @
     concat (map sub_line (sn_subscribers s))"

definition PrintStatPlain :: "age_format \<Rightarrow> int \<Rightarrow> TopicView \<Rightarrow> string" where
  "PrintStatPlain F now v =
     ''topic:            '' @ topic_column v @ eol @
     ''domain:           '' @ seg_isolation_key (tv_seg v) @ eol @
     ''segment:          '' @ seg_name (tv_seg v) @ eol @
     (case tv_snap v of Some s \<Rightarrow> snap_lines F now s | None \<Rightarrow> ''status:           '' @ StatusString (tv_status v) @ eol)"

definition CmdStat :: "age_format \<Rightarrow> ('s, 'q) world \<Rightarrow> string \<Rightarrow> string \<Rightarrow> bool \<Rightarrow> outcome" where
  "CmdStat F w topic domain_filter json = (case ResolveTopic w topic domain_filter of
     Inl msg \<Rightarrow> \<lparr>out_code = 1, out_stdout = [], out_stderr = msg\<rparr>
   | Inr v \<Rightarrow> \<lparr>out_code = 0, out_stdout = (if json then PrintTopicJson F (w_now w) v [] @ eol else PrintStatPlain F (w_now w) v), out_stderr = []\<rparr>)"

text \<open>\<open>stop k\<close>: whether Ctrl-C was pressed before tick \<open>k\<close>; \<open>worlds k\<close> is what that tick observes, \<open>stamp k\<close> the time of day it
  prints. \<open>None\<close> is a watch that nobody ends. The time between ticks is not modelled.\<close>

partial_function (option) watch_loop :: "age_format \<Rightarrow> (nat \<Rightarrow> ('s, 'q) world) \<Rightarrow> (nat \<Rightarrow> bool) \<Rightarrow> (nat \<Rightarrow> string) \<Rightarrow> string \<Rightarrow> string \<Rightarrow> nat \<Rightarrow>
  string \<Rightarrow> outcome option" where
  "watch_loop F worlds stop stamp topic domain_filter k out =
     (if stop k then Some \<lparr>out_code = 0, out_stdout = out, out_stderr = []\<rparr>
      else case ResolveTopic (worlds k) topic domain_filter of
        Inl msg \<Rightarrow> Some \<lparr>out_code = 1, out_stdout = out, out_stderr = msg\<rparr>
      | Inr v \<Rightarrow> watch_loop F worlds stop stamp topic domain_filter (Suc k)
          (out @ ''---- '' @ stamp k @ '' ----------------------------------------'' @ eol @ PrintStatPlain F (w_now (worlds k)) v))"

definition CmdWatch :: "age_format \<Rightarrow> (nat \<Rightarrow> ('s, 'q) world) \<Rightarrow> (nat \<Rightarrow> bool) \<Rightarrow> (nat \<Rightarrow> string) \<Rightarrow> string \<Rightarrow> string \<Rightarrow> outcome option" where
  "CmdWatch F worlds stop stamp topic domain_filter = watch_loop F worlds stop stamp topic domain_filter 0 []"

section \<open>Reclaiming dead segments\<close>

definition reclaimable :: "TopicView \<Rightarrow> bool" where
  "reclaimable v = (case tv_snap v of None \<Rightarrow> False
   | Some s \<Rightarrow> tv_status v = Open_kOk \<and> \<not> (sn_pub_pid s \<noteq> 0 \<and> sn_pub_alive s) \<and>
       \<not> list_ex (\<lambda>sub. is_state sub = kShmSubActive \<and> is_alive sub) (sn_subscribers s))"

text \<open>\<open>unlinks\<close>: what \<^verbatim>\<open>shm_unlink\<close> answers for a name (\<open>None\<close> success, else the text of \<^verbatim>\<open>errno\<close>). The names unlinked come last.\<close>

definition clean_json :: "bool \<Rightarrow> TopicView list \<Rightarrow> nat \<Rightarrow> string" where
  "clean_json yes candidates skipped = ''{'' @ quoted ''candidates'' @ '':'' @ ''['' @
     commas (map (\<lambda>v. ''{'' @ quoted ''segment'' @ '':'' @ quoted (JsonEscape (seg_name (tv_seg v))) @ key ''topic'' @
       quoted (JsonEscape (seg_topic (tv_seg v))) @ ''}'') candidates) @ '']'' @ key ''skipped_unvalidated'' @ decimal skipped @
     key ''unlinked'' @ bool_text yes @ ''}'' @ eol"

fun clean_loop :: "(string \<Rightarrow> string option) \<Rightarrow> bool \<Rightarrow> bool \<Rightarrow> TopicView list \<Rightarrow> string \<times> string \<times> string list \<times> nat" where
  "clean_loop unlinks yes json [] = ([], [], [], 0)"
| "clean_loop unlinks yes json (v # vs) =
     (let nm = seg_name (tv_seg v) in case clean_loop unlinks yes json vs of (text, errs, names, failures) \<Rightarrow>
        if yes then (case unlinks nm of
            None \<Rightarrow> ((if json then [] else ''unlinked  '' @ nm @ eol) @ text, errs, nm # names, failures)
          | Some why \<Rightarrow> (text, ''xmmsg: shm_unlink('' @ nm @ '') failed: '' @ why @ eol @ errs, names, failures + 1))
        else ((if json then [] else ''would unlink  '' @ nm @ ''  (publisher and all subscribers dead)'' @ eol) @ text, errs, names, failures))"

definition CmdClean :: "(string \<Rightarrow> string option) \<Rightarrow> ('s, 'q) world \<Rightarrow> string \<Rightarrow> bool \<Rightarrow> bool \<Rightarrow> outcome \<times> string list" where
  "CmdClean unlinks w domain_filter yes json =
     (let views = Collect_views w domain_filter;
          skipped = length (filter (\<lambda>v. tv_status v \<noteq> Open_kOk) views);
          candidates = filter reclaimable views;
          tail = (if json then [] else
            (if candidates = [] then ''nothing to clean'' @ (if skipped > 0 then '' (unvalidated segments were skipped)'' else []) @ eol
             else if \<not> yes then decimal (length candidates) @ '' segment(s) reclaimable '' @ em_dash @ '' dry run; pass --yes to unlink'' @ eol else []) @
            (if skipped > 0 then ''skipped '' @ decimal skipped @ '' unvalidated segment(s) (not-ready or version-skew) '' @ em_dash @
               '' inspect with `xmmsg list`'' @ eol else []))
      in case clean_loop unlinks yes json candidates of (text, errs, names, failures) \<Rightarrow>
        (\<lparr>out_code = (if failures = 0 then 0 else 1),
          out_stdout = (if json then clean_json yes candidates skipped else []) @ text @ tail, out_stderr = errs\<rparr>, names))"

section \<open>The command line\<close>

definition is_space :: "char \<Rightarrow> bool" where
  "is_space c \<longleftrightarrow> c \<in> {CHR '' '', CHR 0x09, CHR 0x0A, CHR 0x0B, CHR 0x0C, CHR 0x0D}"

definition is_digit :: "char \<Rightarrow> bool" where
  "is_digit c \<longleftrightarrow> in_range (CHR ''0'') (CHR ''9'') c"

definition digits_value :: "string \<Rightarrow> int" where
  "digits_value ds = fold (\<lambda>c v. v * 10 + (int (of_char c) - 48)) ds 0"

text \<open>\<^verbatim>\<open>strtol\<close> to base 10 of a 64-bit \<^verbatim>\<open>long\<close>: white space, a sign, digits; no digits give 0, and the ends of the range absorb.\<close>

definition strtol :: "string \<Rightarrow> int" where
  "strtol s = (let t = dropWhile is_space s;
       neg = (t \<noteq> [] \<and> hd t = CHR ''-'');
       u = (if t \<noteq> [] \<and> (hd t = CHR ''-'' \<or> hd t = CHR ''+'') then tl t else t);
       v = digits_value (takeWhile is_digit u)
     in if neg then max (- (2 ^ 63)) (- v) else min (2 ^ 63 - 1) v)"

record options =
  opt_domain :: string
  opt_topic :: string
  opt_json :: bool
  opt_yes :: bool
  opt_interval_ms :: int

definition options_default :: options where
  "options_default = \<lparr>opt_domain = [], opt_topic = [], opt_json = False, opt_yes = False, opt_interval_ms = 1000\<rparr>"

fun parse_args :: "string list \<Rightarrow> options \<Rightarrow> options option" where
  "parse_args [] opts = Some opts"
| "parse_args (a # rest) opts =
     (if a = ''--json'' then parse_args rest (opts\<lparr>opt_json := True\<rparr>)
      else if a = ''--yes'' then parse_args rest (opts\<lparr>opt_yes := True\<rparr>)
      else if a = ''--domain'' \<and> rest \<noteq> [] then parse_args (tl rest) (opts\<lparr>opt_domain := hd rest\<rparr>)
      else if a = ''--interval-ms'' \<and> rest \<noteq> [] then
        (if strtol (hd rest) \<le> 0 then None else parse_args (tl rest) (opts\<lparr>opt_interval_ms := strtol (hd rest)\<rparr>))
      else if (a = [] \<or> hd a \<noteq> CHR ''-'') \<and> opt_topic opts = [] then parse_args rest (opts\<lparr>opt_topic := a\<rparr>)
      else None)"

datatype action = Usage | Do_list string bool | Do_stat string string bool | Do_watch string string int | Do_clean string bool bool

text \<open>The arguments after the program name.\<close>

definition main_action :: "string list \<Rightarrow> action" where
  "main_action args = (case args of [] \<Rightarrow> Usage
   | command # rest \<Rightarrow> (case parse_args rest options_default of None \<Rightarrow> Usage
     | Some opts \<Rightarrow>
         if command = ''list'' then
           (if opt_topic opts = [] \<and> \<not> opt_yes opts then Do_list (opt_domain opts) (opt_json opts) else Usage)
         else if command = ''stat'' then
           (if opt_topic opts \<noteq> [] \<and> \<not> opt_yes opts then Do_stat (opt_topic opts) (opt_domain opts) (opt_json opts) else Usage)
         else if command = ''watch'' then
           (if opt_topic opts \<noteq> [] \<and> \<not> opt_yes opts \<and> \<not> opt_json opts
            then Do_watch (opt_topic opts) (opt_domain opts) (opt_interval_ms opts) else Usage)
         else if command = ''clean'' then
           (if opt_topic opts = [] then Do_clean (opt_domain opts) (opt_yes opts) (opt_json opts) else Usage)
         else Usage))"

definition usage_text :: string where
  "usage_text = ''usage: xmmsg <command> [options]'' @ eol @
     ''  list  [--domain KEY] [--json]           enumerate live topics'' @ eol @
     ''  stat  <topic> [--domain KEY] [--json]   one topic'' @ tick @ ''s full state'' @ eol @
     ''  watch <topic> [--domain KEY] [--interval-ms N]'' @ eol @
     ''                                          re-print stat until Ctrl-C'' @ eol @
     ''  clean [--domain KEY] [--yes] [--json]   unlink all-dead segments'' @ eol @
     ''                                          (dry run without --yes)'' @ eol @
     ''KEY is the domain isolation key (wire-contract '' @ [CHR 0xC2, CHR 0xA7] @ ''6.2), e.g. u1000.nav_stack.'' @ eol @
     ''Live state only (R5): history belongs to the telemetry plane.'' @ eol"

definition main :: "age_format \<Rightarrow> (nat \<Rightarrow> ('s, 'q) world) \<Rightarrow> (nat \<Rightarrow> bool) \<Rightarrow> (nat \<Rightarrow> string) \<Rightarrow> (string \<Rightarrow> string option) \<Rightarrow> string list \<Rightarrow>
  (outcome \<times> string list) option" where
  "main F worlds stop stamp unlinks args = (case main_action args of
     Usage \<Rightarrow> Some (\<lparr>out_code = 2, out_stdout = [], out_stderr = usage_text\<rparr>, [])
   | Do_list domain_filter json \<Rightarrow> Some (CmdList F (worlds 0) domain_filter json, [])
   | Do_stat topic domain_filter json \<Rightarrow> Some (CmdStat F (worlds 0) topic domain_filter json, [])
   | Do_watch topic domain_filter _ \<Rightarrow> map_option (\<lambda>res. (res, [])) (CmdWatch F worlds stop stamp topic domain_filter)
   | Do_clean domain_filter yes json \<Rightarrow> Some (CmdClean unlinks (worlds 0) domain_filter yes json))"

end
