(* ===== verification/Cli_Properties.thy ===== *)
theory Cli_Properties
  imports Cli
begin

text \<open>
  What the introspection tool guarantees: its JSON reads back as the tree of what it observed, and \<^verbatim>\<open>clean\<close> unlinks exactly the
  valid segments without a living publisher or active subscriber, which are those without a living participant when no claim is in progress.
\<close>

section \<open>The tree of a topic\<close>

abbreviation num :: "nat \<Rightarrow> json" where
  "num n \<equiv> JNum (decimal n)"

definition sub_json :: "IntrospectSubSlot \<Rightarrow> json" where
  "sub_json sub = JObj [(''slot'', num (is_index sub)), (''pid'', num (unat (is_pid sub))), (''alive'', JBool (is_alive sub)),
     (''history'', JStr (if is_history_kind sub = 0 then ''latest-only'' else ''queue'')), (''queue_depth'', num (unat (is_queue_depth sub))),
     (''take_count'', num (unat (is_take_count sub))), (''drop_count'', num (unat (is_drop_count sub))),
     (''overwrite_count'', num (unat (is_overwrite_count sub))), (''deadline_miss_count'', num (unat (is_deadline_miss_count sub))),
     (''last_consumed_ordinal'', num (unat (is_last_consumed_ordinal sub)))]"

definition publisher_json :: "IntrospectSnapshot \<Rightarrow> json" where
  "publisher_json s = JObj [(''pid'', num (unat (sn_pub_pid s))), (''alive'', JBool (sn_pub_alive s)), (''epoch'', num (unat (sn_pub_epoch s))),
     (''publish_count'', num (unat (sn_pub_publish_count s))), (''bytes'', num (unat (sn_pub_bytes s)))]"

definition last_publish_json :: "age_format \<Rightarrow> int \<Rightarrow> IntrospectSnapshot \<Rightarrow> json" where
  "last_publish_json F now s = JObj ((''state'', JStr (master_text (sn_master s))) #
     (case LastPublishAge now s of None \<Rightarrow> [] | Some ns \<Rightarrow> [(''age_us'', JNum (fmt_us1 F ns)), (''ordinal'', num (unat (sn_last_ordinal s)))]))"

definition refusals_json :: "IntrospectSnapshot \<Rightarrow> json" where
  "refusals_json s = JObj ((''count'', num (unat (sn_refusal_count s))) # (if sn_refusal_count s > 0
     then [(''last_schema_hash'', JStr (HashHex (sn_refused_schema_hash s))), (''last_payload_size'', num (unat (sn_refused_payload_size s))),
       (''last_pid'', num (unat (sn_refused_pid s)))] else []))"

definition snap_members :: "age_format \<Rightarrow> int \<Rightarrow> IntrospectSnapshot \<Rightarrow> (string \<times> json) list" where
  "snap_members F now s = [(''layout_version'', num (unat (sn_layout_version s))), (''envelope_version'', num (unat (sn_envelope_version s))),
     (''schema_hash'', JStr (HashHex (sn_schema_hash s))), (''payload_size'', num (unat (sn_payload_size s))),
     (''payload_align'', num (unat (sn_payload_align s))), (''qos'', JStr (QosString s)), (''publisher'', publisher_json s),
     (''accepted_ordinal'', num (unat (sn_accepted_ordinal s))), (''last_publish'', last_publish_json F now s), (''refusals'', refusals_json s),
     (''subscribers'', JArr (map sub_json (sn_subscribers s)))]"

definition topic_json :: "age_format \<Rightarrow> int \<Rightarrow> TopicView \<Rightarrow> json" where
  "topic_json F now v = JObj ([(''topic'', JStr (seg_topic (tv_seg v))), (''segment'', JStr (seg_name (tv_seg v))),
     (''status'', JStr (StatusString (tv_status v)))] @
     (case tv_snap v of Some s \<Rightarrow> if tv_status v = Open_kOk then snap_members F now s else [] | None \<Rightarrow> []))"

section \<open>The printed text is the text of the tree\<close>

definition plain_char :: "char \<Rightarrow> bool" where
  "plain_char c \<longleftrightarrow> c \<noteq> CHR 0x22 \<and> c \<noteq> CHR 0x5C \<and> 0x20 \<le> (of_char c :: nat)"

lemma JsonEscape_plain: "list_all plain_char t \<Longrightarrow> JsonEscape t = t"
  by (induction t) (auto simp: JsonEscape_def json_unit_def plain_char_def)

lemma plain_char_iff: "plain_char c \<longleftrightarrow> (of_char c :: nat) \<noteq> 34 \<and> (of_char c :: nat) \<noteq> 92 \<and> 32 \<le> (of_char c :: nat)"
proof -
  have "(of_char (CHR 0x22) :: nat) = 34" "(of_char (CHR 0x5C) :: nat) = 92" by simp_all
  then have "(of_char c :: nat) = 34 \<longleftrightarrow> c = CHR 0x22" "(of_char c :: nat) = 92 \<longleftrightarrow> c = CHR 0x5C" by (metis of_char_inj)+
  then show ?thesis by (simp add: plain_char_def)
qed

lemma hex_plain: "c \<in> set ''0123456789abcdef'' \<Longrightarrow> plain_char c \<and> plain_char (to_upper c)"
  by (auto simp: plain_char_iff to_upper_def in_range_def)

lemma render_plain: "list_all plain_char (decimal n)" "list_all plain_char (map to_upper (hex_pad 16 n))"
proof -
  have d: "\<forall>c \<in> set (render b n). plain_char c \<and> plain_char (to_upper c)" if "2 \<le> b" "b \<le> 16" for b
    using render_digits [OF that, of n] hex_plain by blast
  show "list_all plain_char (decimal n)" using d [of 10] by (simp add: list_all_iff)
  have "plain_char (to_upper (CHR ''0''))" by (simp add: hex_plain)
  then show "list_all plain_char (map to_upper (hex_pad 16 n))" using d [of 16] by (auto simp: list_all_iff hex_pad_def Let_def)
qed

lemma digit_number_char: "d < 10 \<Longrightarrow> number_char (digit d)"
  using less_16_cases [of d] by (auto simp: digit_simps number_char_def)

lemma decimal_number: "list_all number_char (decimal n)"
proof (induction n rule: less_induct)
  case (less n)
  show ?case
  proof (cases "n < 10")
    case True
    then show ?thesis by (simp add: render.simps [of 10 n] digit_number_char)
  next
    case False
    then have "n div 10 < n" by simp
    then show ?thesis using less False by (simp add: render.simps [of 10 n] digit_number_char)
  qed
qed

lemma commas_Cons: "commas (x # xs) = x @ concat (map (\<lambda>y. '','' @ y) xs)"
  by (induction xs arbitrary: x) auto

lemma show_object:
  "show_json (JObj ((k, j) # ms)) = ''{'' @ quoted (JsonEscape k) @ '':'' @ show_json j @ concat (map (\<lambda>(k, j). key (JsonEscape k) @ show_json j) ms) @ ''}''"
  by (simp add: commas_Cons key_def comp_def case_prod_unfold)

lemma show_bool: "bool_text b = show_json (JBool b)"
  by (simp add: bool_text_def)

lemma escape_texts [simp]:
  "JsonEscape (HashHex h) = HashHex h" "JsonEscape (QosString s) = QosString s" "JsonEscape (StatusString st) = StatusString st"
  "JsonEscape (master_text m) = master_text m"
proof -
  show "JsonEscape (HashHex h) = HashHex h" using render_plain(2) [of "unat h"] by (intro JsonEscape_plain) (simp add: HashHex_def plain_char_def)
  show "JsonEscape (QosString s) = QosString s" using render_plain(1) by (intro JsonEscape_plain) (simp add: QosString_def, simp add: plain_char_def)
  show "JsonEscape (StatusString st) = StatusString st" by (intro JsonEscape_plain) (cases st; simp add: plain_char_def)
  show "JsonEscape (master_text m) = master_text m" by (intro JsonEscape_plain) (simp add: master_text_def plain_char_def)
qed

lemma print_sub_json: "print_sub_json sub = show_json (sub_json sub)"
  unfolding sub_json_def show_object print_sub_json_def by (simp add: JsonEscape_plain plain_char_def show_bool)

lemma print_subs_json: "print_subs_json f subs = (if f \<or> subs = [] then [] else '','') @ commas (map (\<lambda>s. show_json (sub_json s)) subs)"
  proof (induction f subs rule: print_subs_json.induct)
  case (2 f sub subs)
  then show ?case by (cases subs) (simp_all add: print_sub_json)
qed simp

lemma print_publisher: "''{'' @ quoted ''pid'' @ '':'' @ dec32 (sn_pub_pid s) @ key ''alive'' @ bool_text (sn_pub_alive s) @
     key ''epoch'' @ dec32 (sn_pub_epoch s) @ key ''publish_count'' @ dec64 (sn_pub_publish_count s) @ key ''bytes'' @ dec64 (sn_pub_bytes s) @ ''}'' @ r =
   show_json (publisher_json s) @ r"
  unfolding publisher_json_def show_object by (simp add: JsonEscape_plain plain_char_def show_bool)

lemma print_last_publish: "''{'' @ quoted ''state'' @ '':'' @ quoted (master_text (sn_master s)) @
     (case LastPublishAge now s of None \<Rightarrow> [] | Some ns \<Rightarrow> key ''age_us'' @ fmt_us1 F ns @ key ''ordinal'' @ dec64 (sn_last_ordinal s)) @ ''}'' @ r =
   show_json (last_publish_json F now s) @ r"
  unfolding last_publish_json_def show_object by (simp add: JsonEscape_plain plain_char_def split: option.splits)

lemma print_refusals: "''{'' @ quoted ''count'' @ '':'' @ dec64 (sn_refusal_count s) @
     (if sn_refusal_count s > 0 then key ''last_schema_hash'' @ quoted (HashHex (sn_refused_schema_hash s)) @
        key ''last_payload_size'' @ dec64 (sn_refused_payload_size s) @ key ''last_pid'' @ dec32 (sn_refused_pid s) else []) @ ''}'' @ r =
   show_json (refusals_json s) @ r"
  unfolding refusals_json_def show_object by (simp add: JsonEscape_plain plain_char_def)

lemma print_snap_json: "print_snap_json F now s = concat (map (\<lambda>(k, j). key (JsonEscape k) @ show_json j) (snap_members F now s))"
  unfolding print_snap_json_def print_publisher print_last_publish print_refusals snap_members_def
  by (simp add: JsonEscape_plain plain_char_def print_subs_json comp_def)

lemma PrintTopicJson_show: "PrintTopicJson F now v indent = indent @ show_json (topic_json F now v)"
  unfolding topic_json_def append_Cons show_object PrintTopicJson_def
  by (simp add: JsonEscape_plain plain_char_def print_snap_json split: option.splits)

lemma wf_topic_json:
  assumes "\<forall>ns. fmt_us1 F ns \<noteq> [] \<and> list_all number_char (fmt_us1 F ns)"
  shows "wf_json (topic_json F now v)"
  using assms by (auto simp: topic_json_def snap_members_def publisher_json_def last_publish_json_def refusals_json_def sub_json_def decimal_number
    split: option.splits)

section \<open>Reading the output\<close>

text \<open>C22. The JSON of \<^verbatim>\<open>stat\<close> and \<^verbatim>\<open>list\<close> is machine-readable whatever the names contain: a JSON reader gets back the tree of what was observed,
  topic and segment names included, and nothing but the final line end is left over.\<close>

theorem json_round_trip:
  assumes "\<forall>ns. fmt_us1 F ns \<noteq> [] \<and> list_all number_char (fmt_us1 F ns)"
    and "ResolveTopic w topic domain_filter = Inr v"
  shows "parse_val (jfuel (topic_json F (w_now w) v)) (out_stdout (CmdStat F w topic domain_filter True)) = Some (topic_json F (w_now w) v, eol) \<and>
     (\<exists>n. parse_val n (out_stdout (CmdList F w domain_filter True)) =
        Some (JObj [(''topics'', JArr (map (\<lambda>v. JObj [(''domain'', JStr (seg_isolation_key (tv_seg v))), (''info'', topic_json F (w_now w) v)])
          (Collect_views w domain_filter)))], eol))"
proof -
  let ?t = "topic_json F (w_now w)"
  note r = reads_show [OF wf_topic_json [OF assms(1)]]
  have e: "ends eol" by (simp add: ends_def eol_def number_char_def)
  have "out_stdout (CmdStat F w topic domain_filter True) = show_json (?t v) @ eol"
    using assms(2) by (simp add: CmdStat_def PrintTopicJson_show)
  then have stat: "parse_val (jfuel (?t v)) (out_stdout (CmdStat F w topic domain_filter True)) = Some (?t v, eol)"
    using readsD [OF r le_refl e] by simp
  let ?entry = "\<lambda>v. JObj [(''domain'', JStr (seg_isolation_key (tv_seg v))), (''info'', ?t v)]"
  let ?views = "Collect_views w domain_filter"
  have "reads (list_json_entry F (w_now w) v) (?entry v)" for v
  proof -
    have "wf_json (?entry v)" using wf_topic_json [OF assms(1)] by simp
    moreover have "list_json_entry F (w_now w) v = (eol @ ''  '') @ show_json (?entry v)"
      by (simp add: list_json_entry_def PrintTopicJson_show key_def JsonEscape_plain plain_char_def)
    ultimately show ?thesis using reads_blanks [OF reads_show, of "?entry v" "eol @ ''  ''"] by (simp add: eol_def blank_def)
  qed
  then have "list_all2 reads (map (list_json_entry F (w_now w)) ?views) (map ?entry ?views)" by (simp add: list_all2_conv_all_nth)
  then have "reads (''['' @ commas (map (list_json_entry F (w_now w)) ?views) @ eol @ '']'') (JArr (map ?entry ?views))"
    by (rule reads_arr) (simp add: eol_def blank_def)
  then have "reads (''{'' @ commas (map member [(''topics'', ''['' @ commas (map (list_json_entry F (w_now w)) ?views) @ eol @ '']'')]) @ ''}'')
      (JObj [(''topics'', JArr (map ?entry ?views))])" by (intro reads_obj) simp
  from readsD [OF this le_refl e]
  have "parse_val (jfuel (JObj [(''topics'', JArr (map ?entry ?views))])) (out_stdout (CmdList F w domain_filter True)) =
      Some (JObj [(''topics'', JArr (map ?entry ?views))], eol)"
    by (simp add: CmdList_def member_def JsonEscape_plain plain_char_def)
  then show ?thesis using stat by blast
qed

section \<open>What clean unlinks\<close>

text \<open>A published segment of this build whose declared size is its real one, and one nobody alive owns.\<close>

definition valid_segment :: "('s, 'q) shm_object \<Rightarrow> bool" where
  "valid_segment ob \<longleftrightarrow> kHeaderSize \<le> obj_size ob \<and> h_init_state (header ob) = 1 \<and> versions_ok (header ob) \<and>
     h_total_size (header ob) = of_nat (obj_size ob) \<and> h_max_subscribers (header ob) = of_nat kShmMaxSubscribers"

definition dead_segment :: "(u32 \<Rightarrow> bool) \<Rightarrow> ('s, 'q) shm_object \<Rightarrow> bool" where
  "dead_segment alive ob \<longleftrightarrow> \<not> ProcessAlive alive (h_pub_pid (header ob)) \<and>
     \<not> (\<exists>i < kShmMaxSubscribers. ss_state (h_sub_slots (header ob) ! i) = kShmSubActive \<and> ProcessAlive alive (ss_pid (h_sub_slots (header ob) ! i)))"

lemma Open_ok_iff:
  "fst (IntrospectReader_Open look fstat_ok mmap_ok nm out) = Open_kOk \<longleftrightarrow>
     (\<exists>ob. look nm = Some ob \<and> fstat_ok nm \<and> mmap_ok nm \<and> valid_segment ob)"
  by (auto simp: IntrospectReader_Open_def valid_segment_def versions_ok_def Let_def split: option.splits)

lemma Open_ok_mapped: "IntrospectReader_Open look fstat_ok mmap_ok nm out = (Open_kOk, reader) \<Longrightarrow> ir_mapped reader"
  by (auto simp: IntrospectReader_Open_def Let_def split: option.splits if_splits)

lemma Snapshot_mapped: "ir_mapped reader \<Longrightarrow> \<exists>s. Snapshot alive rd h reader = Some s"
  by (simp add: Snapshot_def)

lemma snap_subs_alive:
  "list_ex (\<lambda>sub. is_state sub = kShmSubActive \<and> is_alive sub) (map (snap_slot alive) (taken_slots h)) \<longleftrightarrow>
     (\<exists>i < kShmMaxSubscribers. ss_state (h_sub_slots h ! i) = kShmSubActive \<and> ProcessAlive alive (ss_pid (h_sub_slots h ! i)))"
  by (auto simp: list_ex_iff taken_slots_def snap_slot_def ProcessAlive_def kShmSubActive_def kShmSubFree_def intro!: bexI)

lemma reclaimable_iff:
  "reclaimable (view_of w seg) \<longleftrightarrow> w_fstat w (seg_name seg) \<and> w_mmap w (seg_name seg) \<and>
     (\<exists>ob. w_look w (seg_name seg) = Some ob \<and> valid_segment ob \<and> dead_segment (w_alive w) ob)"
proof -
  obtain st reader where o: "IntrospectReader_Open (w_look w) (w_fstat w) (w_mmap w) (seg_name seg) IntrospectReader_init = (st, reader)" by fastforce
  note iff = Open_ok_iff [of "w_look w" "w_fstat w" "w_mmap w" "seg_name seg" IntrospectReader_init, unfolded o fst_conv]
  show ?thesis
  proof (cases "st = Open_kOk")
    case False
    then show ?thesis using o iff by (auto simp: view_of_def reclaimable_def)
  next
    case True
    then obtain ob where ob: "w_look w (seg_name seg) = Some ob" "w_fstat w (seg_name seg)" "w_mmap w (seg_name seg)" "valid_segment ob" using iff by blast
    obtain s where s: "Snapshot (w_alive w) (w_rd w (seg_name seg)) (header ob) reader = Some s"
      using Snapshot_mapped [OF Open_ok_mapped] o True by blast
    note f = snap_header_fields [OF s]
    have "tv_snap (view_of w seg) = Some s" "tv_status (view_of w seg) = Open_kOk" using o True ob s by (simp_all add: view_of_def)
    then show ?thesis using ob f by (auto simp: reclaimable_def dead_segment_def snap_subs_alive ProcessAlive_def)
  qed
qed

lemma clean_loop_names:
  "clean_loop unlinks yes json vs = (tx, errs, names, failures) \<Longrightarrow>
     names = (if yes then filter (\<lambda>nm. unlinks nm = None) (map (\<lambda>v. seg_name (tv_seg v)) vs) else []) \<and>
     failures = (if yes then length (filter (\<lambda>v. unlinks (seg_name (tv_seg v)) \<noteq> None) vs) else 0)"
proof (induction vs arbitrary: tx errs names failures)
  case (Cons v vs)
  obtain t e ns f where "clean_loop unlinks yes json vs = (t, e, ns, f)" by (metis prod_cases4)
  with Cons.IH [OF this] Cons.prems show ?case by (auto simp: Let_def split: if_splits option.splits)
qed simp

lemma view_seg [simp]: "tv_seg (view_of w seg) = seg"
  by (simp add: view_of_def split: prod.splits)

lemma reclaimable_views:
  "filter reclaimable (Collect_views w d) = map (view_of w) (filter (\<lambda>seg. (d = [] \<or> seg_isolation_key seg = d) \<and> reclaimable (view_of w seg))
     (DiscoverXmmsgSegments (w_dir w)))"
proof -
  have "reclaimable v \<Longrightarrow> tv_status v \<noteq> Open_kForeign" for v by (auto simp: reclaimable_def split: option.splits)
  then show ?thesis by (auto simp: Collect_views_def filter_map comp_def intro!: filter_cong arg_cong [of _ _ "map (view_of w)"])
qed

text \<open>What \<^verbatim>\<open>clean --yes\<close> unlinks: the discovered segments of the chosen domain that are valid, without a living publisher and without a
  living subscriber in an active slot.\<close>

lemma clean_unlinks:
  assumes "CmdClean unlinks w domain_filter yes json = (res, names)"
  shows "set names = {nm. yes \<and> unlinks nm = None \<and> w_fstat w nm \<and> w_mmap w nm \<and>
       (\<exists>seg. seg \<in> set (DiscoverXmmsgSegments (w_dir w)) \<and> seg_name seg = nm \<and> (domain_filter = [] \<or> seg_isolation_key seg = domain_filter)) \<and>
       (\<exists>ob. w_look w nm = Some ob \<and> valid_segment ob \<and> dead_segment (w_alive w) ob)} \<and>
     (out_code res = 0 \<longleftrightarrow> \<not> (yes \<and> (\<exists>v. v \<in> set (filter reclaimable (Collect_views w domain_filter)) \<and> unlinks (seg_name (tv_seg v)) \<noteq> None)))"
proof -
  let ?vs = "filter reclaimable (Collect_views w domain_filter)"
  obtain tx errs ns fs where l: "clean_loop unlinks yes json ?vs = (tx, errs, ns, fs)" by (metis prod_cases4)
  have r: "names = ns" "out_code res = (if fs = 0 then 0 else 1)" using assms l by (auto simp: CmdClean_def Let_def)
  have c: "fs = 0 \<longleftrightarrow> \<not> (yes \<and> (\<exists>v. v \<in> set ?vs \<and> unlinks (seg_name (tv_seg v)) \<noteq> None))"
    using clean_loop_names [OF l] by (auto simp: filter_empty_conv)
  have code: "out_code res = 0 \<longleftrightarrow> \<not> (yes \<and> (\<exists>v. v \<in> set ?vs \<and> unlinks (seg_name (tv_seg v)) \<noteq> None))" unfolding c [symmetric] using r(2) by simp
  have vs: "set ?vs = view_of w ` {seg \<in> set (DiscoverXmmsgSegments (w_dir w)). (domain_filter = [] \<or> seg_isolation_key seg = domain_filter) \<and>
      reclaimable (view_of w seg)}" unfolding reclaimable_views by simp
  have "set names = {nm. yes \<and> unlinks nm = None \<and> (\<exists>v \<in> set ?vs. seg_name (tv_seg v) = nm)}"
    using clean_loop_names [OF l] r(1) by auto
  also have "\<dots> = {nm. yes \<and> unlinks nm = None \<and> (\<exists>seg \<in> set (DiscoverXmmsgSegments (w_dir w)). seg_name seg = nm \<and>
      (domain_filter = [] \<or> seg_isolation_key seg = domain_filter) \<and> reclaimable (view_of w seg))}"
    unfolding vs bex_simps(7) view_seg by blast
  finally have names: "set names = {nm. yes \<and> unlinks nm = None \<and> (\<exists>seg \<in> set (DiscoverXmmsgSegments (w_dir w)). seg_name seg = nm \<and>
      (domain_filter = [] \<or> seg_isolation_key seg = domain_filter) \<and> reclaimable (view_of w seg))}" .
  define Q where "Q nm \<longleftrightarrow> w_fstat w nm \<and> w_mmap w nm \<and> (\<exists>ob. w_look w nm = Some ob \<and> valid_segment ob \<and> dead_segment (w_alive w) ob)" for nm
  have q: "reclaimable (view_of w seg) \<longleftrightarrow> Q (seg_name seg)" for seg by (simp add: reclaimable_iff Q_def)
  have "set names = {nm. yes \<and> unlinks nm = None \<and> (\<exists>seg. seg \<in> set (DiscoverXmmsgSegments (w_dir w)) \<and> seg_name seg = nm \<and>
      (domain_filter = [] \<or> seg_isolation_key seg = domain_filter)) \<and> Q nm}"
    unfolding names q by blast
  also have "\<dots> = {nm. yes \<and> unlinks nm = None \<and> w_fstat w nm \<and> w_mmap w nm \<and>
       (\<exists>seg. seg \<in> set (DiscoverXmmsgSegments (w_dir w)) \<and> seg_name seg = nm \<and> (domain_filter = [] \<or> seg_isolation_key seg = domain_filter)) \<and>
       (\<exists>ob. w_look w nm = Some ob \<and> valid_segment ob \<and> dead_segment (w_alive w) ob)}"
    unfolding Q_def by (intro Collect_cong) (simp only: conj_ac)
  finally show ?thesis using code by (rule conjI)
qed

text \<open>A segment in which no subscriber is in the middle of claiming its slot, and one no living process takes part in: neither as
  publisher nor as a subscriber in whatever slot that is not free.\<close>

definition settled_segment :: "('s, 'q) shm_object \<Rightarrow> bool" where
  "settled_segment ob \<longleftrightarrow> (\<forall>i < kShmMaxSubscribers. ss_state (h_sub_slots (header ob) ! i) = kShmSubFree \<or>
     ss_state (h_sub_slots (header ob) ! i) = kShmSubActive)"

definition abandoned_segment :: "(u32 \<Rightarrow> bool) \<Rightarrow> ('s, 'q) shm_object \<Rightarrow> bool" where
  "abandoned_segment alive ob \<longleftrightarrow> \<not> ProcessAlive alive (h_pub_pid (header ob)) \<and>
     (\<forall>i < kShmMaxSubscribers. ss_state (h_sub_slots (header ob) ! i) \<noteq> kShmSubFree \<longrightarrow> \<not> ProcessAlive alive (ss_pid (h_sub_slots (header ob) ! i)))"

lemma settled_dead: "settled_segment ob \<Longrightarrow> dead_segment alive ob \<longleftrightarrow> abandoned_segment alive ob"
  by (auto simp: settled_segment_def dead_segment_def abandoned_segment_def kShmSubFree_def kShmSubActive_def)

text \<open>C21. \<^verbatim>\<open>clean\<close> reclaims exactly the abandoned segments: when no subscriber is in the middle of claiming a slot of a segment it looks at,
  it unlinks with \<^verbatim>\<open>--yes\<close> exactly the discovered segments of the chosen domain that are valid and in which no living process
  takes part, as publisher or as subscriber (and for which the system call succeeds); without it, nothing. The exit code
  is 0 exactly when every attempted unlink succeeded.\<close>

theorem clean_exact:
  assumes "CmdClean unlinks w domain_filter yes json = (res, names)" "\<forall>nm ob. w_look w nm = Some ob \<longrightarrow> settled_segment ob"
  shows "set names = {nm. yes \<and> unlinks nm = None \<and> w_fstat w nm \<and> w_mmap w nm \<and>
       (\<exists>seg. seg \<in> set (DiscoverXmmsgSegments (w_dir w)) \<and> seg_name seg = nm \<and> (domain_filter = [] \<or> seg_isolation_key seg = domain_filter)) \<and>
       (\<exists>ob. w_look w nm = Some ob \<and> valid_segment ob \<and> abandoned_segment (w_alive w) ob)} \<and>
     (out_code res = 0 \<longleftrightarrow> \<not> (yes \<and> (\<exists>v. v \<in> set (filter reclaimable (Collect_views w domain_filter)) \<and> unlinks (seg_name (tv_seg v)) \<noteq> None)))"
proof -
  have "(\<exists>ob. w_look w nm = Some ob \<and> valid_segment ob \<and> dead_segment (w_alive w) ob) \<longleftrightarrow>
      (\<exists>ob. w_look w nm = Some ob \<and> valid_segment ob \<and> abandoned_segment (w_alive w) ob)" for nm
    using assms(2) settled_dead by metis
  with clean_unlinks [OF assms(1)] show ?thesis by simp
qed

section \<open>A run\<close>

text \<open>One segment left by a dead publisher (process 101), one of a dead publisher with a living subscriber, and a file that is no segment.\<close>

definition demo_world :: "(nat MailRecord option, nat \<times> nat MailRecord list) world" where
  "demo_world = \<lparr>w_dir = Some [''xmmsg.u0.nav.pose'', ''xmmsg.u0.nav.goal'', ''sem.x''],
     w_look = [''/xmmsg.u0.nav.pose'' \<mapsto> (demo_segment 5)\<lparr>header := (header (demo_segment 5))\<lparr>h_pub_pid := 101\<rparr>\<rparr>,
       ''/xmmsg.u0.nav.goal'' \<mapsto> (demo_segment 6)\<lparr>header := (header (demo_segment 6))\<lparr>h_pub_pid := 101,
         h_sub_slots := (replicate kShmMaxSubscribers ShmSubSlot_zero)[3 := ShmSubSlot_zero\<lparr>ss_state := kShmSubActive, ss_pid := 102\<rparr>]\<rparr>\<rparr>],
     w_fstat = (\<lambda>_. True), w_mmap = (\<lambda>_. True), w_alive = (\<lambda>pid. pid = 102), w_rd = (\<lambda>_ _ _. 0), w_now = 0\<rparr>"

definition demo_format :: age_format where
  "demo_format = \<lparr>fmt_us1 = (\<lambda>_. ''0.0''), fmt_us = (\<lambda>_. ''0''), fmt_ms = (\<lambda>_. ''0.0''), fmt_s = (\<lambda>_. ''0.0'')\<rparr>"

lemma demo_discover: "DiscoverXmmsgSegments (w_dir demo_world) =
  [\<lparr>seg_name = ''/xmmsg.u0.nav.pose'', seg_isolation_key = ''u0.nav'', seg_topic = ''pose'', seg_hashed_name = False\<rparr>,
   \<lparr>seg_name = ''/xmmsg.u0.nav.goal'', seg_isolation_key = ''u0.nav'', seg_topic = ''goal'', seg_hashed_name = False\<rparr>]"
  by (simp add: DiscoverXmmsgSegments_def demo_world_def map_filter_simps ParseSegmentName_def hashed_form_def Let_def)

lemma demo_dead: "valid_segment (the (w_look demo_world ''/xmmsg.u0.nav.pose''))" "valid_segment (the (w_look demo_world ''/xmmsg.u0.nav.goal''))"
  "abandoned_segment (w_alive demo_world) (the (w_look demo_world ''/xmmsg.u0.nav.pose''))"
  "\<not> abandoned_segment (w_alive demo_world) (the (w_look demo_world ''/xmmsg.u0.nav.goal''))"
  by (auto simp: valid_segment_def abandoned_segment_def demo_world_def demo_segment_def MarkReady_def created_header_def ShmSegmentHeader_zero_def
    ShmSubSlot_zero_def versions_ok_def kHeaderSize_def demo_id_def ProcessAlive_def kShmSubFree_def kShmSubActive_def kShmMaxSubscribers_def
    intro!: exI [of _ 3])

lemma demo_settled: "\<forall>nm ob. w_look demo_world nm = Some ob \<longrightarrow> settled_segment ob"
  by (auto simp: settled_segment_def demo_world_def demo_segment_def MarkReady_def created_header_def ShmSegmentHeader_zero_def
    ShmSubSlot_zero_def kShmSubFree_def kShmSubActive_def nth_list_update_if split: if_splits)

theorem clean_exact_witness:
  "set (snd (CmdClean (\<lambda>_. None) demo_world [] True False)) = {''/xmmsg.u0.nav.pose''} \<and>
   out_code (fst (CmdClean (\<lambda>_. None) demo_world [] True False)) = 0"
proof -
  let ?c = "CmdClean (\<lambda>_. None) demo_world [] True False" and ?pose = "''/xmmsg.u0.nav.pose''" and ?goal = "''/xmmsg.u0.nav.goal''"
  let ?Q = "\<lambda>nm. \<exists>ob. w_look demo_world nm = Some ob \<and> valid_segment ob \<and> abandoned_segment (w_alive demo_world) ob"
  have "?c = (fst ?c, snd ?c)" by simp
  note c = clean_exact [OF this demo_settled]
  have look: "w_look demo_world ?pose \<noteq> None" "w_look demo_world ?goal \<noteq> None" by (simp_all add: demo_world_def)
  have q: "?Q ?pose" "\<not> ?Q ?goal" using demo_dead look by auto
  have flags: "w_fstat demo_world nm" "w_mmap demo_world nm" for nm by (simp_all add: demo_world_def)
  have names: "(\<exists>seg. seg \<in> set (DiscoverXmmsgSegments (w_dir demo_world)) \<and> seg_name seg = nm \<and> ([] = [] \<or> seg_isolation_key seg = [])) \<longleftrightarrow>
      nm = ?pose \<or> nm = ?goal" for nm
    unfolding demo_discover by (simp only: list.set insert_iff empty_iff simp_thms conj_disj_distribR ex_disj_distrib simp_thms(39,40) DiscoveredSegment.select_convs eq_commute)
  have "set (snd ?c) = {nm. (nm = ?pose \<or> nm = ?goal) \<and> ?Q nm}" using conjunct1 [OF c] unfolding names by (simp only: flags simp_thms)
  also have "\<dots> = {?pose}" using q by blast
  finally show ?thesis using conjunct2 [OF c] by simp
qed

lemma demo_resolve: "\<exists>v. ResolveTopic demo_world ''pose'' [] = Inr v"
proof -
  have ok: "tv_status (view_of demo_world seg) = Open_kOk" if "w_look demo_world (seg_name seg) = Some ob" "valid_segment ob" for seg ob
  proof -
    have "fst (IntrospectReader_Open (w_look demo_world) (w_fstat demo_world) (w_mmap demo_world) (seg_name seg) IntrospectReader_init) = Open_kOk"
      unfolding Open_ok_iff using that by (auto simp: demo_world_def)
    then show ?thesis by (auto simp: view_of_def split: prod.splits)
  qed
  let ?pose = "\<lparr>seg_name = ''/xmmsg.u0.nav.pose'', seg_isolation_key = ''u0.nav'', seg_topic = ''pose'', seg_hashed_name = False\<rparr>"
  let ?goal = "\<lparr>seg_name = ''/xmmsg.u0.nav.goal'', seg_isolation_key = ''u0.nav'', seg_topic = ''goal'', seg_hashed_name = False\<rparr>"
  have st: "tv_status (view_of demo_world ?pose) = Open_kOk" "tv_status (view_of demo_world ?goal) = Open_kOk"
    by (rule ok [OF _ demo_dead(1)], simp add: demo_world_def) (rule ok [OF _ demo_dead(2)], simp add: demo_world_def)
  have "Collect_views demo_world [] = [view_of demo_world ?pose, view_of demo_world ?goal]"
    unfolding Collect_views_def demo_discover by (simp add: st)
  then show ?thesis by (simp add: ResolveTopic_def)
qed

theorem json_round_trip_witness:
  "\<exists>v. ResolveTopic demo_world ''pose'' [] = Inr v \<and>
     parse_val (jfuel (topic_json demo_format 0 v)) (out_stdout (CmdStat demo_format demo_world ''pose'' [] True)) = Some (topic_json demo_format 0 v, eol)"
proof -
  have f: "\<forall>ns. fmt_us1 demo_format ns \<noteq> [] \<and> list_all number_char (fmt_us1 demo_format ns)" by (simp add: demo_format_def number_char_def)
  from demo_resolve obtain v where v: "ResolveTopic demo_world ''pose'' [] = Inr v" ..
  have "w_now demo_world = 0" by (simp add: demo_world_def)
  then show ?thesis using json_round_trip [OF f v] v by auto
qed

text \<open>A subscriber that is still claiming its slot does not count for \<^verbatim>\<open>clean\<close>: a segment whose only living participant is one is reclaimable.\<close>

lemma clean_ignores_claimed:
  "\<exists>(ob :: (nat MailRecord option, nat \<times> nat MailRecord list) shm_object) i. valid_segment ob \<and> dead_segment (\<lambda>pid. pid = 77) ob \<and> ss_state (h_sub_slots (header ob) ! i) = kShmSubClaimed \<and>
     ProcessAlive (\<lambda>pid. pid = 77) (ss_pid (h_sub_slots (header ob) ! i)) \<and> i < kShmMaxSubscribers"
proof -
  let ?h = "(header (demo_segment 5))\<lparr>h_sub_slots := (replicate kShmMaxSubscribers ShmSubSlot_zero)[0 := ShmSubSlot_zero\<lparr>ss_state := kShmSubClaimed, ss_pid := 77\<rparr>]\<rparr>"
  let ?ob = "(demo_segment 5)\<lparr>header := ?h\<rparr>"
  have "valid_segment ?ob" by (simp add: valid_segment_def demo_segment_def MarkReady_def created_header_def ShmSegmentHeader_zero_def
      versions_ok_def kHeaderSize_def demo_id_def)
  moreover have "dead_segment (\<lambda>pid. pid = 77) ?ob"
    by (auto simp: dead_segment_def demo_segment_def MarkReady_def created_header_def ShmSegmentHeader_zero_def ShmSubSlot_zero_def ProcessAlive_def
      kShmSubActive_def kShmSubClaimed_def nth_list_update_if)
  moreover have "ss_state (h_sub_slots ?h ! 0) = kShmSubClaimed" "ss_pid (h_sub_slots ?h ! 0) = 77" by (simp_all add: kShmMaxSubscribers_def)
  ultimately show ?thesis by (intro exI [of _ ?ob] exI [of _ 0]) (simp add: ProcessAlive_def kShmMaxSubscribers_def)
qed

end
