(* ===== verification/Reach_Dispatch.thy ===== *)
theory Reach_Dispatch
  imports Domain_Front Shm_Transport
begin

text \<open>
  The portable verbs of \<^verbatim>\<open>domain.hpp\<close> and \<^verbatim>\<open>endpoints.hpp\<close> with both branches of their bodies in
  \<^verbatim>\<open>include/xmmsg/detail/in_process.hpp\<close>: each handle points to an in-process or to a shared-memory endpoint, and each verb
  dispatches on it. The wiring verbs choose the endpoint from the domain's reach.
\<close>

section \<open>Handles\<close>

text \<open>What one instantiation of the templates runs with: the payload type \<^verbatim>\<open>T\<close> (its identity, \<^verbatim>\<open>T{}\<close>, its size, whether it is trivially
  copyable), the build option, the process and its operating system, whose answers depend on whether the segment exists.\<close>

record ('a, 's, 'q, 'c) site =
  st_base :: "('a, 's, 'q, 'c) XmBase"
  st_crash :: "('a, 's) SlotCrash"
  st_os :: "bool \<Rightarrow> os"
  st_alive :: "u32 \<Rightarrow> bool"
  st_pid :: u32
  st_id :: identity
  st_type :: string
  st_default :: 'a
  st_blank :: "('s, 'q) shm_object"
  st_trivially_copyable :: bool
  st_has_posix_shm :: bool

text \<open>A shared-memory endpoint keeps the name of the segment it mapped; segments stay mapped while a handle lives.\<close>

datatype ('a, 's, 'q) pub_handle =
  PubIP "('a, 's, 'q) EndpointImpl"
| PubShm AdvertiseStatus string ShmPubImpl "'a LoanPool"

datatype ('a, 's, 'q) sub_handle =
  SubIP "('a, 's, 'q) EndpointImpl"
| SubShm SubscribeStatus string "'a ShmSubImpl"

text \<open>The state both reaches work on: the registry entry table of the domain, and the segments of the host.\<close>

type_synonym ('s, 'q, 'req, 'rsp) carrier = "('s, 'q, 'req, 'rsp) DomainState \<times> ('s, 'q) dev_shm"

section \<open>Wiring\<close>

definition shm_route :: "bool \<Rightarrow> DomainImpl option \<Rightarrow> string option" where
  "shm_route has_shm impl = (case impl of None \<Rightarrow> None
   | Some d \<Rightarrow> if has_shm \<and> reach d = Reach_kPosixShm \<and> shm_key d \<noteq> [] then Some (shm_key d) else None)"

definition Domain_Advertise :: "('a, 's, 'q, 'c) site \<Rightarrow> DomainImpl option \<Rightarrow> string \<Rightarrow> Qos \<Rightarrow> ('s, 'q, 'req, 'rsp) carrier \<Rightarrow>
  (('a, 's, 'q) pub_handle \<times> ('s, 'q, 'req, 'rsp) carrier) option" where
  "Domain_Advertise S impl topic qos = (\<lambda>(ds, fs).
     let unwired = (EndpointImpl_init (PubImpl None) (st_type S))\<lparr>is_publisher := True\<rparr>
     in case shm_route (st_has_posix_shm S) impl of
       Some key \<Rightarrow>
         if st_trivially_copyable S
         then let seg = ShmSegmentName key topic
              in case ShmAdvertiseImpl (st_base S) (st_crash S) (st_os S (fs seg \<noteq> None)) (st_alive S) (st_pid S) (st_id S) (st_blank S)
                   key topic qos fs of (st, pub, fs') \<Rightarrow> Some (PubShm st seg pub LoanPool_init, ds, fs')
         else Some (PubIP unwired, ds, fs)
     | None \<Rightarrow>
         if Option.bind impl impl_state = None then Some (PubIP unwired, ds, fs)
         else case Advertise (st_base S) (id_hash (st_id S)) (st_type S) topic qos ds of
           None \<Rightarrow> None | Some (ep, ds') \<Rightarrow> Some (PubIP ep, ds', fs))"

definition Domain_Subscribe :: "('a, 's, 'q, 'c) site \<Rightarrow> DomainImpl option \<Rightarrow> string \<Rightarrow> Qos \<Rightarrow> ('s, 'q, 'req, 'rsp) carrier \<Rightarrow>
  (('a, 's, 'q) sub_handle \<times> ('s, 'q, 'req, 'rsp) carrier) option" where
  "Domain_Subscribe S impl topic qos = (\<lambda>(ds, fs).
     let unwired = EndpointImpl_init (SubImpl None) (st_type S)
     in case shm_route (st_has_posix_shm S) impl of
       Some key \<Rightarrow>
         if st_trivially_copyable S
         then let seg = ShmSegmentName key topic
              in case ShmSubscribeImpl (st_base S) (st_crash S) (st_os S (fs seg \<noteq> None)) (st_alive S) (st_pid S) (st_id S) (st_blank S)
                   key topic qos fs of (st, sub, fs') \<Rightarrow> Some (SubShm st seg sub, ds, fs')
         else Some (SubIP unwired, ds, fs)
     | None \<Rightarrow>
         if Option.bind impl impl_state = None then Some (SubIP unwired, ds, fs)
         else case Subscribe (st_base S) (id_hash (st_id S)) (st_type S) topic qos ds of
           None \<Rightarrow> None | Some (ep, ds') \<Rightarrow> Some (SubIP ep, ds', fs))"

text \<open>\<^verbatim>\<open>Serve\<close> and \<^verbatim>\<open>Client\<close>: request/response lives in the in-process registry only; \<open>hash\<close> and \<open>ty\<close> are those of the pair of payload types.\<close>

definition Domain_Serve :: "u64 \<Rightarrow> string \<Rightarrow> DomainImpl option \<Rightarrow> string \<Rightarrow> ('s, 'q, 'req, 'rsp) DomainState \<Rightarrow>
  (('a, 's, 'q) EndpointImpl \<times> ('s, 'q, 'req, 'rsp) DomainState) option" where
  "Domain_Serve hash ty impl topic ds = (if Option.bind impl impl_state = None
     then Some ((EndpointImpl_init (ServerImpl False) ty)\<lparr>is_publisher := True\<rparr>, ds) else Serve hash ty topic ds)"

definition Domain_Connect :: "u64 \<Rightarrow> string \<Rightarrow> DomainImpl option \<Rightarrow> string \<Rightarrow> ('s, 'q, 'req, 'rsp) DomainState \<Rightarrow>
  (('a, 's, 'q) EndpointImpl \<times> ('s, 'q, 'req, 'rsp) DomainState) option" where
  "Domain_Connect hash ty impl topic ds = (if Option.bind impl impl_state = None
     then Some (EndpointImpl_init (ClientImpl False) ty, ds) else Domain_Client hash ty topic ds)"

section \<open>Publisher verbs\<close>

text \<open>\<open>None\<close> is the null pointer of a moved-from handle; it publishes nothing and reports \<^verbatim>\<open>kUnsupportedReach\<close>.\<close>

definition Publisher_status :: "('a, 's, 'q) pub_handle option \<Rightarrow> AdvertiseStatus" where
  "Publisher_status h = (case h of None \<Rightarrow> Advertise_kUnsupportedReach
   | Some (PubIP ep) \<Rightarrow> advertise_status ep | Some (PubShm st _ _ _) \<Rightarrow> st)"

text \<open>\<^verbatim>\<open>Publish(const T&)\<close> with no \<open>derived\<close> data, and the publishing half of \<^verbatim>\<open>PublishDerived\<close>.\<close>

definition Handle_Publish :: "('a, 's, 'q, 'c) site \<Rightarrow> 'c \<Rightarrow> nanos \<Rightarrow> 'a \<Rightarrow> DerivedInfo option \<Rightarrow> ('a, 's, 'q) pub_handle option \<Rightarrow>
  ('s, 'q, 'req, 'rsp) carrier \<Rightarrow> (PublishStatus \<times> ('a, 's, 'q) pub_handle option \<times> ('s, 'q, 'req, 'rsp) carrier) option" where
  "Handle_Publish S ctx now val derived h = (\<lambda>(ds, fs). case h of
     None \<Rightarrow> Some (Publish_kOk, h, ds, fs)
   | Some (PubShm st seg pub pool) \<Rightarrow>
       if \<not> sp_attached pub then Some (Publish_kOk, h, ds, fs)
       else (case fs seg of None \<Rightarrow> None
         | Some ob \<Rightarrow> (case Shm_Publish (st_base S) (id_size (st_id S)) ctx now val derived pub ob of
             (r, pub', ob') \<Rightarrow> Some (r, Some (PubShm st seg pub' pool), ds, upd_fs seg ob' fs)))
   | Some (PubIP ep) \<Rightarrow> (case Publisher_Publish (st_base S) (id_size (st_id S)) ctx now val derived ep ds of
       None \<Rightarrow> None | Some (r, ep', ds') \<Rightarrow> Some (r, Some (PubIP ep'), ds', fs)))"

text \<open>The loan pool a handle can mint from, and \<^verbatim>\<open>Loan()\<close>: the cell it lends, if any.\<close>

definition handle_pool :: "('a, 's, 'q) pub_handle \<Rightarrow> 'a LoanPool option" where
  "handle_pool p = (case p of
     PubIP ep \<Rightarrow> (case ep_kind ep of PubImpl (Some core) \<Rightarrow> Some (pub_pool core) | _ \<Rightarrow> None)
   | PubShm st _ _ pool \<Rightarrow> if st = Advertise_kOk then Some pool else None)"

definition set_handle_pool :: "'a LoanPool \<Rightarrow> ('a, 's, 'q) pub_handle \<Rightarrow> ('a, 's, 'q) pub_handle" where
  "set_handle_pool pool p = (case p of
     PubIP ep \<Rightarrow> (case ep_kind ep of
       PubImpl (Some core) \<Rightarrow> PubIP (ep\<lparr>ep_kind := PubImpl (Some (core\<lparr>pub_pool := pool\<rparr>))\<rparr>) | _ \<Rightarrow> p)
   | PubShm st seg pub _ \<Rightarrow> PubShm st seg pub pool)"

definition Handle_Loan :: "('a, 's, 'q) pub_handle option \<Rightarrow> nat option \<times> ('a, 's, 'q) pub_handle option" where
  "Handle_Loan h = (case Option.bind h handle_pool of None \<Rightarrow> (None, h)
   | Some pool \<Rightarrow> (case Acquire pool of (slot, pool') \<Rightarrow> (slot, map_option (set_handle_pool pool') h)))"

text \<open>The caller writes through the loan, \<^verbatim>\<open>*loan = value\<close>.\<close>

definition loan_write :: "nat \<Rightarrow> 'a \<Rightarrow> ('a, 's, 'q) pub_handle option \<Rightarrow> ('a, 's, 'q) pub_handle option" where
  "loan_write i v h = (case Option.bind h handle_pool of None \<Rightarrow> h
   | Some pool \<Rightarrow> map_option (set_handle_pool (pool\<lparr>cells := (cells pool)[i := Some v]\<rparr>)) h)"

text \<open>\<^verbatim>\<open>Publish(Loan&&)\<close> and \<^verbatim>\<open>PublishDerived\<close> of a loan of the same publisher: the cell is copied out and returned to its pool.\<close>

definition Handle_PublishDerived :: "('a, 's, 'q, 'c) site \<Rightarrow> 'c \<Rightarrow> nanos \<Rightarrow> nat option \<Rightarrow> (nanos \<times> u32) list \<Rightarrow> ('a, 's, 'q) pub_handle option \<Rightarrow>
  ('s, 'q, 'req, 'rsp) carrier \<Rightarrow> (PublishStatus \<times> ('a, 's, 'q) pub_handle option \<times> ('s, 'q, 'req, 'rsp) carrier) option" where
  "Handle_PublishDerived S ctx now slot upstream h cr = (case slot of None \<Rightarrow> Some (Publish_kOk, h, cr)
   | Some i \<Rightarrow> (case Option.bind h handle_pool of None \<Rightarrow> None
     | Some pool \<Rightarrow>
         (let val = (case cells pool ! i of None \<Rightarrow> st_default S | Some v \<Rightarrow> v)
          in case Handle_Publish S ctx now val (derive_info upstream) h cr of None \<Rightarrow> None
          | Some (r, h', cr') \<Rightarrow> Some (r, map_option (set_handle_pool (Release i pool)) h', cr'))))"

definition Publisher_MatchedCount :: "('a, 's, 'q, 'c) site \<Rightarrow> ('a, 's, 'q) pub_handle option \<Rightarrow> ('s, 'q, 'req, 'rsp) carrier \<Rightarrow> u64" where
  "Publisher_MatchedCount S h = (\<lambda>(ds, fs). case h of None \<Rightarrow> 0 | Some (PubIP ep) \<Rightarrow> MatchedCount ep ds
   | Some (PubShm _ seg pub _) \<Rightarrow> (case fs seg of None \<Rightarrow> 0 | Some ob \<Rightarrow> of_nat (Pub_MatchedCount (st_alive S) pub ob)))"

definition Handle_PublishCount :: "('a, 's, 'q) pub_handle option \<Rightarrow> u64" where
  "Handle_PublishCount h = (case h of None \<Rightarrow> 0 | Some (PubIP ep) \<Rightarrow> PublishCount ep | Some (PubShm _ _ pub _) \<Rightarrow> sp_publish_count pub)"

definition Handle_RefusedCount :: "('a, 's, 'q) pub_handle option \<Rightarrow> u64" where
  "Handle_RefusedCount h = (case h of None \<Rightarrow> 0 | Some (PubIP ep) \<Rightarrow> RefusedCount ep | Some (PubShm _ _ pub _) \<Rightarrow> sp_refused_count pub)"

definition Publisher_dtor :: "('a, 's, 'q, 'c) site \<Rightarrow> ('a, 's, 'q) pub_handle option \<Rightarrow> ('s, 'q, 'req, 'rsp) carrier \<Rightarrow>
  ('s, 'q, 'req, 'rsp) carrier option" where
  "Publisher_dtor S h = (\<lambda>(ds, fs). case h of None \<Rightarrow> Some (ds, fs)
   | Some (PubIP ep) \<Rightarrow> map_option (\<lambda>ds'. (ds', fs)) (EndpointImpl_dtor ep ds)
   | Some (PubShm _ seg pub _) \<Rightarrow> Some (ds, case fs seg of None \<Rightarrow> fs | Some ob \<Rightarrow> upd_fs seg (ShmPubImpl_dtor (st_pid S) pub ob) fs))"

section \<open>Subscriber verbs\<close>

definition Subscriber_status :: "('a, 's, 'q) sub_handle option \<Rightarrow> SubscribeStatus" where
  "Subscriber_status h = (case h of None \<Rightarrow> Subscribe_kUnsupportedReach
   | Some (SubIP ep) \<Rightarrow> subscribe_status ep | Some (SubShm st _ _) \<Rightarrow> st)"

text \<open>The common shape of the two take verbs: the in-process verb, the shared-memory verb.\<close>

definition handle_take :: "('a, 's, 'q, 'c) site \<Rightarrow>
  (('a, 's, 'q) EndpointImpl \<Rightarrow> ('s, 'q, 'req, 'rsp) DomainState \<Rightarrow> (('a, 'c) Sample \<times> ('a, 's, 'q) EndpointImpl \<times> ('s, 'q, 'req, 'rsp) DomainState) option) \<Rightarrow>
  ('a ShmSubImpl \<Rightarrow> ('s, 'q) shm_object \<Rightarrow> ('a, 'c) Sample \<times> 'a ShmSubImpl \<times> ('s, 'q) shm_object) \<Rightarrow> ('a, 's, 'q) sub_handle option \<Rightarrow>
  ('s, 'q, 'req, 'rsp) carrier \<Rightarrow> (('a, 'c) Sample \<times> ('a, 's, 'q) sub_handle option \<times> ('s, 'q, 'req, 'rsp) carrier) option" where
  "handle_take S ip shm h = (\<lambda>(ds, fs). case h of
     None \<Rightarrow> Some (Sample_init (ctx_null (st_base S)), h, ds, fs)
   | Some (SubShm st seg sub) \<Rightarrow>
       if su_slot sub = None then Some (Sample_init (ctx_null (st_base S)), h, ds, fs)
       else (case fs seg of None \<Rightarrow> None
         | Some ob \<Rightarrow> (case shm sub ob of (smp, sub', ob') \<Rightarrow> Some (smp, Some (SubShm st seg sub'), ds, upd_fs seg ob' fs)))
   | Some (SubIP ep) \<Rightarrow> (case ip ep ds of None \<Rightarrow> None | Some (smp, ep', ds') \<Rightarrow> Some (smp, Some (SubIP ep'), ds', fs)))"

definition Handle_TakeLatest :: "('a, 's, 'q, 'c) site \<Rightarrow> nanos \<Rightarrow> ('a, 's, 'q) sub_handle option \<Rightarrow>
  ('s, 'q, 'req, 'rsp) carrier \<Rightarrow> (('a, 'c) Sample \<times> ('a, 's, 'q) sub_handle option \<times> ('s, 'q, 'req, 'rsp) carrier) option" where
  "Handle_TakeLatest S now = handle_take S (Subscriber_TakeLatest (st_base S) now) (TakeLatestSample (st_base S) (st_crash S) now)"

definition Handle_TryTake :: "('a, 's, 'q, 'c) site \<Rightarrow> nanos \<Rightarrow> ('a, 's, 'q) sub_handle option \<Rightarrow>
  ('s, 'q, 'req, 'rsp) carrier \<Rightarrow> (('a, 'c) Sample \<times> ('a, 's, 'q) sub_handle option \<times> ('s, 'q, 'req, 'rsp) carrier) option" where
  "Handle_TryTake S now = handle_take S (Subscriber_TryTake (st_base S) now) (TryTakeSample (st_base S) now)"

text \<open>\<^verbatim>\<open>introspect::DropCount\<close>, \<^verbatim>\<open>OverwriteCount\<close> and \<^verbatim>\<open>TakeCount\<close>: the core's counter, or the shared slot's.\<close>

definition handle_counter :: "(('a, 's, 'q) EndpointImpl \<Rightarrow> ('s, 'q, 'req, 'rsp) DomainState \<Rightarrow> u64) \<Rightarrow> (ShmSubSlot \<Rightarrow> u64) \<Rightarrow>
  ('a, 's, 'q) sub_handle option \<Rightarrow> ('s, 'q, 'req, 'rsp) carrier \<Rightarrow> u64" where
  "handle_counter ip field h = (\<lambda>(ds, fs). case h of None \<Rightarrow> 0 | Some (SubIP ep) \<Rightarrow> ip ep ds
   | Some (SubShm _ seg sub) \<Rightarrow> (case fs seg of None \<Rightarrow> 0 | Some ob \<Rightarrow> ReadCounter field sub ob))"

definition Handle_DropCount :: "('a, 's, 'q) sub_handle option \<Rightarrow> ('s, 'q, 'req, 'rsp) carrier \<Rightarrow> u64" where
  "Handle_DropCount = handle_counter DropCount ss_drop_count"

definition Handle_OverwriteCount :: "('a, 's, 'q) sub_handle option \<Rightarrow> ('s, 'q, 'req, 'rsp) carrier \<Rightarrow> u64" where
  "Handle_OverwriteCount = handle_counter OverwriteCount ss_overwrite_count"

definition Handle_TakeCount :: "('a, 's, 'q) sub_handle option \<Rightarrow> ('s, 'q, 'req, 'rsp) carrier \<Rightarrow> u64" where
  "Handle_TakeCount = handle_counter TakeCount ss_take_count"

definition Subscriber_MatchedCount :: "('a, 's, 'q, 'c) site \<Rightarrow> ('a, 's, 'q) sub_handle option \<Rightarrow> ('s, 'q, 'req, 'rsp) carrier \<Rightarrow> u64" where
  "Subscriber_MatchedCount S h = (\<lambda>(ds, fs). case h of None \<Rightarrow> 0 | Some (SubIP ep) \<Rightarrow> MatchedCount ep ds
   | Some (SubShm _ seg sub) \<Rightarrow> (case fs seg of None \<Rightarrow> 0 | Some ob \<Rightarrow> of_nat (Sub_MatchedCount (st_alive S) sub ob)))"

definition Subscriber_dtor :: "('a, 's, 'q) sub_handle option \<Rightarrow> ('s, 'q, 'req, 'rsp) carrier \<Rightarrow> ('s, 'q, 'req, 'rsp) carrier option" where
  "Subscriber_dtor h = (\<lambda>(ds, fs). case h of None \<Rightarrow> Some (ds, fs)
   | Some (SubIP ep) \<Rightarrow> map_option (\<lambda>ds'. (ds', fs)) (EndpointImpl_dtor ep ds)
   | Some (SubShm _ seg sub) \<Rightarrow> Some (ds, case fs seg of None \<Rightarrow> fs | Some ob \<Rightarrow> upd_fs seg (ShmSubImpl_dtor sub ob) fs))"

section \<open>A program over one topic\<close>

text \<open>The handles a program wired on a topic, in order, and the verbs it calls on them; a handle number the program never wired is a
  moved-from handle.\<close>

record ('a, 's, 'q, 'req, 'rsp) app =
  ap_carrier :: "('s, 'q, 'req, 'rsp) carrier"
  ap_pubs :: "('a, 's, 'q) pub_handle option list"
  ap_subs :: "('a, 's, 'q) sub_handle option list"

datatype ('a, 'c) api_call =
  A_Advertise Qos
| A_Subscribe Qos
| A_Publish nat 'c nanos 'a
| A_PublishLoan nat 'c nanos 'a "(nanos \<times> u32) list"
| A_TakeLatest nat nanos
| A_TryTake nat nanos
| A_PubStats nat
| A_SubStats nat
| A_DropPub nat
| A_DropSub nat

datatype ('a, 'c) api_result =
  R_Advertise AdvertiseStatus
| R_Subscribe SubscribeStatus
| R_Publish PublishStatus
| R_LoanExhausted
| R_Sample "('a, 'c) Sample"
| R_PubStats u64 u64 u64
| R_SubStats u64 u64 u64 u64
| R_Dropped

definition handle_at :: "'h option list \<Rightarrow> nat \<Rightarrow> 'h option" where
  "handle_at hs k = (if k < length hs then hs ! k else None)"

definition put_pub :: "nat \<Rightarrow> ('a, 's, 'q) pub_handle option \<Rightarrow> ('s, 'q, 'req, 'rsp) carrier \<Rightarrow>
  ('a, 's, 'q, 'req, 'rsp) app \<Rightarrow> ('a, 's, 'q, 'req, 'rsp) app" where
  "put_pub k h cr w = w\<lparr>ap_carrier := cr, ap_pubs := (ap_pubs w)[k := h]\<rparr>"

definition put_sub :: "nat \<Rightarrow> ('a, 's, 'q) sub_handle option \<Rightarrow> ('s, 'q, 'req, 'rsp) carrier \<Rightarrow>
  ('a, 's, 'q, 'req, 'rsp) app \<Rightarrow> ('a, 's, 'q, 'req, 'rsp) app" where
  "put_sub k h cr w = w\<lparr>ap_carrier := cr, ap_subs := (ap_subs w)[k := h]\<rparr>"

fun api_step :: "('a, 's, 'q, 'c) site \<Rightarrow> DomainImpl option \<Rightarrow> string \<Rightarrow> ('a, 'c) api_call \<Rightarrow> ('a, 's, 'q, 'req, 'rsp) app \<Rightarrow>
  (('a, 'c) api_result \<times> ('a, 's, 'q, 'req, 'rsp) app) option" where
  "api_step S impl topic (A_Advertise qos) w = (case Domain_Advertise S impl topic qos (ap_carrier w) of None \<Rightarrow> None
   | Some (h, cr) \<Rightarrow> Some (R_Advertise (Publisher_status (Some h)), w\<lparr>ap_carrier := cr, ap_pubs := ap_pubs w @ [Some h]\<rparr>))"
| "api_step S impl topic (A_Subscribe qos) w = (case Domain_Subscribe S impl topic qos (ap_carrier w) of None \<Rightarrow> None
   | Some (h, cr) \<Rightarrow> Some (R_Subscribe (Subscriber_status (Some h)), w\<lparr>ap_carrier := cr, ap_subs := ap_subs w @ [Some h]\<rparr>))"
| "api_step S impl topic (A_Publish k ctx now val) w =
     (case Handle_Publish S ctx now val None (handle_at (ap_pubs w) k) (ap_carrier w) of None \<Rightarrow> None
      | Some (r, h, cr) \<Rightarrow> Some (R_Publish r, put_pub k h cr w))"
| "api_step S impl topic (A_PublishLoan k ctx now val upstream) w =
     (case Handle_Loan (handle_at (ap_pubs w) k) of
        (None, h) \<Rightarrow> Some (R_LoanExhausted, put_pub k h (ap_carrier w) w)
      | (Some i, h) \<Rightarrow> (case Handle_PublishDerived S ctx now (Some i) upstream (loan_write i val h) (ap_carrier w) of None \<Rightarrow> None
          | Some (r, h', cr) \<Rightarrow> Some (R_Publish r, put_pub k h' cr w)))"
| "api_step S impl topic (A_TakeLatest k now) w = (case Handle_TakeLatest S now (handle_at (ap_subs w) k) (ap_carrier w) of None \<Rightarrow> None
      | Some (smp, h, cr) \<Rightarrow> Some (R_Sample smp, put_sub k h cr w))"
| "api_step S impl topic (A_TryTake k now) w = (case Handle_TryTake S now (handle_at (ap_subs w) k) (ap_carrier w) of None \<Rightarrow> None
      | Some (smp, h, cr) \<Rightarrow> Some (R_Sample smp, put_sub k h cr w))"
| "api_step S impl topic (A_PubStats k) w = (let h = handle_at (ap_pubs w) k in
     Some (R_PubStats (Handle_PublishCount h) (Handle_RefusedCount h) (Publisher_MatchedCount S h (ap_carrier w)), w))"
| "api_step S impl topic (A_SubStats k) w = (let h = handle_at (ap_subs w) k; cr = ap_carrier w in
     Some (R_SubStats (Handle_TakeCount h cr) (Handle_DropCount h cr) (Handle_OverwriteCount h cr) (Subscriber_MatchedCount S h cr), w))"
| "api_step S impl topic (A_DropPub k) w = (case Publisher_dtor S (handle_at (ap_pubs w) k) (ap_carrier w) of None \<Rightarrow> None
      | Some cr \<Rightarrow> Some (R_Dropped, put_pub k None cr w))"
| "api_step S impl topic (A_DropSub k) w = (case Subscriber_dtor (handle_at (ap_subs w) k) (ap_carrier w) of None \<Rightarrow> None
      | Some cr \<Rightarrow> Some (R_Dropped, put_sub k None cr w))"

end
