(* ===== verification/Reach_Relation.thy ===== *)
theory Reach_Relation
  imports Reach_Dispatch Shm_Properties
begin

text \<open>
  The relation between the registry entry of a topic and its shared segment, between the handles wired on each, and that publishing, taking,
  wiring and leaving on both sides keep it.
\<close>

section \<open>What the two reaches have in common\<close>

text \<open>What the shared-memory reach needs of the host: segments can be created, an existing one has its creator's size, no writer dies in a
  store, and a repair leaves a mailbox that does not stall as it is.\<close>

definition site_ok :: "('a, 's, 'q, 'c) site \<Rightarrow> bool" where
  "site_ok S \<longleftrightarrow> (\<exists>items capacity. xmbase (st_base S) items capacity) \<and> never_stalls (st_base S) (st_crash S) \<and>
     (\<forall>m. load_bounded (st_crash S) m \<noteq> LR_kStalled \<longrightarrow> repair (st_crash S) m = m) \<and> st_has_posix_shm S \<and> st_trivially_copyable S \<and> ProcessAlive (st_alive S) (st_pid S) \<and> st_pid S \<noteq> 0 \<and>
     os_create (st_os S False) 0 = Created \<and> os_ftruncate (st_os S False) \<and> os_mmap (st_os S False) \<and>
     os_create (st_os S True) 0 = Exists \<and> os_open (st_os S True) 0 = Opened \<and> os_fstat (st_os S True) 0 0 = Some (id_total (st_id S)) \<and>
     kHeaderSize \<le> id_total (st_id S) \<and> os_init_state (st_os S True) 0 0 = 1 \<and> os_mmap_header (st_os S True) \<and> os_mmap (st_os S True) \<and>
     length (s_latest (st_blank S)) = kShmMaxSubscribers \<and> length (s_rings (st_blank S)) = kShmMaxSubscribers"

text \<open>A topic and a segment that carry the same values.\<close>

definition twin :: "('a, 's, 'q, 'c) site \<Rightarrow> ('s, 'q) Topic \<Rightarrow> ('s, 'q) shm_object \<Rightarrow> bool" where
  "twin S t ob \<longleftrightarrow> wf_topic t \<and> wf_segment ob \<and> schema_hash t = id_hash (st_id S) \<and> type_id t = st_type S \<and>
     declared_ownership t = kExclusive \<and> master t = s_master ob \<and> accepted_ordinal t = h_accepted_ordinal (header ob) \<and>
     versions_ok (header ob) \<and> type_ok (st_id S) (header ob) \<and> layout_ok (st_id S) (header ob) \<and>
     (\<forall>i < kShmMaxSubscribers. ss_state (slot_at ob i) = kShmSubFree \<or> ss_state (slot_at ob i) = kShmSubActive \<and> ss_pid (slot_at ob i) = st_pid S)"

text \<open>A subscriber handle on each side: \<open>p\<close> is the core in the topic, \<open>i\<close> the slot in the segment.\<close>

definition sub_pair :: "('a, 's, 'q, 'c) site \<Rightarrow> string \<Rightarrow> string \<Rightarrow> ('s, 'q) Topic \<Rightarrow> ('s, 'q) shm_object \<Rightarrow> (nat \<times> nat) option \<Rightarrow>
  ('a, 's, 'q) sub_handle option \<Rightarrow> ('a, 's, 'q) sub_handle option \<Rightarrow> bool" where
  "sub_pair S topic seg t ob link h1 h2 = (case link of None \<Rightarrow> h1 = None \<and> h2 = None
   | Some (p, i) \<Rightarrow> \<exists>ep sub. h1 = Some (SubIP ep) \<and> h2 = Some (SubShm Subscribe_kOk seg sub) \<and>
       ep_kind ep = SubImpl (Some (Retained p)) \<and> ep_type ep = st_type S \<and> ep_topic ep = Some topic \<and> \<not> is_publisher ep \<and>
       subscribe_status ep = Subscribe_kOk \<and>
       consistent (st_base S) sub i ob \<and> shm_core sub i ob = strip (sub_retained t ! p))"

definition pub_pair :: "('a, 's, 'q, 'c) site \<Rightarrow> string \<Rightarrow> string \<Rightarrow> ('a, 's, 'q) pub_handle option \<Rightarrow> ('a, 's, 'q) pub_handle option \<Rightarrow> bool" where
  "pub_pair S topic seg h1 h2 \<longleftrightarrow> h1 = None \<and> h2 = None \<or>
     (\<exists>ep pub pool. h1 = Some (PubIP ep) \<and> h2 = Some (PubShm (advertise_status ep) seg pub pool) \<and> is_publisher ep \<and> ep_type ep = st_type S \<and>
       (ep_kind ep = PubImpl None \<and> ep_topic ep = None \<and> advertise_status ep \<noteq> Advertise_kOk \<and> \<not> sp_attached pub \<and>
          sp_publish_count pub = 0 \<and> sp_refused_count pub = 0 \<or>
        (\<exists>core. ep_kind ep = PubImpl (Some core) \<and> ep_topic ep = Some topic \<and> advertise_status ep = Advertise_kOk \<and> sp_attached pub \<and>
          sp_owns_publisher_slot pub \<and> pub_reliability core = kBestEffort \<and> publish_count core = sp_publish_count pub \<and>
          refused_count core = sp_refused_count pub \<and> pub_pool core = pool)))"

definition wired_pub :: "('a, 's, 'q) pub_handle \<Rightarrow> bool" where
  "wired_pub p = (case p of PubIP ep \<Rightarrow> ep_topic ep \<noteq> None | _ \<Rightarrow> False)"

text \<open>Live links join each connected core to one active slot; the publisher slot is held when an in-process publisher is wired.\<close>

definition live_links :: "(nat \<times> nat) option list \<Rightarrow> (nat \<times> nat) list" where
  "live_links links = List.map_filter id links"

definition linked :: "('a, 's, 'q, 'c) site \<Rightarrow> string \<Rightarrow> string \<Rightarrow> ('s, 'q) Topic \<Rightarrow> ('s, 'q) shm_object \<Rightarrow> (nat \<times> nat) option list \<Rightarrow>
  ('a, 's, 'q) sub_handle option list \<Rightarrow> ('a, 's, 'q) sub_handle option list \<Rightarrow> bool" where
  "linked S topic seg t ob links hs1 hs2 \<longleftrightarrow> length hs1 = length links \<and> length hs2 = length links \<and>
     (\<forall>k < length links. sub_pair S topic seg t ob (links ! k) (hs1 ! k) (hs2 ! k)) \<and>
     distinct (map fst (live_links links)) \<and> distinct (map snd (live_links links)) \<and> fst ` set (live_links links) = {p. connected t p} \<and>
     snd ` set (live_links links) = {i. i < kShmMaxSubscribers \<and> ss_state (slot_at ob i) = kShmSubActive}"

definition owned :: "('a, 's, 'q, 'c) site \<Rightarrow> string \<Rightarrow> string \<Rightarrow> ('s, 'q) Topic \<Rightarrow> ('s, 'q) shm_object \<Rightarrow>
  ('a, 's, 'q) pub_handle option list \<Rightarrow> ('a, 's, 'q) pub_handle option list \<Rightarrow> bool" where
  "owned S topic seg t ob hs1 hs2 \<longleftrightarrow> list_all2 (pub_pair S topic seg) hs1 hs2 \<and> cnt wired_pub hs1 \<le> 1 \<and>
     publisher_count t = of_nat (cnt wired_pub hs1) \<and> h_pub_pid (header ob) = (if cnt wired_pub hs1 = 0 then 0 else st_pid S)"

definition reach_rel :: "('a, 's, 'q, 'c) site \<Rightarrow> string \<Rightarrow> string \<Rightarrow> ('a, 's, 'q, 'req, 'rsp) app \<Rightarrow> ('a, 's, 'q, 'req, 'rsp) app \<Rightarrow> bool" where
  "reach_rel S topic seg w1 w2 \<longleftrightarrow> site_ok S \<and>
     (case (topic_at (fst (ap_carrier w1)) topic, snd (ap_carrier w2) seg) of
        (None, None) \<Rightarrow> ap_pubs w1 = [] \<and> ap_subs w1 = [] \<and> ap_pubs w2 = [] \<and> ap_subs w2 = []
      | (Some (TopicE t), Some ob) \<Rightarrow> twin S t ob \<and> owned S topic seg t ob (ap_pubs w1) (ap_pubs w2) \<and>
          (\<exists>links. linked S topic seg t ob links (ap_subs w1) (ap_subs w2))
      | _ \<Rightarrow> False)"

text \<open>What a program may call: declarations the shared-memory reach supports, and at most as many subscribers as it has slots.\<close>

fun portable_call :: "('a, 'c) api_call \<Rightarrow> ('a, 's, 'q, 'req, 'rsp) app \<Rightarrow> bool" where
  "portable_call (A_Advertise qos) w \<longleftrightarrow> ownership qos = kExclusive \<and> reliability qos = kBestEffort"
| "portable_call (A_Subscribe qos) w \<longleftrightarrow> cnt (\<lambda>_. True) (ap_subs w) < kShmMaxSubscribers \<and>
     (hist_kind (history qos) = kQueue \<longrightarrow> 0 < hist_depth (history qos) \<and> hist_depth (history qos) \<le> kShmRingCapacity)"
| "portable_call _ w \<longleftrightarrow> True"

section \<open>Links\<close>

lemma live_links_simps [simp]:
  "live_links [] = []" "live_links (links @ [Some x]) = live_links links @ [x]" "x \<in> set (live_links links) \<longleftrightarrow> Some x \<in> set links"
  by (auto simp: live_links_def List.map_filter_def image_iff)

lemma live_split:
  assumes "k < length links" "links ! k = Some x"
  shows "live_links links = live_links (take k links) @ x # live_links (drop (Suc k) links)"
    "live_links (links[k := None]) = live_links (take k links) @ live_links (drop (Suc k) links)"
proof -
  have "links = take k links @ links ! k # drop (Suc k) links" using assms(1) by (simp add: id_take_nth_drop)
  then have "live_links links = live_links (take k links @ links ! k # drop (Suc k) links)" by simp
  then show "live_links links = live_links (take k links) @ x # live_links (drop (Suc k) links)"
    using assms(2) by (simp add: live_links_def List.map_filter_def)
  show "live_links (links[k := None]) = live_links (take k links) @ live_links (drop (Suc k) links)"
    using assms(1) by (simp add: live_links_def List.map_filter_def upd_conv_take_nth_drop)
qed

lemma live_length: "length (live_links links) = cnt (\<lambda>_. True) links"
  by (induction links) (auto simp: live_links_def List.map_filter_def cnt_def split: option.splits)

text \<open>A pair depends only on the core and on the slot it links.\<close>

lemma consistent_frame:
  assumes "wf_segment ob'" "region ob' i = region ob i"
  shows "consistent X sub i ob \<Longrightarrow> consistent X sub i ob'" "shm_core sub i ob' = shm_core sub i ob"
  using assms by (simp_all add: consistent_def holds_slot_def region_def shm_core_def)

lemma sub_pair_frame:
  assumes "sub_pair S topic seg t ob (Some (p, i)) h1 h2" "wf_segment ob'" "region ob' i = region ob i" "sub_retained t' ! p = sub_retained t ! p"
  shows "sub_pair S topic seg t' ob' (Some (p, i)) h1 h2"
  using assms(1,4) by (auto simp: sub_pair_def consistent_frame(2) [OF assms(2,3)] intro: consistent_frame(1) [OF assms(2,3)])

lemma linkedD:
  assumes "linked S topic seg t ob links hs1 hs2"
  shows "length hs1 = length links" "length hs2 = length links" "k < length links \<Longrightarrow> sub_pair S topic seg t ob (links ! k) (hs1 ! k) (hs2 ! k)"
    "distinct (map fst (live_links links))" "distinct (map snd (live_links links))" "Some (p, i) \<in> set links \<Longrightarrow> connected t p"
    "Some (p, i) \<in> set links \<Longrightarrow> i < kShmMaxSubscribers \<and> ss_state (slot_at ob i) = kShmSubActive"
proof -
  show "length hs1 = length links" "length hs2 = length links" "k < length links \<Longrightarrow> sub_pair S topic seg t ob (links ! k) (hs1 ! k) (hs2 ! k)"
    "distinct (map fst (live_links links))" "distinct (map snd (live_links links))" using assms by (simp_all add: linked_def)
  assume "Some (p, i) \<in> set links"
  then have m: "(p, i) \<in> set (live_links links)" by simp
  have s: "fst ` set (live_links links) = {p. connected t p}" "snd ` set (live_links links) = {i. i < kShmMaxSubscribers \<and> ss_state (slot_at ob i) = kShmSubActive}"
    using assms by (simp_all only: linked_def)
  show "connected t p" using imageI [OF m, of fst] s(1) by simp
  show "i < kShmMaxSubscribers \<and> ss_state (slot_at ob i) = kShmSubActive" using imageI [OF m, of snd] s(2) by simp
qed

lemma handle_pair:
  assumes "linked S topic seg t ob links hs1 hs2"
  obtains (absent) "handle_at hs1 k = None" "handle_at hs2 k = None"
  | (wired) p i where "k < length links" "links ! k = Some (p, i)" "sub_pair S topic seg t ob (Some (p, i)) (handle_at hs1 k) (handle_at hs2 k)"
      "connected t p" "i < kShmMaxSubscribers" "ss_state (slot_at ob i) = kShmSubActive"
proof (cases "k < length links")
  case True
  note d = linkedD [OF assms]
  show thesis
  proof (cases "links ! k")
    case None
    then show thesis using d(3) [OF True] absent True d(1,2) by (simp add: sub_pair_def handle_at_def)
  next
    case (Some x)
    obtain p i where x: "x = (p, i)" by fastforce
    have m: "Some (p, i) \<in> set links" using True Some x nth_mem by metis
    show thesis by (rule wired [OF True]) (use Some x d(3) [OF True] d(1,2) True d(6,7) [OF m] in \<open>auto simp: handle_at_def\<close>)
  qed
qed (use absent linkedD(1,2) [OF assms] in \<open>simp add: handle_at_def\<close>)

text \<open>Links to different handles share neither core nor slot, and a pair whose core and slot are untouched stays a pair.\<close>

lemma other_link:
  assumes "linked S topic seg t ob links hs1 hs2" "k < length links" "links ! k = Some (p, i)" "m < length links" "m \<noteq> k" "links ! m = Some (q, j)"
  shows "q \<noteq> p" "j \<noteq> i"
proof -
  have "Some (q, j) \<in> set (links[k := None])" using assms(4-6) by (metis length_list_update nth_list_update_neq nth_mem)
  then have l: "(q, j) \<in> set (live_links (take k links)) \<union> set (live_links (drop (Suc k) links))"
    using live_split(2) [OF assms(2,3)] by (metis live_links_simps(3) set_append)
  show "q \<noteq> p" using linkedD(4) [OF assms(1)] l unfolding live_split(1) [OF assms(2,3)] by (force simp del: live_links_simps)
  show "j \<noteq> i" using linkedD(5) [OF assms(1)] l unfolding live_split(1) [OF assms(2,3)] by (force simp del: live_links_simps)
qed

lemma pair_kept:
  assumes "linked S topic seg t ob links hs1 hs2" "k < length links" "wf_segment ob'"
    and "\<And>p i. links ! k = Some (p, i) \<Longrightarrow> region ob' i = region ob i \<and> sub_retained t' ! p = sub_retained t ! p"
  shows "sub_pair S topic seg t' ob' (links ! k) (hs1 ! k) (hs2 ! k)"
proof (cases "links ! k")
  case None
  then show ?thesis using linkedD(3) [OF assms(1,2)] by (simp add: sub_pair_def)
next
  case (Some x)
  obtain p i where x: "x = (p, i)" by fastforce
  have "sub_pair S topic seg t ob (Some (p, i)) (hs1 ! k) (hs2 ! k)" using linkedD(3) [OF assms(1,2)] by (simp add: Some x)
  from sub_pair_frame [OF this assms(3)] assms(4) [of p i] show ?thesis by (simp add: Some x)
qed

text \<open>The number of live handles is the number of active slots and of connected cores.\<close>

lemma linked_counts:
  assumes "linked S topic seg t ob links hs1 hs2" "wf_topic t"
  shows "cnt (\<lambda>_. True) hs1 = length (live_links links)" "length (attached (sub_slots t)) = length (live_links links)"
    "card {i. i < kShmMaxSubscribers \<and> ss_state (slot_at ob i) = kShmSubActive} = length (live_links links)"
proof -
  note d = linkedD [OF assms(1)]
  have s: "fst ` set (live_links links) = {p. connected t p}" "snd ` set (live_links links) = {i. i < kShmMaxSubscribers \<and> ss_state (slot_at ob i) = kShmSubActive}"
    using assms(1) by (simp_all only: linked_def)
  have "hs1 ! k = None \<longleftrightarrow> links ! k = None" if "k < length links" for k
    using d(3) [OF that] by (auto simp: sub_pair_def split: option.splits)
  then have m: "map (\<lambda>h. h = None) hs1 = map (\<lambda>l. l = None) links" using d(1) by (intro nth_equalityI) simp_all
  have "cnt (\<lambda>_. True) xs = length (filter Not (map (\<lambda>h. h = None) xs))" for xs :: "'x option list"
    by (induction xs) (auto simp: cnt_def split: option.splits)
  then show "cnt (\<lambda>_. True) hs1 = length (live_links links)" using m live_length by metis
  have "set (attached (sub_slots t)) = fst ` set (live_links links)" using s(1) by (auto simp: connected_def)
  then show "length (attached (sub_slots t)) = length (live_links links)"
    using distinct_card [of "attached (sub_slots t)"] distinct_card [OF d(4)] assms(2) by (simp add: wf_topic_def)
  show "card {i. i < kShmMaxSubscribers \<and> ss_state (slot_at ob i) = kShmSubActive} = length (live_links links)"
    using distinct_card [OF d(5)] s(2) by simp
qed

section \<open>Publishing\<close>

text \<open>The fan-out loop writes only subscriber slots, mailboxes and rings.\<close>

lemma fold_deliver_only:
  "header (fold (shm_deliver X r) xs ob) = (header ob)\<lparr>h_sub_slots := h_sub_slots (header (fold (shm_deliver X r) xs ob))\<rparr> \<and>
   s_master (fold (shm_deliver X r) xs ob) = s_master ob"
proof (induction xs arbitrary: ob)
  case (Cons i xs)
  have h: "header (shm_deliver X r i ob) = (header ob)\<lparr>h_sub_slots := h_sub_slots (header (shm_deliver X r i ob))\<rparr>"
    "s_master (shm_deliver X r i ob) = s_master ob"
    by (auto simp: shm_deliver_def set_slot_def set_latest_def set_ring_def Let_def split: option.splits)
  have "header (fold (shm_deliver X r) (i # xs) ob) =
      (header (shm_deliver X r i ob))\<lparr>h_sub_slots := h_sub_slots (header (fold (shm_deliver X r) (i # xs) ob))\<rparr>"
    using Cons.IH [of "shm_deliver X r i ob"] by simp
  also have "\<dots> = (header ob)\<lparr>h_sub_slots := h_sub_slots (header (fold (shm_deliver X r) (i # xs) ob))\<rparr>" by (subst h(1)) simp
  finally show ?case using h(2) Cons.IH [of "shm_deliver X r i ob"] by simp
qed simp

lemma Publish_header:
  assumes "Shm_Publish X sz ctx now val derived pub ob = (st, pub', ob')"
  shows "st = Publish_kOk" "pub' = pub\<lparr>sp_publish_count := sp_publish_count pub + 1, sp_bytes := sp_bytes pub + sz,
      sp_telemetry := sp_telemetry pub @ [(T_publish, Add 1), (T_bytes, Add (unat sz))]\<rparr>"
    "s_master ob' = slot_store X (s_master ob) (shm_record X ctx now val derived ob)"
    "h_pub_pid (header ob') = h_pub_pid (header ob)" "versions_ok (header ob') = versions_ok (header ob)"
    "type_ok d (header ob') = type_ok d (header ob)" "layout_ok d (header ob') = layout_ok d (header ob)"
    "h_accepted_ordinal (header ob') = h_accepted_ordinal (header ob) + 1"
proof -
  let ?ob1 = "upd_header (\<lambda>h. h\<lparr>h_accepted_ordinal := h_accepted_ordinal h + 1\<rparr>) ob"
  let ?ob2 = "?ob1\<lparr>s_master := slot_store X (s_master ?ob1) (shm_record X ctx now val derived ob)\<rparr>"
  let ?f = "fold (shm_deliver X (shm_record X ctx now val derived ob)) [0..<kShmMaxSubscribers] ?ob2"
  have ob': "ob' = upd_header (\<lambda>h. h\<lparr>h_pub_publish_count := h_pub_publish_count h + 1, h_pub_bytes := h_pub_bytes h + sz\<rparr>) ?f"
    using assms by (simp add: Shm_Publish_def Let_def)
  note f = fold_deliver_only [of X "shm_record X ctx now val derived ob" "[0..<kShmMaxSubscribers]" ?ob2]
  obtain slots where "header ?f = (header ob)\<lparr>h_accepted_ordinal := h_accepted_ordinal (header ob) + 1, h_sub_slots := slots\<rparr>"
    using conjunct1 [OF f, unfolded upd_header_def] that by (simp add: upd_header_def)
  then have h: "header ob' = (header ob)\<lparr>h_accepted_ordinal := h_accepted_ordinal (header ob) + 1, h_sub_slots := slots,
      h_pub_publish_count := h_pub_publish_count (header ob) + 1, h_pub_bytes := h_pub_bytes (header ob) + sz\<rparr>"
    by (simp add: ob' upd_header_def)
  show "st = Publish_kOk" "pub' = pub\<lparr>sp_publish_count := sp_publish_count pub + 1, sp_bytes := sp_bytes pub + sz,
      sp_telemetry := sp_telemetry pub @ [(T_publish, Add 1), (T_bytes, Add (unat sz))]\<rparr>"
    using assms by (auto simp: Shm_Publish_def Let_def)
  show "s_master ob' = slot_store X (s_master ob) (shm_record X ctx now val derived ob)" using f by (simp add: ob' upd_header_def)
  show "h_pub_pid (header ob') = h_pub_pid (header ob)" "versions_ok (header ob') = versions_ok (header ob)"
    "type_ok d (header ob') = type_ok d (header ob)" "layout_ok d (header ob') = layout_ok d (header ob)"
    "h_accepted_ordinal (header ob') = h_accepted_ordinal (header ob) + 1"
    by (simp_all add: h versions_ok_def type_ok_def layout_ok_def)
qed

text \<open>It leaves state, owner and kind of every slot.\<close>

lemma Publish_slots:
  assumes "wf_segment ob" "i < kShmMaxSubscribers" "Shm_Publish X sz ctx now val derived pub ob = (st, pub', ob')"
  shows "ss_state (slot_at ob' i) = ss_state (slot_at ob i)" "ss_pid (slot_at ob' i) = ss_pid (slot_at ob i)" "wf_segment ob'"
proof -
  let ?r = "shm_record X ctx now val derived ob"
  from Publish_region [OF assms] obtain ob3 where ob3: "wf_segment ob3" "region ob3 i = region ob i" "wf_segment ob'"
    "region ob' i = region (shm_deliver X ?r i ob3) i" .
  have "ss_state (slot_at (shm_deliver X ?r i ob3) i) = ss_state (slot_at ob3 i)" "ss_pid (slot_at (shm_deliver X ?r i ob3) i) = ss_pid (slot_at ob3 i)"
    using ob3(1) assms(2) by (auto simp: shm_deliver_def shm_stamp_def Let_def split: option.splits)
  then show "ss_state (slot_at ob' i) = ss_state (slot_at ob i)" "ss_pid (slot_at ob' i) = ss_pid (slot_at ob i)"
    using ob3(2,4) by (simp_all add: region_def)
  show "wf_segment ob'" by (rule ob3(3))
qed

lemma publish_related:
  assumes "twin S t ob" "linked S topic seg t ob links hs1 hs2" "site_ok S" "pub_reliability core = kBestEffort"
    and "Shm_Publish (st_base S) sz ctx now val derived pub ob = (st, pub', ob')" "Deliver (st_base S) sz ctx now core val derived t = (st1, core', t')"
  shows "st = st1" "core' = note_publish sz core" "twin S t' ob'" "linked S topic seg t' ob' links hs1 hs2"
    "publisher_count t' = publisher_count t" "h_pub_pid (header ob') = h_pub_pid (header ob)"
proof -
  let ?X = "st_base S" and ?r = "shm_record (st_base S) ctx now val derived ob"
  obtain items capacity where X: "xmbase ?X items capacity" using assms(3) by (auto simp: site_ok_def)
  have wf: "wf_topic t" "wf_segment ob" "accepted_ordinal t = h_accepted_ordinal (header ob)" "master t = s_master ob"
    using assms(1) by (simp_all add: twin_def)
  note ph = Publish_header [OF assms(5)]
  note ps = Publish_slots [OF wf(2) _ assms(5)]
  have seg: "wf_segment ob'" using ps(3) [of 0] by (simp add: kShmMaxSubscribers_def)
  have t': "st1 = Publish_kOk" "core' = note_publish sz core"
    "t' = t\<lparr>accepted_ordinal := accepted_ordinal t + 1, master := slot_store ?X (master t) ?r,
       sub_retained := fold (deliver_slot ?X ?r) (sub_slots t) (sub_retained t)\<rparr>"
    using assms(4,6) wf(3) by (auto simp: Deliver_def shm_record_def Let_def)
  have "wf_topic t'" using wf_topic_Deliver [OF wf(1), of ?X sz ctx now core val derived] assms(6) by simp
  then show "twin S t' ob'" using assms(1) seg ph ps(1,2) by (simp add: twin_def t')
  have con: "connected t' p = connected t p" for p by (simp add: connected_def t')
  have pair: "sub_pair S topic seg t' ob' (links ! k) (hs1 ! k) (hs2 ! k)" if k: "k < length links" for k
  proof (cases "links ! k")
    case None
    then show ?thesis using linkedD(3) [OF assms(2) k] by (simp add: sub_pair_def)
  next
    case (Some x)
    obtain p i where x: "x = (p, i)" by fastforce
    have m: "Some (p, i) \<in> set links" using k Some x nth_mem by metis
    have p: "connected t p" "p < length (sub_retained t)" using linkedD(6) [OF assms(2) m] wf_topic_slotsD [OF wf(1)] by (simp_all add: connected_def)
    have ret: "sub_retained t' ! p = deliver_core ?X ?r (sub_retained t ! p)" using fanout_nth_topic [OF wf(1) p(2)] p(1) by (simp add: t')
    from linkedD(3) [OF assms(2) k] Some x obtain ep sub where pr: "hs1 ! k = Some (SubIP ep)" "hs2 ! k = Some (SubShm Subscribe_kOk seg sub)"
      "ep_kind ep = SubImpl (Some (Retained p))" "ep_topic ep = Some topic" "\<not> is_publisher ep" "subscribe_status ep = Subscribe_kOk"
      "ep_type ep = st_type S" and c: "consistent ?X sub i ob" "shm_core sub i ob = strip (sub_retained t ! p)" by (auto simp: sub_pair_def)
    have "shm_core sub i ob' = strip (deliver_core ?X ?r (shm_core sub i ob))"
      by (rule Publish_refines [OF _ assms(5)]) (use c(1) in \<open>simp add: consistent_def\<close>)
    then have "shm_core sub i ob' = strip (sub_retained t' ! p)" by (simp add: c(2) ret strip_step(1))
    then show ?thesis using pr Publish_consistent(1) [OF c(1) X assms(5)] by (simp add: sub_pair_def Some x)
  qed
  have act: "{i. i < kShmMaxSubscribers \<and> ss_state (slot_at ob' i) = kShmSubActive} = {i. i < kShmMaxSubscribers \<and> ss_state (slot_at ob i) = kShmSubActive}"
    using ps(1) by auto
  show "linked S topic seg t' ob' links hs1 hs2" using assms(2) pair unfolding linked_def act con by blast
  show "st = st1" "core' = note_publish sz core" "publisher_count t' = publisher_count t" "h_pub_pid (header ob') = h_pub_pid (header ob)"
    using ph(1,4) t' by simp_all
qed

section \<open>Taking\<close>

lemma set_slot_id [simp]: "set_slot i (slot_at ob i) ob = ob" "set_ring i (s_rings ob ! i) ob = ob"
  by (simp_all add: set_slot_def set_ring_def slot_at_def)

lemma FillSample_pid: "FillSample X now r sub sl = (smp, sub', sl') \<Longrightarrow> ss_pid sl' = ss_pid sl"
  "shm_gap ord sub sl = (sub', sl') \<Longrightarrow> ss_pid sl' = ss_pid sl"
  by (auto simp: FillSample_def shm_gap_def Let_def split: if_splits)

text \<open>A take writes the taker's own slot and ring.\<close>

definition own_write :: "nat \<Rightarrow> ('s, 'q) shm_object \<Rightarrow> ('s, 'q) shm_object \<Rightarrow> bool" where
  "own_write i ob ob' \<longleftrightarrow> (\<exists>sl q. ob' = set_slot i sl (set_ring i q ob) \<and> ss_state sl = ss_state (slot_at ob i) \<and> ss_pid sl = ss_pid (slot_at ob i))"

lemma own_write_refl [simp]: "own_write i ob ob"
  unfolding own_write_def by (rule exI [of _ "slot_at ob i"], rule exI [of _ "s_rings ob ! i"]) simp

lemma own_writeI:
  assumes "ss_state sl = ss_state (slot_at ob i)" "ss_pid sl = ss_pid (slot_at ob i)"
  shows "own_write i ob (set_slot i sl (set_ring i q ob))" "own_write i ob (set_slot i sl ob)"
proof -
  show w: "own_write i ob (set_slot i sl (set_ring i q ob))" for q using assms by (auto simp: own_write_def)
  show "own_write i ob (set_slot i sl ob)" using w [of "s_rings ob ! i"] by simp
qed

lemma take_latest_own_write:
  assumes "su_slot sub = Some i" "TakeLatestSample X C now sub ob = (smp, sub', ob')"
  shows "own_write i ob ob'"
proof -
  let ?sub0 = "case load_bounded C (s_latest ob ! i) of LR_kValue r \<Rightarrow> sub\<lparr>su_cached := Some r\<rparr> | _ \<Rightarrow> sub"
  show ?thesis
  proof (cases "su_latest sub \<and> su_cached ?sub0 \<noteq> None")
    case True
    then obtain r where r: "su_cached ?sub0 = Some r" by blast
    obtain s1 sub1 sl1 where f: "FillSample X now r ?sub0 (slot_at ob i) = (s1, sub1, sl1)" by (metis prod_cases3)
    obtain sub2 sl2 where g: "shm_gap (ordinal r) sub1 sl1 = (sub2, sl2)" by fastforce
    have "ob' = set_slot i sl2 ob" using assms True r f g by (simp add: TakeLatestSample_def Let_def)
    then show ?thesis using own_writeI(2) FillSample_frame [OF f] shm_gap_frame [OF g] FillSample_pid(1) [OF f] FillSample_pid(2) [OF g] by metis
  next
    case False
    then have "ob' = ob" using assms by (auto simp: TakeLatestSample_def Let_def split: if_splits)
    then show ?thesis by simp
  qed
qed

lemma try_take_own_write:
  assumes "su_slot sub = Some i" "TryTakeSample X now sub ob = (smp, sub', ob')"
  shows "own_write i ob ob'"
proof (cases "su_ring sub \<and> ring_pop X (s_rings ob ! i) \<noteq> None")
  case True
  then obtain r q where r: "ring_pop X (s_rings ob ! i) = Some (r, q)" by auto
  let ?sub0 = "su_emit T_queue_depth (Set (ring_size X q)) (EmitDropDelta (slot_at ob i) sub)"
  obtain s1 sub1 sl1 where f: "FillSample X now r ?sub0 (slot_at ob i) = (s1, sub1, sl1)" by (metis prod_cases3)
  have "ob' = set_slot i sl1 (set_ring i q ob)" using assms True r f by (simp add: TryTakeSample_def Let_def)
  then show ?thesis using own_writeI(1) FillSample_frame [OF f] FillSample_pid(1) [OF f] by metis
next
  case False
  then have "ob' = ob" using assms by (cases "ring_pop X (s_rings ob ! i)") (auto simp: TryTakeSample_def Let_def split: if_splits)
  then show ?thesis by simp
qed

lemma own_write_frame:
  assumes "own_write i ob ob'" "wf_segment ob" "i < kShmMaxSubscribers"
  shows "wf_segment ob'" "j \<noteq> i \<Longrightarrow> region ob' j = region ob j" "ss_state (slot_at ob' j) = ss_state (slot_at ob j)"
    "ss_pid (slot_at ob' j) = ss_pid (slot_at ob j)" "s_master ob' = s_master ob" "h_accepted_ordinal (header ob') = h_accepted_ordinal (header ob)"
    "versions_ok (header ob') = versions_ok (header ob)" "type_ok d (header ob') = type_ok d (header ob)" "layout_ok d (header ob') = layout_ok d (header ob)"
    "h_pub_pid (header ob') = h_pub_pid (header ob)"
  using assms unfolding own_write_def
  by (auto simp: region_def) (auto simp: set_slot_def set_ring_def versions_ok_def type_ok_def layout_ok_def)

text \<open>Each take verb, whatever the declared history, does to the slot what it does to the core.\<close>

lemma verb_refines:
  assumes "consistent X sub i ob" "never_stalls X C" "shm_core sub i ob = strip c"
  shows "TakeLatestSample X C now sub ob = (smp, sub', ob') \<Longrightarrow> TakeLatest X now c = (smp1, c') \<Longrightarrow>
      smp = smp1 \<and> consistent X sub' i ob' \<and> shm_core sub' i ob' = strip c'"
    "TryTakeSample X now sub ob = (smp, sub', ob') \<Longrightarrow> TryTake X now c = (smp1, c') \<Longrightarrow>
      smp = smp1 \<and> consistent X sub' i ob' \<and> shm_core sub' i ob' = strip c'"
proof -
  have "latest c = latest (strip c)" "queue c = queue (strip c)" by (simp_all add: strip_def)
  then have h: "latest c \<noteq> None \<longleftrightarrow> su_latest sub" "queue c \<noteq> None \<longleftrightarrow> su_ring sub"
    unfolding assms(3) [symmetric] by (simp_all add: shm_core_def region_core_def region_def)
  have h: "holds_slot sub i ob" "healthy X C (s_latest ob ! i) sub" "su_slot sub = Some i" "su_ring sub = (\<not> su_latest sub)"
    "latest c \<noteq> None \<longleftrightarrow> su_latest sub" "queue c \<noteq> None \<longleftrightarrow> su_ring sub"
    using assms(1,2) h by (simp_all add: consistent_def holds_slot_def healthy_def never_stalls_def)
  note s = strip_step(2,3,4,5) [of X now c, folded assms(3)]
  show "smp = smp1 \<and> consistent X sub' i ob' \<and> shm_core sub' i ob' = strip c'"
    if t: "TakeLatestSample X C now sub ob = (smp, sub', ob')" "TakeLatest X now c = (smp1, c')"
  proof (cases "su_latest sub")
    case True
    then show ?thesis using TakeLatest_refines [OF h(1) True h(2) t(1)] TakeLatest_consistent(1) [OF assms(1,2) t(1)] s(1,2) t(2)
      by (simp add: strip_notes)
  next
    case False
    then show ?thesis using t h(3,5) assms(1,3) by (auto simp: TakeLatestSample_def TakeLatest_def)
  qed
  show "smp = smp1 \<and> consistent X sub' i ob' \<and> shm_core sub' i ob' = strip c'"
    if t: "TryTakeSample X now sub ob = (smp, sub', ob')" "TryTake X now c = (smp1, c')"
  proof (cases "su_latest sub")
    case True
    then show ?thesis using t h(3,4,6) assms(1,3) by (auto simp: TryTakeSample_def TryTake_def)
  next
    case False
    then show ?thesis using TryTake_refines [OF h(1) False t(1)] TryTake_consistent(1) [OF assms(1) t(1)] s(3,4) t(2)
      by (simp add: strip_notes)
  qed
qed

lemma take_related:
  assumes "twin S t ob" "linked S topic seg t ob links hs1 hs2" "k < length links" "links ! k = Some (p, i)" "own_write i ob ob'" "wf_core c'"
    and pair: "sub_pair S topic seg (t\<lparr>sub_retained := (sub_retained t)[p := c']\<rparr>) ob' (Some (p, i)) h1 h2"
  shows "twin S (t\<lparr>sub_retained := (sub_retained t)[p := c']\<rparr>) ob'"
    "linked S topic seg (t\<lparr>sub_retained := (sub_retained t)[p := c']\<rparr>) ob' links (hs1[k := h1]) (hs2[k := h2])"
proof -
  let ?t = "t\<lparr>sub_retained := (sub_retained t)[p := c']\<rparr>"
  have wf: "wf_topic t" "wf_segment ob" using assms(1) by (simp_all add: twin_def)
  have mem: "Some (p, i) \<in> set links" using assms(3,4) nth_mem by metis
  have i: "i < kShmMaxSubscribers" using linkedD(7) [OF assms(2) mem] by simp
  note f = own_write_frame [OF assms(5) wf(2) i]
  have "list_all wf_core ((sub_retained t)[p := c'])"
    using wf(1) assms(6) by (auto simp: wf_topic_def list_all_iff dest!: subsetD [OF set_update_subset_insert])
  then have "wf_topic ?t" using wf(1) by (simp add: wf_topic_def)
  then show "twin S ?t ob'" using assms(1) f by (simp add: twin_def)
  have con: "connected ?t q = connected t q" for q by (simp add: connected_def)
  have "sub_pair S topic seg ?t ob' (links ! m) (hs1[k := h1] ! m) (hs2[k := h2] ! m)" if m: "m < length links" for m
  proof (cases "m = k")
    case True
    then show ?thesis using pair assms(4) m linkedD(1,2) [OF assms(2)] by simp
  next
    case False
    have "sub_pair S topic seg ?t ob' (links ! m) (hs1 ! m) (hs2 ! m)"
      by (rule pair_kept [OF assms(2) m f(1)]) (use other_link [OF assms(2-4) m False] f(2) in auto)
    then show ?thesis using False by simp
  qed
  then show "linked S topic seg ?t ob' links (hs1[k := h1]) (hs2[k := h2])" using assms(2) unfolding linked_def con f(3) by simp
qed

section \<open>Wiring\<close>

lemma fresh_twin:
  fixes qos :: Qos and topic :: string
  assumes "site_ok S"
  defines "ob \<equiv> MarkReady ((st_blank S)\<lparr>obj_size := id_total (st_id S), header := created_header (st_id S) qos, s_master := slot_new (st_base S)\<rparr>)"
    and "t \<equiv> Topic_init (st_base S) topic (id_hash (st_id S)) (st_type S)"
  shows "twin S t ob" "owned S topic seg t ob [] []" "linked S topic seg t ob [] [] []"
proof -
  have slot: "slot_at ob i = ShmSubSlot_zero" if "i < kShmMaxSubscribers" for i
    using that by (simp add: ob_def slot_at_def MarkReady_def created_header_def ShmSegmentHeader_zero_def)
  then have free: "ss_state (slot_at ob i) = kShmSubFree" if "i < kShmMaxSubscribers" for i
    using that by (simp add: ShmSubSlot_zero_def kShmSubFree_def)
  show "twin S t ob" using assms(1) free wf_topic_init [of "st_base S" topic "id_hash (st_id S)" "st_type S"]
    by (simp add: twin_def t_def site_ok_def wf_segment_def)
      (simp add: ob_def Topic_init_def MarkReady_def created_header_def ShmSegmentHeader_zero_def versions_ok_def type_ok_def layout_ok_def)
  show "owned S topic seg t ob [] []"
    by (simp add: owned_def t_def ob_def Topic_init_def MarkReady_def created_header_def ShmSegmentHeader_zero_def)
  show "linked S topic seg t ob [] [] []" using free by (auto simp: linked_def t_def connected_def Topic_init_def kShmSubFree_def kShmSubActive_def)
qed

lemma attach_related:
  assumes "reach_rel S topic seg w1 w2" "ap_carrier w1 = (ds, fs0)" "ap_carrier w2 = (ds0, fs)"
  obtains t ob links ds1 fs1 where
    "find_or_make topic (TopicE (Topic_init (st_base S) topic (id_hash (st_id S)) (st_type S))) ds = (TopicE t, ds1)"
    "Attach (st_base S) (st_os S (fs seg \<noteq> None)) seg (st_pid S) (st_id S) qos (st_blank S) fs = (Attach_kOk, fs1)" "fs1 seg = Some ob"
    "twin S t ob" "owned S topic seg t ob (ap_pubs w1) (ap_pubs w2)" "linked S topic seg t ob links (ap_subs w1) (ap_subs w2)"
proof (cases "topic_at ds topic")
  case None
  let ?t = "Topic_init (st_base S) topic (id_hash (st_id S)) (st_type S)"
  let ?ob = "MarkReady ((st_blank S)\<lparr>obj_size := id_total (st_id S), header := created_header (st_id S) qos, s_master := slot_new (st_base S)\<rparr>)"
  have ok: "site_ok S" and e: "fs seg = None" "ap_pubs w1 = []" "ap_subs w1 = []" "ap_pubs w2 = []" "ap_subs w2 = []"
    using assms None by (simp_all add: reach_rel_def split: option.splits)
  have os: "os_create (st_os S False) 0 = Created" "os_ftruncate (st_os S False)" "os_mmap (st_os S False)" using ok by (simp_all add: site_ok_def)
  have "Attach (st_base S) (st_os S (fs seg \<noteq> None)) seg (st_pid S) (st_id S) qos (st_blank S) fs = (Attach_kOk, fs(seg \<mapsto> ?ob))"
    using os by (simp add: Attach_def open_first(1) create_new_def e(1))
  then show thesis by (rule that [rotated]) (use None e fresh_twin [OF ok] in \<open>auto simp: find_or_make_def\<close>)
next
  case (Some e)
  then obtain t ob links where t: "e = TopicE t" "fs seg = Some ob" "twin S t ob" "owned S topic seg t ob (ap_pubs w1) (ap_pubs w2)"
    "linked S topic seg t ob links (ap_subs w1) (ap_subs w2)" and ok: "site_ok S"
    using assms by (auto simp: reach_rel_def split: option.splits entry.splits)
  let ?os = "st_os S True"
  have os: "os_create ?os 0 = Exists" "os_open ?os 0 = Opened" "os_fstat ?os 0 0 = Some (id_total (st_id S))" "kHeaderSize \<le> id_total (st_id S)"
    "os_init_state ?os 0 0 = 1" "os_mmap_header ?os" "os_mmap ?os" using ok by (simp_all add: site_ok_def)
  have "attach_existing ?os 0 (st_pid S) (st_id S) ob = (Attach_kOk, ob)"
    using wait_size_now [of "os_fstat ?os 0", OF os(3,4)] wait_ready_now [of "os_init_state ?os 0", OF os(5)] os(6,7) t(3)
    by (simp add: attach_existing_def twin_def)
  then have "OpenOrCreate ?os seg (st_pid S) (st_id S) qos (st_blank S) fs = (Attach_kOk, False, fs)"
    using open_first(2) [of ?os fs seg ob, OF os(1,2) t(2)] t(2) by (simp add: fun_upd_idem)
  then show thesis using that [of t ds fs ob links] t Some by (simp add: find_or_make_def Attach_def)
qed

section \<open>Subscribing and leaving\<close>

lemma load_new: "site_ok S \<Longrightarrow> slot_load (st_base S) (slot_new (st_base S)) = None"
  unfolding site_ok_def by (metis message_slot.load_new xmbase.axioms(1))

lemma free_slot_exists:
  assumes "wf_topic t" "length (attached (sub_slots t)) < kShmMaxSubscribers"
  obtains j where "free_slot t = Some j" "j < length (sub_slots t)" "sub_slots t ! j = None"
proof -
  have all: "\<forall>s \<in> set slots. s \<noteq> None \<Longrightarrow> length (attached slots) = length slots" for slots :: "nat option list"
    by (induction slots) (auto simp: attached_def List.map_filter_def)
  have "length (attached (sub_slots t)) \<noteq> length (sub_slots t)"
    using assms by (simp add: wf_topic_def kMaxSubscribers_def kShmMaxSubscribers_def)
  then have "\<exists>j < length (sub_slots t). sub_slots t ! j = None" using all [of "sub_slots t"] by (metis in_set_conv_nth)
  from scan_total [OF this] obtain j where "free_slot t = Some j" by (auto simp: free_slot_def)
  then show thesis using that by (auto simp: free_slot_def dest: scan_SomeD)
qed

lemma attach_connected:
  assumes "j < length (sub_slots t)" "sub_slots t ! j = None" "t' = t\<lparr>sub_slots := (sub_slots t)[j := Some n], sub_retained := cs, subscriber_count := c\<rparr>"
  shows "connected t' p \<longleftrightarrow> p = n \<or> connected t p"
proof -
  have "Some p \<in> set ((sub_slots t)[j := Some n])" if "Some p \<in> set (sub_slots t)"
  proof -
    from that obtain m where m: "m < length (sub_slots t)" "sub_slots t ! m = Some p" by (auto simp: in_set_conv_nth)
    then have "m \<noteq> j" using assms(2) by auto
    then show ?thesis using m by (metis length_list_update nth_list_update_neq nth_mem)
  qed
  moreover have "set ((sub_slots t)[j := Some n]) \<subseteq> insert (Some n) (set (sub_slots t))" by (rule set_update_subset_insert)
  moreover have "Some n \<in> set ((sub_slots t)[j := Some n])" using assms(1) by (rule set_update_memI)
  ultimately show ?thesis by (auto simp: connected_def assms(3))
qed

lemma remove_connected:
  assumes "wf_topic t" "connected t p"
  shows "connected (RemoveSubscriber (Retained p) t) q \<longleftrightarrow> connected t q \<and> q \<noteq> p"
proof -
  have "\<exists>j < length (sub_slots t). sub_slots t ! j = Some p" using assms(2) by (auto simp: connected_def in_set_conv_nth)
  from scan_total [OF this] obtain j where j: "scan (length (sub_slots t)) (\<lambda>i. sub_slots t ! i = Some p) = Some j" ..
  then have lt: "j < length (sub_slots t)" "sub_slots t ! j = Some p" by (auto dest: scan_SomeD)
  have "distinct (attached (sub_slots t))" using assms(1) by (simp add: wf_topic_def)
  then have "p \<notin> set (attached ((sub_slots t)[j := None]))"
    unfolding attached_update [OF lt(1)] attached_split [OF lt(1)] using lt(2) by (simp del: set_attached)
  then have "\<not> connected (RemoveSubscriber (Retained p) t) p" using j by (simp add: RemoveSubscriber_def connected_def)
  then show ?thesis using RemoveSubscriber_connected RemoveSubscriber_other by metis
qed

text \<open>Claiming a slot writes that slot, its mailbox and its ring.\<close>

lemma claim_frame:
  assumes "ClaimSubscriberSlot X C alive me sub0 ob = Some (sub, ob')" "wf_segment ob"
  obtains i where "i < kShmMaxSubscribers" "su_slot sub = Some i" "claimable alive (slot_at ob i)" "wf_segment ob'"
    "\<And>j. j \<noteq> i \<Longrightarrow> region ob' j = region ob j" "slot_at ob' i = fresh_slot me (su_history sub0)" "s_master ob' = s_master ob"
    "header ob' = (header ob)\<lparr>h_sub_slots := h_sub_slots (header ob')\<rparr>"
proof -
  from assms(1) obtain i where i: "scan kShmMaxSubscribers (\<lambda>i. claimable alive (slot_at ob i)) = Some i"
    by (auto simp: ClaimSubscriberSlot_def split: option.splits)
  then have lt: "i < kShmMaxSubscribers" "claimable alive (slot_at ob i)" by (auto dest: scan_SomeD)
  have ob': "(\<exists>m. ob' = set_latest i m (set_slot i (fresh_slot me (su_history sub0)) ob)) \<or>
      (\<exists>q. ob' = set_ring i q (set_slot i (fresh_slot me (su_history sub0)) ob))" and s: "su_slot sub = Some i"
    using assms(1) i by (auto simp: ClaimSubscriberSlot_def Let_def split: if_splits)
  show thesis
  proof (rule that [OF lt(1) s lt(2)])
    show "wf_segment ob'" "slot_at ob' i = fresh_slot me (su_history sub0)" using ob' assms(2) lt(1) by auto
    show "region ob' j = region ob j" if "j \<noteq> i" for j using ob' that assms(2) lt(1) by (auto simp: region_def)
    show "s_master ob' = s_master ob" "header ob' = (header ob)\<lparr>h_sub_slots := h_sub_slots (header ob')\<rparr>"
      using ob' by (auto simp: set_slot_def set_latest_def set_ring_def)
  qed
qed

lemma slots_only:
  assumes "header ob' = (header ob)\<lparr>h_sub_slots := slots\<rparr>"
  shows "versions_ok (header ob') = versions_ok (header ob)" "type_ok d (header ob') = type_ok d (header ob)" "layout_ok d (header ob') = layout_ok d (header ob)"
    "h_pub_pid (header ob') = h_pub_pid (header ob)" "h_accepted_ordinal (header ob') = h_accepted_ordinal (header ob)"
  by (simp_all add: assms versions_ok_def type_ok_def layout_ok_def)

lemma seed_strip: "strip (seed_core X t (SubCore_init X qos)) = seed_core X t (SubCore_init X qos)"
  by (simp add: strip_def seed_core_def SubCore_init_def split: option.splits)

text \<open>A new subscription, in three parts: the segment has a slot to claim, the claim's effect beside the in-process seat,
  and the link of the two new handles.\<close>

lemma twin_claimable:
  assumes "twin S t ob" "site_ok S" "i < kShmMaxSubscribers"
  shows "claimable (st_alive S) (slot_at ob i) \<longleftrightarrow> ss_state (slot_at ob i) \<noteq> kShmSubActive"
  using assms by (auto simp: twin_def site_ok_def claimable_def kShmSubFree_def kShmSubActive_def)

lemma claim_succeeds:
  assumes tw: "twin S t ob" and ln: "linked S topic seg t ob links hs1 hs2" and ok: "site_ok S" and room: "cnt (\<lambda>_. True) hs1 < kShmMaxSubscribers"
  obtains sub ob' where "ClaimSubscriberSlot (st_base S) (st_crash S) (st_alive S) (st_pid S) (ShmSubImpl_init qos) ob = Some (sub, ob')"
proof -
  have wf: "wf_topic t" using tw by (simp add: twin_def)
  note c = linked_counts [OF ln wf]
  have "card {i. i < kShmMaxSubscribers} = kShmMaxSubscribers" by simp
  then have "{i. i < kShmMaxSubscribers \<and> ss_state (slot_at ob i) = kShmSubActive} \<noteq> {i. i < kShmMaxSubscribers}"
    using c(1,3) room by (metis less_irrefl)
  then have "\<exists>i < kShmMaxSubscribers. claimable (st_alive S) (slot_at ob i)" using twin_claimable [OF tw ok] by blast
  from scan_total [OF this] have "ClaimSubscriberSlot (st_base S) (st_crash S) (st_alive S) (st_pid S) (ShmSubImpl_init qos) ob \<noteq> None"
    by (auto simp: ClaimSubscriberSlot_def Let_def split: if_splits)
  then show thesis using that by auto
qed

lemma link_added:
  assumes tw: "twin S t ob" and ln: "linked S topic seg t ob links hs1 hs2" and ok: "site_ok S"
    and i: "i < kShmMaxSubscribers" "claimable (st_alive S) (slot_at ob i)" "wf_segment ob'" "\<And>j. j \<noteq> i \<Longrightarrow> region ob' j = region ob j"
      "\<And>m. ss_state (slot_at ob' m) = (if m = i then kShmSubActive else ss_state (slot_at ob m))"
    and t': "sub_retained t' = sub_retained t @ [core]" "\<And>q. connected t' q \<longleftrightarrow> q = length (sub_retained t) \<or> connected t q"
    and new: "sub_pair S topic seg t' ob' (Some (length (sub_retained t), i)) (Some h1) (Some h2)"
  shows "linked S topic seg t' ob' (links @ [Some (length (sub_retained t), i)]) (hs1 @ [Some h1]) (hs2 @ [Some h2])"
proof -
  let ?n = "length (sub_retained t)"
  let ?hs1 = "hs1 @ [Some h1]" and ?hs2 = "hs2 @ [Some h2]" and ?ls = "links @ [Some (?n, i)]"
  have wf: "wf_topic t" using tw by (simp add: twin_def)
  have "sub_pair S topic seg t' ob' (?ls ! k) (?hs1 ! k) (?hs2 ! k)" if k: "k < length ?ls" for k
  proof (cases "k < length links")
    case True
    have "sub_pair S topic seg t' ob' (links ! k) (hs1 ! k) (hs2 ! k)"
    proof (rule pair_kept [OF ln True i(3)])
      fix p i' assume "links ! k = Some (p, i')"
      then have m: "Some (p, i') \<in> set links" using True nth_mem by metis
      have "i' \<noteq> i" using linkedD(7) [OF ln m] i(1,2) twin_claimable [OF tw ok] by blast
      moreover have "p < ?n" using linkedD(6) [OF ln m] wf_topic_slotsD [OF wf] by (simp add: connected_def)
      ultimately show "region ob' i' = region ob i' \<and> sub_retained t' ! p = sub_retained t ! p" using i(4) by (simp add: t' nth_append)
    qed
    then show ?thesis using True linkedD(1,2) [OF ln] by (simp add: nth_append)
  next
    case False
    then have "k = length links" using k by simp
    then show ?thesis using new linkedD(1,2) [OF ln] by (simp add: nth_append)
  qed
  moreover have "?n \<notin> fst ` set (live_links links)" "i \<notin> snd ` set (live_links links)"
    using ln wf_topic_slotsD [OF wf, of ?n] i(1,2) twin_claimable [OF tw ok] by (auto simp: linked_def connected_def simp del: live_links_simps)
  ultimately show ?thesis using ln i(1) unfolding linked_def t'(2) i(5) by (auto simp del: live_links_simps(3))
qed

lemma subscribe_related:
  assumes tw: "twin S t ob" and ln: "linked S topic seg t ob links hs1 hs2" and ok: "site_ok S" and room: "cnt (\<lambda>_. True) hs1 < kShmMaxSubscribers"
    and q: "hist_kind (history qos) = kQueue \<Longrightarrow> hist_depth (history qos) \<noteq> 0"
  obtains sub ob' t' where "ClaimSubscriberSlot (st_base S) (st_crash S) (st_alive S) (st_pid S) (ShmSubImpl_init qos) ob = Some (sub, ob')"
    "AddSubscriber (st_base S) qos t = (Retained (length (sub_retained t)), t')" "twin S t' ob'" "publisher_count t' = publisher_count t"
    "h_pub_pid (header ob') = h_pub_pid (header ob)"
    "\<And>ep. ep_kind ep = SubImpl (Some (Retained (length (sub_retained t)))) \<Longrightarrow> ep_topic ep = Some topic \<Longrightarrow> \<not> is_publisher ep \<Longrightarrow> ep_type ep = st_type S \<Longrightarrow>
       subscribe_status ep = Subscribe_kOk \<Longrightarrow>
       \<exists>links'. linked S topic seg t' ob' links' (hs1 @ [Some (SubIP ep)]) (hs2 @ [Some (SubShm Subscribe_kOk seg sub)])"
proof -
  let ?X = "st_base S" and ?n = "length (sub_retained t)"
  have wf: "wf_topic t" "wf_segment ob" "master t = s_master ob" using tw by (simp_all add: twin_def)
  have X: "slot_load ?X (slot_new ?X) = None" "never_stalls ?X (st_crash S)" using ok load_new [OF ok] by (simp_all add: site_ok_def)
  obtain sub ob' where cl: "ClaimSubscriberSlot ?X (st_crash S) (st_alive S) (st_pid S) (ShmSubImpl_init qos) ob = Some (sub, ob')"
    using claim_succeeds [OF tw ln ok room] .
  from claim_frame [OF cl wf(2)] obtain i where i: "i < kShmMaxSubscribers" "su_slot sub = Some i" "claimable (st_alive S) (slot_at ob i)" "wf_segment ob'"
    "\<And>j. j \<noteq> i \<Longrightarrow> region ob' j = region ob j" "slot_at ob' i = fresh_slot (st_pid S) (history qos)" "s_master ob' = s_master ob"
    "header ob' = (header ob)\<lparr>h_sub_slots := h_sub_slots (header ob')\<rparr>" by (auto simp: ShmSubImpl_init_def)
  from claim_core [OF wf(2) X(2) q X(1) cl wf(3)] obtain i' where "consistent ?X sub i' ob'" "shm_core sub i' ob' = seed_core ?X t (SubCore_init ?X qos)" .
  moreover have "i' = i" using calculation(1) i(2) by (simp add: consistent_def holds_slot_def)
  ultimately have core: "consistent ?X sub i ob'" "shm_core sub i ob' = seed_core ?X t (SubCore_init ?X qos)" by simp_all
  obtain j where j: "free_slot t = Some j" "j < length (sub_slots t)" "sub_slots t ! j = None"
    using free_slot_exists wf(1) linked_counts(1,2) [OF ln wf(1)] room by metis
  define t' where "t' = snd (AddSubscriber ?X qos t)"
  have add: "AddSubscriber ?X qos t = (Retained ?n, t')" and t': "t' = t\<lparr>sub_slots := (sub_slots t)[j := Some ?n],
      sub_retained := sub_retained t @ [seed_core ?X t (SubCore_init ?X qos)], subscriber_count := subscriber_count t + 1\<rparr>"
    using j(1) by (simp_all add: t'_def AddSubscriber_def attach_core_def)
  note con = attach_connected [OF j(2,3) t'] and so = slots_only [OF i(8)]
  have slot: "ss_state (slot_at ob' m) = (if m = i then kShmSubActive else ss_state (slot_at ob m))"
    "ss_pid (slot_at ob' m) = (if m = i then st_pid S else ss_pid (slot_at ob m))" for m
    using i(5) [of m] i(6) by (auto simp: region_def fresh_slot_def)
  have "wf_topic t'" using wf_topic_AddSubscriber [OF wf(1), of ?X qos] by (simp add: t'_def)
  then have tw': "twin S t' ob'" using tw i(4,7) so slot by (auto simp: twin_def t')
  show thesis
  proof (rule that [OF cl add tw'])
    fix ep :: "('a, 'b, 'c) EndpointImpl"
    assume ep: "ep_kind ep = SubImpl (Some (Retained ?n))" "ep_topic ep = Some topic" "\<not> is_publisher ep" "ep_type ep = st_type S" "subscribe_status ep = Subscribe_kOk"
    have "sub_retained t' ! ?n = seed_core ?X t (SubCore_init ?X qos)" by (simp add: t')
    then have "sub_pair S topic seg t' ob' (Some (?n, i)) (Some (SubIP ep)) (Some (SubShm Subscribe_kOk seg sub))"
      using ep core seed_strip [of ?X t qos] by (simp add: sub_pair_def)
    from link_added [OF tw ln ok i(1,3,4,5) slot(1) _ con this]
    show "\<exists>links'. linked S topic seg t' ob' links' (hs1 @ [Some (SubIP ep)]) (hs2 @ [Some (SubShm Subscribe_kOk seg sub)])" by (auto simp: t')
  qed (use so(4) in \<open>simp_all add: t'\<close>)
qed

lemma leave_related:
  assumes tw: "twin S t ob" and ln: "linked S topic seg t ob links hs1 hs2" and k: "k < length links" "links ! k = Some (p, i)"
    and "su_slot sub = Some i"
  defines "t' \<equiv> RemoveSubscriber (Retained p) t" and "ob' \<equiv> ShmSubImpl_dtor sub ob"
  shows "twin S t' ob'" "linked S topic seg t' ob' (links[k := None]) (hs1[k := None]) (hs2[k := None])"
    "publisher_count t' = publisher_count t" "h_pub_pid (header ob') = h_pub_pid (header ob)"
proof -
  have wf: "wf_topic t" "wf_segment ob" using tw by (simp_all add: twin_def)
  have mem: "Some (p, i) \<in> set links" using k nth_mem by metis
  have i: "i < kShmMaxSubscribers" "connected t p" using linkedD(6,7) [OF ln mem] by simp_all
  have ob': "ob' = set_slot i ((slot_at ob i)\<lparr>ss_state := kShmSubFree, ss_pid := 0\<rparr>) ob" using assms(5) by (simp add: ob'_def ShmSubImpl_dtor_def)
  have slot: "slot_at ob' j = (if j = i then (slot_at ob i)\<lparr>ss_state := kShmSubFree, ss_pid := 0\<rparr> else slot_at ob j)" for j
    using wf(2) i(1) by (simp add: ob')
  have keep: "wf_segment ob'" "s_master ob' = s_master ob" "j \<noteq> i \<Longrightarrow> region ob' j = region ob j" for j
    using wf(2) i(1) by (simp_all add: ob' region_def)
  have "header ob' = (header ob)\<lparr>h_sub_slots := h_sub_slots (header ob')\<rparr>" by (simp add: ob' set_slot_def)
  note so = slots_only [OF this]
  have rest: "schema_hash t' = schema_hash t" "declared_ownership t' = declared_ownership t" "master t' = master t" "accepted_ordinal t' = accepted_ordinal t"
    "sub_retained t' = sub_retained t" by (auto simp: t'_def RemoveSubscriber_def split: option.splits)
  note count = RemoveSubscriber_count(2,3) [of "Retained p" t, folded t'_def]
  have "wf_topic t'" using wf_topic_RemoveSubscriber [OF wf(1)] by (simp add: t'_def)
  then show "twin S t' ob'" using tw keep(1,2) so slot rest count by (simp add: twin_def)
  show "publisher_count t' = publisher_count t" "h_pub_pid (header ob') = h_pub_pid (header ob)" using count so by simp_all
  have con: "connected t' q \<longleftrightarrow> connected t q \<and> q \<noteq> p" for q using remove_connected [OF wf(1) i(2)] by (simp add: t'_def)
  have "sub_pair S topic seg t' ob' (links[k := None] ! m) (hs1[k := None] ! m) (hs2[k := None] ! m)" if m: "m < length links" for m
  proof (cases "m = k")
    case True
    then show ?thesis using m linkedD(1,2) [OF ln] by (simp add: sub_pair_def)
  next
    case False
    have "sub_pair S topic seg t' ob' (links ! m) (hs1 ! m) (hs2 ! m)"
      by (rule pair_kept [OF ln m keep(1)]) (use other_link [OF ln k m False] keep(3) rest(5) in auto)
    then show ?thesis using False by simp
  qed
  moreover have "distinct (map fst (live_links (links[k := None])))" "distinct (map snd (live_links (links[k := None])))"
    "fst ` set (live_links (links[k := None])) = fst ` set (live_links links) - {p}"
    "snd ` set (live_links (links[k := None])) = snd ` set (live_links links) - {i}"
    using linkedD(4,5) [OF ln] unfolding live_split [OF k] by (auto simp del: live_links_simps)
  moreover have "fst ` set (live_links links) - {p} = {q. connected t' q}"
    "snd ` set (live_links links) - {i} = {j. j < kShmMaxSubscribers \<and> ss_state (slot_at ob' j) = kShmSubActive}"
    using ln unfolding linked_def con slot by (auto simp: kShmSubFree_def kShmSubActive_def simp del: live_links_simps)
  ultimately show "linked S topic seg t' ob' (links[k := None]) (hs1[k := None]) (hs2[k := None])" using linkedD(1,2) [OF ln] by (simp add: linked_def)
qed

section \<open>Publishers\<close>

lemma repair_all_id:
  assumes "site_ok S"
  shows "repair_all (st_crash S) ob = ob"
proof -
  have id: "repair (st_crash S) m = m" for m using assms by (auto simp: site_ok_def never_stalls_def split: option.splits)
  have "repair_slot (st_crash S) i ob = ob" for i and ob :: "('b, 'e) shm_object" by (simp add: repair_slot_def id set_latest_def)
  then have "fold (repair_slot (st_crash S)) xs ob = ob" for xs and ob :: "('b, 'e) shm_object" by (induction xs arbitrary: ob) simp_all
  then show ?thesis by (simp add: repair_all_def id)
qed

lemma owned_handle:
  assumes "owned S topic seg t ob hs1 hs2"
  shows "pub_pair S topic seg (handle_at hs1 k) (handle_at hs2 k)" "length hs2 = length hs1"
  using assms by (auto simp: owned_def handle_at_def pub_pair_def list_all2_conv_all_nth)

lemma update_absent [simp]: "handle_at hs k = None \<Longrightarrow> hs[k := None] = hs"
  by (metis handle_at_def list_update_beyond list_update_id not_less)

lemma handle_at_Some: "handle_at hs k = Some h \<Longrightarrow> k < length hs \<and> hs ! k = Some h"
  by (simp add: handle_at_def split: if_splits)

lemma owned_update:
  assumes "owned S topic seg t ob hs1 hs2" "handle_at hs1 k = Some h1" "pub_pair S topic seg (Some h1') (Some h2')" "wired_pub h1' = wired_pub h1"
    "publisher_count t' = publisher_count t" "h_pub_pid (header ob') = h_pub_pid (header ob)"
  shows "owned S topic seg t' ob' (hs1[k := Some h1']) (hs2[k := Some h2'])"
proof -
  note k = handle_at_Some [OF assms(2)]
  have "cnt wired_pub (hs1[k := Some h1']) = cnt wired_pub hs1"
    using cnt_remove [of k hs1 h1 wired_pub] cnt_remove [of k "hs1[k := Some h1']" h1' wired_pub] k assms(4) by simp
  then show ?thesis using assms(1,3,5,6) by (simp add: owned_def list_all2_update_cong)
qed

lemma owned_frame:
  assumes "owned S topic seg t ob hs1 hs2" "publisher_count t' = publisher_count t" "h_pub_pid (header ob') = h_pub_pid (header ob)"
  shows "owned S topic seg t' ob' hs1 hs2"
  using assms by (simp add: owned_def)

lemma advertise_related:
  assumes tw: "twin S t ob" and ow: "owned S topic seg t ob hs1 hs2" and ln: "linked S topic seg t ob links hs3 hs4" and ok: "site_ok S"
    and "ownership qos = kExclusive" "reliability qos = kBestEffort"
    and "AddPublisher qos t = (st1, core, t')" "ClaimPublisherSlot (st_crash S) (st_alive S) (st_pid S) (ShmPubImpl_init\<lparr>sp_attached := True\<rparr>) ob = (st2, pub, ob')"
  shows "st1 = st2" "twin S t' ob'" "linked S topic seg t' ob' links hs3 hs4"
    "is_publisher ep \<Longrightarrow> ep_type ep = st_type S \<Longrightarrow> advertise_status ep = st1 \<Longrightarrow> st1 = Advertise_kOk \<Longrightarrow> ep_kind ep = PubImpl core \<Longrightarrow> ep_topic ep = Some topic \<Longrightarrow>
       owned S topic seg t' ob' (hs1 @ [Some (PubIP ep)]) (hs2 @ [Some (PubShm st2 seg pub LoanPool_init)])"
    "is_publisher ep \<Longrightarrow> ep_type ep = st_type S \<Longrightarrow> advertise_status ep = st1 \<Longrightarrow> st1 \<noteq> Advertise_kOk \<Longrightarrow> ep_kind ep = PubImpl None \<Longrightarrow> ep_topic ep = None \<Longrightarrow>
       owned S topic seg t' ob' (hs1 @ [Some (PubIP ep)]) (hs2 @ [Some (PubShm st2 seg (pub\<lparr>sp_attached := False\<rparr>) LoanPool_init)])"
proof -
  let ?c = "cnt wired_pub hs1"
  have c: "?c \<le> 1" "publisher_count t = of_nat ?c" "h_pub_pid (header ob) = (if ?c = 0 then 0 else st_pid S)" "list_all2 (pub_pair S topic seg) hs1 hs2"
    using ow by (simp_all add: owned_def)
  have me: "ProcessAlive (st_alive S) (st_pid S)" "st_pid S \<noteq> 0" using ok by (simp_all add: site_ok_def)
  have decl: "declared_ownership t = kExclusive" using tw by (simp add: twin_def)
  let ?ob = "upd_header (\<lambda>h. h\<lparr>h_pub_pid := st_pid S, h_pub_epoch := h_pub_epoch h + 1\<rparr>) ob"
  have cases: "?c = 0 \<and> st1 = Advertise_kOk \<and> st2 = Advertise_kOk \<and> core = Some (PubCore_init qos) \<and> ob' = ?ob \<and>
       t' = t\<lparr>declared_ownership := kExclusive, publisher_count := publisher_count t + 1\<rparr> \<and> pub = ShmPubImpl_init\<lparr>sp_attached := True, sp_owns_publisher_slot := True\<rparr> \<or>
     ?c = 1 \<and> st1 = Advertise_kOwnershipRefused \<and> st2 = Advertise_kOwnershipRefused \<and> core = None \<and> ob' = ob \<and> t' = t \<and> pub = ShmPubImpl_init\<lparr>sp_attached := True\<rparr>"
  proof (cases "?c = 0")
    case True
    then show ?thesis using assms(5,7,8) c by (auto simp: AddPublisher_def ClaimPublisherSlot_def repair_all_id [OF ok])
  next
    case False
    then have "?c = 1" using c(1) by simp
    then show ?thesis using assms(5,7,8) c me decl by (auto simp: AddPublisher_def ClaimPublisherSlot_def)
  qed
  then show "st1 = st2" by auto
  have frame: "region ?ob j = region ob j" "wf_segment ?ob = wf_segment ob" "versions_ok (header ?ob) = versions_ok (header ob)"
    "type_ok d (header ?ob) = type_ok d (header ob)" "layout_ok d (header ?ob) = layout_ok d (header ob)" "slot_at ?ob j = slot_at ob j" for j d
    by (simp_all add: upd_header_def region_def slot_at_def wf_segment_def versions_ok_def type_ok_def layout_ok_def)
  have wf: "wf_topic t \<Longrightarrow> wf_topic (t\<lparr>declared_ownership := kExclusive, publisher_count := n\<rparr>)" for n by (simp add: wf_topic_def)
  have "twin S (t\<lparr>declared_ownership := kExclusive, publisher_count := n\<rparr>) ?ob" for n
    using tw frame wf unfolding twin_def by (simp add: upd_header_def)
  then show "twin S t' ob'" using cases tw by auto
  have "linked S topic seg (t\<lparr>declared_ownership := kExclusive, publisher_count := n\<rparr>) ?ob links hs3 hs4" for n
  proof -
    have "sub_pair S topic seg (t\<lparr>declared_ownership := kExclusive, publisher_count := n\<rparr>) ?ob (links ! k) (hs3 ! k) (hs4 ! k)" if "k < length links" for k
      by (rule pair_kept [OF ln that]) (use tw frame in \<open>simp_all add: twin_def\<close>)
    then show ?thesis using ln frame(6) by (simp add: linked_def connected_def)
  qed
  then show "linked S topic seg t' ob' links hs3 hs4" using cases ln by auto
  show "owned S topic seg t' ob' (hs1 @ [Some (PubIP ep)]) (hs2 @ [Some (PubShm st2 seg pub LoanPool_init)])"
    if "is_publisher ep" "ep_type ep = st_type S" "advertise_status ep = st1" "st1 = Advertise_kOk" "ep_kind ep = PubImpl core" "ep_topic ep = Some topic"
    using cases that c assms(6) by (auto simp: owned_def wired_pub_def pub_pair_def PubCore_init_def ShmPubImpl_init_def upd_header_def list_all2_appendI)
  show "owned S topic seg t' ob' (hs1 @ [Some (PubIP ep)]) (hs2 @ [Some (PubShm st2 seg (pub\<lparr>sp_attached := False\<rparr>) LoanPool_init)])"
    if "is_publisher ep" "ep_type ep = st_type S" "advertise_status ep = st1" "st1 \<noteq> Advertise_kOk" "ep_kind ep = PubImpl None" "ep_topic ep = None"
    using cases that c by (auto simp: owned_def wired_pub_def pub_pair_def ShmPubImpl_init_def list_all2_appendI)
qed

lemma header_frame:
  assumes "ob' = upd_header (\<lambda>h. h\<lparr>h_pub_pid := p\<rparr>) ob" "t' = t\<lparr>publisher_count := n\<rparr>"
  shows "twin S t' ob' = twin S t ob" "linked S topic seg t ob links hs1 hs2 \<Longrightarrow> wf_segment ob \<Longrightarrow> linked S topic seg t' ob' links hs1 hs2"
proof -
  have frame: "region ob' j = region ob j" "wf_segment ob' = wf_segment ob" "slot_at ob' j = slot_at ob j" for j
    by (simp_all add: assms(1) upd_header_def region_def slot_at_def wf_segment_def)
  have "wf_topic t' = wf_topic t" by (simp add: assms(2) wf_topic_def)
  then show "twin S t' ob' = twin S t ob"
    unfolding twin_def frame by (simp add: assms upd_header_def versions_ok_def type_ok_def layout_ok_def)
  assume ln: "linked S topic seg t ob links hs1 hs2" and wf: "wf_segment ob"
  have "sub_pair S topic seg t' ob' (links ! k) (hs1 ! k) (hs2 ! k)" if "k < length links" for k
    by (rule pair_kept [OF ln that]) (use wf frame in \<open>simp_all add: assms(2)\<close>)
  then show "linked S topic seg t' ob' links hs1 hs2" using ln frame(3) by (simp add: linked_def connected_def assms(2))
qed

lemma withdraw_related:
  assumes tw: "twin S t ob" and ow: "owned S topic seg t ob hs1 hs2" and ln: "linked S topic seg t ob links hs3 hs4" and ok: "site_ok S"
    and "handle_at hs1 k = Some (PubIP ep)" "ep_topic ep = Some topic" "sp_attached pub" "sp_owns_publisher_slot pub"
  defines "t' \<equiv> RemovePublisher t" and "ob' \<equiv> ShmPubImpl_dtor (st_pid S) pub ob"
  shows "twin S t' ob'" "linked S topic seg t' ob' links hs3 hs4" "owned S topic seg t' ob' (hs1[k := None]) (hs2[k := None])"
proof -
  note k = handle_at_Some [OF assms(5)]
  have rm: "cnt wired_pub hs1 = cnt wired_pub (hs1[k := None]) + 1" using cnt_remove [of k hs1 "PubIP ep" wired_pub] k assms(6) by (simp add: wired_pub_def)
  have c: "cnt wired_pub hs1 \<le> 1" "publisher_count t = of_nat (cnt wired_pub hs1)" "h_pub_pid (header ob) = (if cnt wired_pub hs1 = 0 then 0 else st_pid S)"
    "list_all2 (pub_pair S topic seg) hs1 hs2" using ow by (simp_all add: owned_def)
  have one: "cnt wired_pub hs1 = 1" "cnt wired_pub (hs1[k := None]) = 0" using rm c(1) by simp_all
  have ob': "ob' = upd_header (\<lambda>h. h\<lparr>h_pub_pid := 0\<rparr>) ob" using assms(7,8) c(3) one by (simp add: ob'_def ShmPubImpl_dtor_def)
  have t': "t' = t\<lparr>publisher_count := publisher_count t - 1\<rparr>" by (simp add: t'_def RemovePublisher_def)
  note f = header_frame [OF ob' t']
  have wf: "wf_segment ob" using tw by (simp add: twin_def)
  show "twin S t' ob'" using tw by (simp add: f(1))
  show "linked S topic seg t' ob' links hs3 hs4" by (rule f(2) [OF ln wf])
  have "list_all2 (pub_pair S topic seg) (hs1[k := None]) (hs2[k := None])" by (rule list_all2_update_cong [OF c(4)]) (simp add: pub_pair_def)
  then show "owned S topic seg t' ob' (hs1[k := None]) (hs2[k := None])" using c one by (simp add: owned_def ob' t' upd_header_def)
qed

end
