(* ===== verification/Reach_Properties.thy ===== *)
theory Reach_Properties
  imports Reach_Relation
begin

text \<open>
  Portability of the verbs: a program that stays within what the shared-memory reach supports sees the same results, sample by sample
  and count by count, on both reaches. The proof is a lock-step simulation between the registry entry of the topic and its segment.
\<close>

section \<open>Lock-step simulation\<close>

fun run_calls :: "('call \<Rightarrow> 's \<Rightarrow> ('r \<times> 's) option) \<Rightarrow> 'call list \<Rightarrow> 's \<Rightarrow> ('r list \<times> 's) option" where
  "run_calls step [] s = Some ([], s)"
| "run_calls step (c # cs) s = (case step c s of None \<Rightarrow> None
   | Some (r, s') \<Rightarrow> (case run_calls step cs s' of None \<Rightarrow> None | Some (rs, s'') \<Rightarrow> Some (r # rs, s'')))"

text \<open>Every call of the list is admissible in the state it meets.\<close>

fun admissible :: "('call \<Rightarrow> 's \<Rightarrow> bool) \<Rightarrow> ('call \<Rightarrow> 's \<Rightarrow> ('r \<times> 's) option) \<Rightarrow> 'call list \<Rightarrow> 's \<Rightarrow> bool" where
  "admissible ok step [] s \<longleftrightarrow> True"
| "admissible ok step (c # cs) s \<longleftrightarrow> ok c s \<and> (case step c s of None \<Rightarrow> True | Some (_, s') \<Rightarrow> admissible ok step cs s')"

locale lockstep =
  fixes step1 :: "'call \<Rightarrow> 's \<Rightarrow> ('r \<times> 's) option" and step2 :: "'call \<Rightarrow> 't \<Rightarrow> ('r \<times> 't) option"
    and ok :: "'call \<Rightarrow> 's \<Rightarrow> bool" and related :: "'s \<Rightarrow> 't \<Rightarrow> bool"
  assumes simulate: "related s t \<Longrightarrow> ok c s \<Longrightarrow> \<exists>r s' t'. step1 c s = Some (r, s') \<and> step2 c t = Some (r, t') \<and> related s' t'"
begin

lemma same_results:
  "related s t \<Longrightarrow> admissible ok step1 cs s \<Longrightarrow>
     \<exists>rs s' t'. run_calls step1 cs s = Some (rs, s') \<and> run_calls step2 cs t = Some (rs, t') \<and> related s' t'"
proof (induction cs arbitrary: s t)
  case (Cons c cs)
  then obtain r s' t' where step: "step1 c s = Some (r, s')" "step2 c t = Some (r, t')" "related s' t'"
    using simulate [of s t c] by auto
  with Cons show ?case using Cons.IH [OF step(3)] by fastforce
qed simp

end

section \<open>The simulation\<close>

lemma reach_relI:
  assumes "site_ok S" "ap_carrier w1 = (ds, fs0)" "ap_carrier w2 = (ds0, fs)" "topic_at ds topic = Some (TopicE t)" "fs seg = Some ob"
    "twin S t ob" "owned S topic seg t ob (ap_pubs w1) (ap_pubs w2)" "linked S topic seg t ob links (ap_subs w1) (ap_subs w2)"
  shows "reach_rel S topic seg w1 w2"
  using assms by (auto simp: reach_rel_def)

lemma reach_relE:
  assumes "reach_rel S topic seg w1 w2"
  obtains (empty) "ap_pubs w1 = []" "ap_subs w1 = []" "ap_pubs w2 = []" "ap_subs w2 = []"
  | (wired) ds fs0 ds0 fs t ob links where "ap_carrier w1 = (ds, fs0)" "ap_carrier w2 = (ds0, fs)" "topic_at ds topic = Some (TopicE t)" "fs seg = Some ob"
    "twin S t ob" "owned S topic seg t ob (ap_pubs w1) (ap_pubs w2)" "linked S topic seg t ob links (ap_subs w1) (ap_subs w2)"
proof -
  obtain ds fs0 ds0 fs where c: "ap_carrier w1 = (ds, fs0)" "ap_carrier w2 = (ds0, fs)" by fastforce
  show thesis
    using assms c empty wired [OF c] by (auto simp: reach_rel_def split: option.splits entry.splits)
qed

lemma reach_wired:
  assumes "reach_rel S topic seg w1 w2" "handle_at (ap_pubs w1) k \<noteq> None \<or> handle_at (ap_subs w1) k \<noteq> None"
  obtains ds fs0 ds0 fs t ob links where "ap_carrier w1 = (ds, fs0)" "ap_carrier w2 = (ds0, fs)" "topic_at ds topic = Some (TopicE t)" "fs seg = Some ob"
    "twin S t ob" "owned S topic seg t ob (ap_pubs w1) (ap_pubs w2)" "linked S topic seg t ob links (ap_subs w1) (ap_subs w2)"
  using assms(1)
proof (cases rule: reach_relE)
  case empty
  then show thesis using assms(2) by (simp add: handle_at_def)
next
  case wired
  then show thesis by (rule that)
qed

definition in_process_domain :: "nat \<Rightarrow> DomainImpl option" where
  "in_process_domain i = Some \<lparr>reach = Reach_kInProcess, impl_state = Some i, shm_key = []\<rparr>"

definition posix_shm_domain :: "string \<Rightarrow> DomainImpl option" where
  "posix_shm_domain key = Some \<lparr>reach = Reach_kPosixShm, impl_state = None, shm_key = key\<rparr>"

text \<open>The two runs, one per reach, agree on a call.\<close>

definition agree :: "('a, 's, 'q, 'c) site \<Rightarrow> string \<Rightarrow> string \<Rightarrow> (('a, 'c) api_result \<times> ('a, 's, 'q, 'req, 'rsp) app) option \<Rightarrow>
  (('a, 'c) api_result \<times> ('a, 's, 'q, 'req, 'rsp) app) option \<Rightarrow> bool" where
  "agree S topic seg o1 o2 \<longleftrightarrow> (\<exists>r w1 w2. o1 = Some (r, w1) \<and> o2 = Some (r, w2) \<and> reach_rel S topic seg w1 w2)"

lemma agreeI: "o1 = Some (r, w1) \<Longrightarrow> o2 = Some (r, w2) \<Longrightarrow> reach_rel S topic seg w1 w2 \<Longrightarrow> agree S topic seg o1 o2"
  by (simp add: agree_def)

lemma advertise_agrees:
  assumes rel: "reach_rel S topic (ShmSegmentName key topic) w1 w2" and key: "key \<noteq> []" and q: "ownership qos = kExclusive" "reliability qos = kBestEffort"
  shows "agree S topic (ShmSegmentName key topic) (api_step S (in_process_domain n) topic (A_Advertise qos) w1)
    (api_step S (posix_shm_domain key) topic (A_Advertise qos) w2)"
proof -
  let ?X = "st_base S" and ?seg = "ShmSegmentName key topic"
  obtain ds fs0 ds0 fs where c: "ap_carrier w1 = (ds, fs0)" "ap_carrier w2 = (ds0, fs)" by fastforce
  have ok: "site_ok S" using rel by (simp add: reach_rel_def)
  then have site: "st_has_posix_shm S" "st_trivially_copyable S" by (simp_all add: site_ok_def)
  from attach_related [OF rel c, of qos] obtain t ob links ds1 fs1 where a:
    "find_or_make topic (TopicE (Topic_init ?X topic (id_hash (st_id S)) (st_type S))) ds = (TopicE t, ds1)"
    "Attach ?X (st_os S (fs ?seg \<noteq> None)) ?seg (st_pid S) (st_id S) qos (st_blank S) fs = (Attach_kOk, fs1)" "fs1 ?seg = Some ob"
    "twin S t ob" "owned S topic ?seg t ob (ap_pubs w1) (ap_pubs w2)" "linked S topic ?seg t ob links (ap_subs w1) (ap_subs w2)" .
  obtain st1 and core :: "'a PubCore option" and t' where ap: "AddPublisher qos t = (st1, core, t')" by (metis prod_cases3)
  obtain st2 pub ob' where cl: "ClaimPublisherSlot (st_crash S) (st_alive S) (st_pid S) (ShmPubImpl_init\<lparr>sp_attached := True\<rparr>) ob = (st2, pub, ob')"
    by (metis prod_cases3)
  note r = advertise_related [OF a(4,5,6) ok q ap cl]
  have ty: "schema_hash t = id_hash (st_id S)" "type_id t = st_type S" using a(4) by (simp_all add: twin_def)
  let ?init = "(EndpointImpl_init (PubImpl None) (st_type S))\<lparr>is_publisher := True\<rparr>"
  let ?ep = "if st1 = Advertise_kOk then ?init\<lparr>ep_kind := PubImpl core, ep_topic := Some topic, advertise_status := st1\<rparr> else ?init\<lparr>advertise_status := st1\<rparr>"
  let ?ds = "if st1 = Advertise_kOk then register topic (TopicE t') ds1 else put_topic topic (TopicE t') ds1"
  let ?pub = "if st1 = Advertise_kOk then pub else pub\<lparr>sp_attached := False\<rparr>"
  have ip: "api_step S (in_process_domain n) topic (A_Advertise qos) w1 =
      Some (R_Advertise st1, w1\<lparr>ap_carrier := (?ds, fs0), ap_pubs := ap_pubs w1 @ [Some (PubIP ?ep)]\<rparr>)"
    using a(1) ap ty by (simp add: Domain_Advertise_def c shm_route_def in_process_domain_def Advertise_def Publisher_status_def)
  have shm: "api_step S (posix_shm_domain key) topic (A_Advertise qos) w2 =
      Some (R_Advertise st1, w2\<lparr>ap_carrier := (ds0, upd_fs ?seg ob' fs1), ap_pubs := ap_pubs w2 @ [Some (PubShm st2 ?seg ?pub LoanPool_init)]\<rparr>)"
    using a(2,3) cl r(1) site key q
    by (simp add: Domain_Advertise_def c shm_route_def posix_shm_domain_def ShmAdvertiseImpl_def Publisher_status_def Let_def)
  have "owned S topic ?seg t' ob' (ap_pubs w1 @ [Some (PubIP ?ep)]) (ap_pubs w2 @ [Some (PubShm st2 ?seg ?pub LoanPool_init)])"
    using r(4) [of ?ep] r(5) [of ?ep] by (cases "st1 = Advertise_kOk") (simp_all add: EndpointImpl_init_def)
  then show ?thesis
    by (intro agreeI [OF ip shm] reach_relI [where t = t' and ob = ob' and links = links and ds = ?ds and fs = "upd_fs ?seg ob' fs1", OF ok])
      (use r(2,3) in \<open>auto simp: upd_fs_def\<close>)
qed

lemma subscribe_agrees:
  assumes rel: "reach_rel S topic (ShmSegmentName key topic) w1 w2" and key: "key \<noteq> []" and room: "cnt (\<lambda>_. True) (ap_subs w1) < kShmMaxSubscribers"
    and q: "hist_kind (history qos) = kQueue \<Longrightarrow> 0 < hist_depth (history qos) \<and> hist_depth (history qos) \<le> kShmRingCapacity"
  shows "agree S topic (ShmSegmentName key topic) (api_step S (in_process_domain n) topic (A_Subscribe qos) w1)
    (api_step S (posix_shm_domain key) topic (A_Subscribe qos) w2)"
proof -
  let ?X = "st_base S" and ?seg = "ShmSegmentName key topic"
  obtain ds fs0 ds0 fs where c: "ap_carrier w1 = (ds, fs0)" "ap_carrier w2 = (ds0, fs)" by fastforce
  have ok: "site_ok S" using rel by (simp add: reach_rel_def)
  then have site: "st_has_posix_shm S" "st_trivially_copyable S" by (simp_all add: site_ok_def)
  from attach_related [OF rel c, of qos] obtain t ob links ds1 fs1 where a:
    "find_or_make topic (TopicE (Topic_init ?X topic (id_hash (st_id S)) (st_type S))) ds = (TopicE t, ds1)"
    "Attach ?X (st_os S (fs ?seg \<noteq> None)) ?seg (st_pid S) (st_id S) qos (st_blank S) fs = (Attach_kOk, fs1)" "fs1 ?seg = Some ob"
    "twin S t ob" "owned S topic ?seg t ob (ap_pubs w1) (ap_pubs w2)" "linked S topic ?seg t ob links (ap_subs w1) (ap_subs w2)" .
  have q': "hist_kind (history qos) = kQueue \<Longrightarrow> hist_depth (history qos) \<noteq> 0" using q by auto
  let ?n = "length (sub_retained t)"
  let ?ep = "(EndpointImpl_init (SubImpl None) (st_type S))\<lparr>ep_kind := SubImpl (Some (Retained ?n)), ep_topic := Some topic, subscribe_status := Subscribe_kOk\<rparr>"
  note sr = subscribe_related [OF a(4,6) ok room q']
  obtain sub ob' t' where s:
    "ClaimSubscriberSlot ?X (st_crash S) (st_alive S) (st_pid S) (ShmSubImpl_init qos) ob = Some (sub, ob')"
    "AddSubscriber ?X qos t = (Retained ?n, t')" "twin S t' ob'" "publisher_count t' = publisher_count t" "h_pub_pid (header ob') = h_pub_pid (header ob)"
    and l: "\<And>ep. ep_kind ep = SubImpl (Some (Retained ?n)) \<Longrightarrow> ep_topic ep = Some topic \<Longrightarrow> \<not> is_publisher ep \<Longrightarrow> ep_type ep = st_type S \<Longrightarrow> subscribe_status ep = Subscribe_kOk \<Longrightarrow>
       \<exists>links'. linked S topic ?seg t' ob' links' (ap_subs w1 @ [Some (SubIP ep)]) (ap_subs w2 @ [Some (SubShm Subscribe_kOk ?seg sub)])"
    by (rule sr) blast+
  have ty: "schema_hash t = id_hash (st_id S)" "type_id t = st_type S" using a(4) by (simp_all add: twin_def)
  have ip: "api_step S (in_process_domain n) topic (A_Subscribe qos) w1 = Some (R_Subscribe Subscribe_kOk,
      w1\<lparr>ap_carrier := (register topic (TopicE t') ds1, fs0), ap_subs := ap_subs w1 @ [Some (SubIP ?ep)]\<rparr>)"
    using a(1) s(2) ty by (simp add: Domain_Subscribe_def c shm_route_def in_process_domain_def Subscribe_def Subscriber_status_def)
  have "\<not> (hist_kind (history qos) = kQueue \<and> hist_depth (history qos) > kShmRingCapacity)" using q by auto
  then have shm: "api_step S (posix_shm_domain key) topic (A_Subscribe qos) w2 = Some (R_Subscribe Subscribe_kOk,
      w2\<lparr>ap_carrier := (ds0, upd_fs ?seg ob' fs1), ap_subs := ap_subs w2 @ [Some (SubShm Subscribe_kOk ?seg sub)]\<rparr>)"
    using a(2,3) s(1) site key
    by (simp add: Domain_Subscribe_def c shm_route_def posix_shm_domain_def ShmSubscribeImpl_def Subscriber_status_def Let_def)
  from l [of ?ep] obtain links' where "linked S topic ?seg t' ob' links' (ap_subs w1 @ [Some (SubIP ?ep)]) (ap_subs w2 @ [Some (SubShm Subscribe_kOk ?seg sub)])"
    by (auto simp: EndpointImpl_init_def)
  then show ?thesis
    by (intro agreeI [OF ip shm] reach_relI [where t = t' and ob = ob' and links = links' and ds = "register topic (TopicE t') ds1"
        and fs = "upd_fs ?seg ob' fs1", OF ok])
      (use s(3) owned_frame [OF a(5) s(4,5)] in \<open>auto simp: upd_fs_def\<close>)
qed

text \<open>A handle that may stand at position \<open>k\<close> of a handle list without changing who is wired.\<close>

definition kin :: "('a, 's, 'q) pub_handle option list \<Rightarrow> nat \<Rightarrow> ('a, 's, 'q) pub_handle option \<Rightarrow> bool" where
  "kin hs k h = (case h of None \<Rightarrow> handle_at hs k = None | Some p \<Rightarrow> \<exists>q. handle_at hs k = Some q \<and> wired_pub p = wired_pub q)"

lemma kin_refl [simp]: "kin hs k (handle_at hs k)"
  by (simp add: kin_def split: option.splits)

lemma owned_put:
  assumes "owned S topic seg t ob hs1 hs2" "kin hs1 k g1" "pub_pair S topic seg g1 g2"
    "publisher_count t' = publisher_count t" "h_pub_pid (header ob') = h_pub_pid (header ob)"
  shows "owned S topic seg t' ob' (hs1[k := g1]) (hs2[k := g2])"
proof (cases g1)
  case None
  then have "g2 = None" "handle_at hs1 k = None" using assms(2,3) by (auto simp: pub_pair_def kin_def)
  moreover have "handle_at hs2 k = None" using owned_handle(1) [OF assms(1), of k] calculation(2) by (auto simp: pub_pair_def)
  ultimately show ?thesis using None owned_frame [OF assms(1,4,5)] by simp
next
  case (Some p)
  then obtain q where "handle_at hs1 k = Some q" "wired_pub p = wired_pub q" using assms(2) by (auto simp: kin_def)
  moreover obtain p2 where "g2 = Some p2" using assms(3) Some by (auto simp: pub_pair_def)
  ultimately show ?thesis using owned_update [OF assms(1)] assms(3-5) Some by simp
qed

lemma put_pub_empty: "ap_pubs w = [] \<Longrightarrow> put_pub k g (ap_carrier w) w = w"
  by (cases w) (simp add: put_pub_def)

lemma put_same:
  assumes "reach_rel S topic seg w1 w2" "pub_pair S topic seg g1 g2" "kin (ap_pubs w1) k g1"
  shows "reach_rel S topic seg (put_pub k g1 (ap_carrier w1) w1) (put_pub k g2 (ap_carrier w2) w2)"
  using assms(1)
proof (cases rule: reach_relE)
  case empty
  then show ?thesis using assms(1) by (simp add: put_pub_empty)
next
  case (wired ds fs0 ds0 fs t ob links)
  have "site_ok S" using assms(1) by (simp add: reach_rel_def)
  then show ?thesis by (rule reach_relI [where links = links and ds = ds and fs = fs and ob = ob])
    (use wired owned_put [OF wired(6) assms(3,2) refl refl] in \<open>simp_all add: put_pub_def\<close>)
qed

lemma publish_agrees:
  assumes rel: "reach_rel S topic seg w1 w2" and pair: "pub_pair S topic seg h1 h2" and kin: "kin (ap_pubs w1) k h1"
  obtains r h1' h2' cr1 cr2 where "Handle_Publish S ctx now val derived h1 (ap_carrier w1) = Some (r, h1', cr1)"
    "Handle_Publish S ctx now val derived h2 (ap_carrier w2) = Some (r, h2', cr2)" "pub_pair S topic seg h1' h2'" "kin (ap_pubs w1) k h1'"
    "\<And>g1 g2. pub_pair S topic seg g1 g2 \<Longrightarrow> kin (ap_pubs w1) k g1 \<Longrightarrow> reach_rel S topic seg (put_pub k g1 cr1 w1) (put_pub k g2 cr2 w2)"
proof -
  have ok: "site_ok S" using rel by (simp add: reach_rel_def)
  note same = put_same [OF rel]
  consider (idle) "Handle_Publish S ctx now val derived h1 (ap_carrier w1) = Some (Publish_kOk, h1, ap_carrier w1)"
      "Handle_Publish S ctx now val derived h2 (ap_carrier w2) = Some (Publish_kOk, h2, ap_carrier w2)"
    | (busy) ep core pub pool where "h1 = Some (PubIP ep)" "h2 = Some (PubShm Advertise_kOk seg pub pool)" "is_publisher ep" "ep_kind ep = PubImpl (Some core)"
      "ep_topic ep = Some topic" "advertise_status ep = Advertise_kOk" "sp_attached pub" "sp_owns_publisher_slot pub" "pub_reliability core = kBestEffort"
      "publish_count core = sp_publish_count pub" "refused_count core = sp_refused_count pub" "pub_pool core = pool" "ep_type ep = st_type S"
    using pair by (auto simp: pub_pair_def Handle_Publish_def Publisher_Publish_def split: prod.splits)
  then show thesis
  proof cases
    case idle
    show thesis by (rule that [OF idle pair kin]) (rule same)
  next
    case busy
    have "handle_at (ap_pubs w1) k \<noteq> None" using kin busy(1) by (auto simp: kin_def)
    then obtain ds fs0 ds0 fs t ob links where w: "ap_carrier w1 = (ds, fs0)" "ap_carrier w2 = (ds0, fs)" "topic_at ds topic = Some (TopicE t)"
      "fs seg = Some ob" "twin S t ob" "owned S topic seg t ob (ap_pubs w1) (ap_pubs w2)" "linked S topic seg t ob links (ap_subs w1) (ap_subs w2)"
      using reach_wired [OF rel] by metis
    let ?sz = "id_size (st_id S)"
    obtain st pub' ob' where sp: "Shm_Publish (st_base S) ?sz ctx now val derived pub ob = (st, pub', ob')" by (metis prod_cases3)
    obtain st1 core' t' where dl: "Deliver (st_base S) ?sz ctx now core val derived t = (st1, core', t')" by (metis prod_cases3)
    note r = publish_related [OF w(5,7) ok busy(9) sp dl]
    note ph = Publish_header(2) [OF sp]
    let ?h1 = "Some (PubIP (ep\<lparr>ep_kind := PubImpl (Some core')\<rparr>))" and ?h2 = "Some (PubShm Advertise_kOk seg pub' pool)"
    have ty: "type_id t = ep_type ep" using w(5) busy(13) by (simp add: twin_def)
    have hp: "Handle_Publish S ctx now val derived h1 (ap_carrier w1) = Some (st, ?h1, put_topic topic (TopicE t') ds, fs0)"
      "Handle_Publish S ctx now val derived h2 (ap_carrier w2) = Some (st, ?h2, ds0, upd_fs seg ob' fs)"
      using busy w(1-4) sp dl r(1) ty by (simp_all add: Handle_Publish_def Publisher_Publish_def)
    have "pub_pair S topic seg ?h1 ?h2" using busy by (simp add: pub_pair_def r(2) ph note_publish_def)
    moreover have "kin (ap_pubs w1) k ?h1" using kin busy by (auto simp: kin_def wired_pub_def)
    ultimately show thesis
    proof (rule that [OF hp])
      fix g1 g2 assume g: "pub_pair S topic seg g1 g2" "kin (ap_pubs w1) k g1"
      show "reach_rel S topic seg (put_pub k g1 (put_topic topic (TopicE t') ds, fs0) w1) (put_pub k g2 (ds0, upd_fs seg ob' fs) w2)"
        by (rule reach_relI [OF ok, of _ "put_topic topic (TopicE t') ds" fs0 _ ds0 "upd_fs seg ob' fs" topic t' seg ob' links])
          (use r(3,4) owned_put [OF w(6) g(2,1) r(5,6)] in \<open>simp_all add: put_pub_def upd_fs_def\<close>)
    qed
  qed
qed

lemma reach_handles:
  assumes "reach_rel S topic seg w1 w2"
  shows "pub_pair S topic seg (handle_at (ap_pubs w1) k) (handle_at (ap_pubs w2) k)" "handle_at (ap_subs w1) k = None \<longleftrightarrow> handle_at (ap_subs w2) k = None"
proof -
  show "pub_pair S topic seg (handle_at (ap_pubs w1) k) (handle_at (ap_pubs w2) k)"
    using assms
  proof (cases rule: reach_relE)
    case empty
    then show ?thesis by (simp add: handle_at_def pub_pair_def)
  next
    case wired
    show ?thesis by (rule owned_handle(1) [OF wired(6)])
  qed
  show "handle_at (ap_subs w1) k = None \<longleftrightarrow> handle_at (ap_subs w2) k = None"
    using assms
  proof (cases rule: reach_relE)
    case empty
    then show ?thesis by (simp add: handle_at_def)
  next
    case wired
    show ?thesis by (rule handle_pair [OF wired(7), of k]) (auto simp: sub_pair_def)
  qed
qed

lemma publish_step:
  assumes "reach_rel S topic seg w1 w2"
  shows "agree S topic seg (api_step S d1 topic (A_Publish k ctx now val) w1) (api_step S d2 topic (A_Publish k ctx now val) w2)"
proof -
  note p = publish_agrees [OF assms reach_handles(1) [OF assms, of k] kin_refl]
  from p [of ctx now val None] obtain r h1 h2 cr1 cr2 where p:
    "Handle_Publish S ctx now val None (handle_at (ap_pubs w1) k) (ap_carrier w1) = Some (r, h1, cr1)"
    "Handle_Publish S ctx now val None (handle_at (ap_pubs w2) k) (ap_carrier w2) = Some (r, h2, cr2)"
    "reach_rel S topic seg (put_pub k h1 cr1 w1) (put_pub k h2 cr2 w2)" by metis
  then show ?thesis by (auto simp: agree_def)
qed

text \<open>Both handles of a pair lend from the same pool, and exchanging it keeps the pair.\<close>

lemma pool_pair:
  assumes "pub_pair S topic seg h1 h2"
  shows "Option.bind h1 handle_pool = Option.bind h2 handle_pool"
    "pub_pair S topic seg (map_option (set_handle_pool pool) h1) (map_option (set_handle_pool pool) h2)"
  using assms by (auto simp: pub_pair_def handle_pool_def set_handle_pool_def)

lemma kin_pool: "kin hs k h \<Longrightarrow> kin hs k (map_option (set_handle_pool pool) h)"
proof -
  have "wired_pub (set_handle_pool pool p) = wired_pub p" for p :: "('a, 'b, 'c) pub_handle"
    by (auto simp: wired_pub_def set_handle_pool_def split: pub_handle.splits impl_kind.splits option.splits)
  then show "kin hs k h \<Longrightarrow> kin hs k (map_option (set_handle_pool pool) h)" by (auto simp: kin_def split: option.splits)
qed

lemma loan_pair:
  assumes "pub_pair S topic seg h1 h2" "Handle_Loan h1 = (slot, h1')" "Handle_Loan h2 = (slot2, h2')" "kin hs k h1"
  shows "slot = slot2" "pub_pair S topic seg h1' h2'" "kin hs k h1'"
  using assms pool_pair [OF assms(1)] kin_pool [OF assms(4)] by (auto simp: Handle_Loan_def split: option.splits prod.splits)

lemma write_pair:
  assumes "pub_pair S topic seg h1 h2" "kin hs k h1"
  shows "pub_pair S topic seg (loan_write i v h1) (loan_write i v h2)" "kin hs k (loan_write i v h1)"
  using assms pool_pair [OF assms(1)] kin_pool [OF assms(2)] by (auto simp: loan_write_def split: option.splits)

lemma bind_set_pool: "Option.bind h handle_pool \<noteq> None \<Longrightarrow> Option.bind (map_option (set_handle_pool pool) h) handle_pool = Some pool"
  by (cases h) (auto simp: handle_pool_def set_handle_pool_def split: pub_handle.splits impl_kind.splits option.splits if_splits)

lemma loan_has_pool: "Handle_Loan h = (Some i, h') \<Longrightarrow> Option.bind (loan_write i v h') handle_pool \<noteq> None"
  by (auto simp: Handle_Loan_def loan_write_def bind_set_pool split: option.splits prod.splits)

lemma loan_step:
  assumes rel: "reach_rel S topic seg w1 w2"
  shows "agree S topic seg (api_step S d1 topic (A_PublishLoan k ctx now val upstream) w1) (api_step S d2 topic (A_PublishLoan k ctx now val upstream) w2)"
proof -
  let ?h1 = "handle_at (ap_pubs w1) k" and ?h2 = "handle_at (ap_pubs w2) k"
  obtain slot h1 where l1: "Handle_Loan ?h1 = (slot, h1)" by fastforce
  obtain slot2 h2 where l2: "Handle_Loan ?h2 = (slot2, h2)" by fastforce
  note l = loan_pair [OF reach_handles(1) [OF rel] l1 l2 kin_refl]
  show ?thesis
  proof (cases slot)
    case None
    show ?thesis using put_same [OF rel l(2,3)] None l1 l2 l(1) by (auto simp: agree_def)
  next
    case (Some i)
    note w = write_pair [OF l(2,3), of i val]
    obtain pool where pool: "Option.bind (loan_write i val h1) handle_pool = Some pool" using loan_has_pool [of ?h1 i h1 val] l1 Some by auto
    then have pool2: "Option.bind (loan_write i val h2) handle_pool = Some pool" using pool_pair(1) [OF w(1)] by simp
    let ?v = "case cells pool ! i of None \<Rightarrow> st_default S | Some v \<Rightarrow> v"
    from publish_agrees [OF rel w, of ctx now ?v "derive_info upstream"] obtain r g1 g2 cr1 cr2 where p:
      "Handle_Publish S ctx now ?v (derive_info upstream) (loan_write i val h1) (ap_carrier w1) = Some (r, g1, cr1)"
      "Handle_Publish S ctx now ?v (derive_info upstream) (loan_write i val h2) (ap_carrier w2) = Some (r, g2, cr2)"
      "pub_pair S topic seg g1 g2" "kin (ap_pubs w1) k g1"
      "\<And>e1 e2. pub_pair S topic seg e1 e2 \<Longrightarrow> kin (ap_pubs w1) k e1 \<Longrightarrow> reach_rel S topic seg (put_pub k e1 cr1 w1) (put_pub k e2 cr2 w2)" by metis
    let ?g = "map_option (set_handle_pool (Release i pool))"
    have "reach_rel S topic seg (put_pub k (?g g1) cr1 w1) (put_pub k (?g g2) cr2 w2)"
      by (rule p(5) [OF pool_pair(2) [OF p(3)] kin_pool [OF p(4)]])
    then show ?thesis using Some l1 l2 l(1) pool pool2 p(1,2) by (auto simp: agree_def Handle_PublishDerived_def Let_def)
  qed
qed

lemma put_sub_absent: "handle_at (ap_subs w) k = None \<Longrightarrow> put_sub k None (ap_carrier w) w = w"
  by (cases w) (simp add: put_sub_def)

lemma latest_refines:
  assumes "consistent X sub i ob" "never_stalls X C" "shm_core sub i ob = strip c" "TakeLatestSample X C now sub ob = (smp, sub', ob')" "TakeLatest X now c = (smp1, c')"
  shows "smp = smp1 \<and> consistent X sub' i ob' \<and> shm_core sub' i ob' = strip c' \<and> own_write i ob ob'"
  using verb_refines(1) [OF assms] take_latest_own_write [OF _ assms(4), of i] assms(1) by (simp add: consistent_def holds_slot_def)

lemma try_refines:
  assumes "consistent X sub i ob" "shm_core sub i ob = strip c" "TryTakeSample X now sub ob = (smp, sub', ob')" "TryTake X now c = (smp1, c')"
  shows "smp = smp1 \<and> consistent X sub' i ob' \<and> shm_core sub' i ob' = strip c' \<and> own_write i ob ob'"
proof -
  let ?C = "\<lparr>load_bounded = (\<lambda>m. case slot_load X m of None \<Rightarrow> LR_kEmpty | Some r \<Rightarrow> LR_kValue r), repair = (\<lambda>m. m)\<rparr>"
  have "never_stalls X ?C" by (simp add: never_stalls_def)
  from verb_refines(2) [OF assms(1) this assms(2-4)] show ?thesis
    using try_take_own_write [OF _ assms(3), of i] assms(1) by (simp add: consistent_def holds_slot_def)
qed

text \<open>A take verb that refines core by core agrees on both reaches.\<close>

lemma take_agrees:
  assumes rel: "reach_rel S topic seg w1 w2"
    and refine: "\<And>sub i ob c smp sub' ob' smp1 c'. consistent (st_base S) sub i ob \<Longrightarrow> shm_core sub i ob = strip c \<Longrightarrow> g sub ob = (smp, sub', ob') \<Longrightarrow>
      f c = (smp1, c') \<Longrightarrow> smp = smp1 \<and> consistent (st_base S) sub' i ob' \<and> shm_core sub' i ob' = strip c' \<and> own_write i ob ob'"
    and wfc: "\<And>c. wf_core c \<Longrightarrow> wf_core (snd (f c))"
  obtains smp h1 h2 cr1 cr2 where
    "handle_take S (on_core f (Sample_init (ctx_null (st_base S)))) g (handle_at (ap_subs w1) k) (ap_carrier w1) = Some (smp, h1, cr1)"
    "handle_take S (on_core f (Sample_init (ctx_null (st_base S)))) g (handle_at (ap_subs w2) k) (ap_carrier w2) = Some (smp, h2, cr2)"
    "reach_rel S topic seg (put_sub k h1 cr1 w1) (put_sub k h2 cr2 w2)"
proof (cases "handle_at (ap_subs w1) k")
  case None
  then have n2: "handle_at (ap_subs w2) k = None" using reach_handles(2) [OF rel] by simp
  show thesis by (rule that [of "Sample_init (ctx_null (st_base S))" None "ap_carrier w1" None "ap_carrier w2"])
    (use None n2 rel in \<open>simp_all add: handle_take_def put_sub_absent split: prod.splits\<close>)
next
  case (Some h)
  have ok: "site_ok S" using rel by (simp add: reach_rel_def)
  have hk: "handle_at (ap_pubs w1) k \<noteq> None \<or> handle_at (ap_subs w1) k \<noteq> None" using Some by simp
  obtain ds fs0 ds0 fs t ob links where w: "ap_carrier w1 = (ds, fs0)" "ap_carrier w2 = (ds0, fs)"
    "topic_at ds topic = Some (TopicE t)" "fs seg = Some ob" "twin S t ob" "owned S topic seg t ob (ap_pubs w1) (ap_pubs w2)"
    "linked S topic seg t ob links (ap_subs w1) (ap_subs w2)" by (rule reach_wired [OF rel hk])
  show thesis
  proof (cases rule: handle_pair [OF w(7), of k])
    case (2 p i)
    from 2(3) obtain ep sub where h: "handle_at (ap_subs w1) k = Some (SubIP ep)" "handle_at (ap_subs w2) k = Some (SubShm Subscribe_kOk seg sub)"
      "ep_kind ep = SubImpl (Some (Retained p))" "ep_topic ep = Some topic" "\<not> is_publisher ep" "subscribe_status ep = Subscribe_kOk"
      "consistent (st_base S) sub i ob" "shm_core sub i ob = strip (sub_retained t ! p)" "ep_type ep = st_type S" by (auto simp: sub_pair_def)
    obtain smp c' where f: "f (sub_retained t ! p) = (smp, c')" by fastforce
    obtain smp2 sub' ob' where g: "g sub ob = (smp2, sub', ob')" by (metis prod_cases3)
    note r = refine [OF h(7,8) g f]
    have slot: "su_slot sub = Some i" using h(7) by (simp add: consistent_def holds_slot_def)
    have p: "p < length (sub_retained t)" "wf_core (sub_retained t ! p)"
      using 2(4) w(5) wf_topic_slotsD [of t p] by (auto simp: twin_def connected_def wf_topic_def list_all_length)
    let ?t = "t\<lparr>sub_retained := (sub_retained t)[p := c']\<rparr>"
    have pr: "sub_pair S topic seg ?t ob' (Some (p, i)) (Some (SubIP ep)) (Some (SubShm Subscribe_kOk seg sub'))"
      using h r p(1) by (simp add: sub_pair_def)
    have wf': "wf_core c'" using wfc [OF p(2)] f by simp
    have own: "own_write i ob ob'" using r by simp
    note tr = take_related [OF w(5,7) 2(1,2) own wf' pr]
    have pid: "h_pub_pid (header ob') = h_pub_pid (header ob)" using own_write_frame(10) [OF own _ 2(5)] w(5) by (simp add: twin_def)
    have rel': "reach_rel S topic seg (put_sub k (Some (SubIP ep)) (put_topic topic (TopicE ?t) ds, fs0) w1)
        (put_sub k (Some (SubShm Subscribe_kOk seg sub')) (ds0, upd_fs seg ob' fs) w2)"
      by (rule reach_relI [OF ok, where ds = "put_topic topic (TopicE ?t) ds" and fs = "upd_fs seg ob' fs" and t = ?t and ob = ob' and links = links])
        (use tr owned_frame [OF w(6) _ pid, of ?t] in \<open>simp_all add: put_sub_def upd_fs_def\<close>)
    show thesis by (rule that [OF _ _ rel', of smp]) (use h w(1-4) f g r slot in \<open>simp_all add: handle_take_def on_core_def\<close>)
  qed (use Some in simp)
qed

lemma take_step:
  assumes rel: "reach_rel S topic seg w1 w2"
  shows "agree S topic seg (api_step S d1 topic (A_TakeLatest k now) w1) (api_step S d2 topic (A_TakeLatest k now) w2)"
    "agree S topic seg (api_step S d1 topic (A_TryTake k now) w1) (api_step S d2 topic (A_TryTake k now) w2)"
proof -
  have ns: "never_stalls (st_base S) (st_crash S)" using rel by (simp add: reach_rel_def site_ok_def)
  let ?none = "Sample_init (ctx_null (st_base S))"
  obtain smp h1 h2 cr1 cr2 where "handle_take S (on_core (TakeLatest (st_base S) now) ?none) (TakeLatestSample (st_base S) (st_crash S) now)
      (handle_at (ap_subs w1) k) (ap_carrier w1) = Some (smp, h1, cr1)"
    "handle_take S (on_core (TakeLatest (st_base S) now) ?none) (TakeLatestSample (st_base S) (st_crash S) now)
      (handle_at (ap_subs w2) k) (ap_carrier w2) = Some (smp, h2, cr2)" "reach_rel S topic seg (put_sub k h1 cr1 w1) (put_sub k h2 cr2 w2)"
    by (rule take_agrees [OF rel latest_refines [OF _ ns] wf_core_TakeLatest])
  then show "agree S topic seg (api_step S d1 topic (A_TakeLatest k now) w1) (api_step S d2 topic (A_TakeLatest k now) w2)"
    by (auto simp: agree_def Handle_TakeLatest_def Subscriber_TakeLatest_def)
  obtain smp h1 h2 cr1 cr2 where "handle_take S (on_core (TryTake (st_base S) now) ?none) (TryTakeSample (st_base S) now)
      (handle_at (ap_subs w1) k) (ap_carrier w1) = Some (smp, h1, cr1)"
    "handle_take S (on_core (TryTake (st_base S) now) ?none) (TryTakeSample (st_base S) now)
      (handle_at (ap_subs w2) k) (ap_carrier w2) = Some (smp, h2, cr2)" "reach_rel S topic seg (put_sub k h1 cr1 w1) (put_sub k h2 cr2 w2)"
    by (rule take_agrees [OF rel try_refines wf_core_TryTake])
  then show "agree S topic seg (api_step S d1 topic (A_TryTake k now) w1) (api_step S d2 topic (A_TryTake k now) w2)"
    by (auto simp: agree_def Handle_TryTake_def Subscriber_TryTake_def)
qed

section \<open>Counts and destructors\<close>

lemma matched_pub:
  assumes "twin S t ob" "linked S topic seg t ob links hs1 hs2" "site_ok S" "sp_attached pub"
  shows "of_nat (Pub_MatchedCount (st_alive S) pub ob) = subscriber_count t"
proof -
  have wf: "wf_topic t" "length (h_sub_slots (header ob)) = kShmMaxSubscribers" using assms(1) by (simp_all add: twin_def wf_segment_def)
  have alive: "ss_state (slot_at ob i) = kShmSubActive \<Longrightarrow> ProcessAlive (st_alive S) (ss_pid (slot_at ob i))" if "i < kShmMaxSubscribers" for i
    using assms(1,3) that by (auto simp: twin_def site_ok_def kShmSubFree_def kShmSubActive_def)
  have "Pub_MatchedCount (st_alive S) pub ob = card {i. i < kShmMaxSubscribers \<and> ss_state (slot_at ob i) = kShmSubActive \<and>
      ProcessAlive (st_alive S) (ss_pid (slot_at ob i))}"
    using assms(4) wf(2) by (simp add: Pub_MatchedCount_def length_filter_conv_card slot_at_def)
  also have "{i. i < kShmMaxSubscribers \<and> ss_state (slot_at ob i) = kShmSubActive \<and> ProcessAlive (st_alive S) (ss_pid (slot_at ob i))} =
      {i. i < kShmMaxSubscribers \<and> ss_state (slot_at ob i) = kShmSubActive}" using alive by auto
  finally show ?thesis using linked_counts(2,3) [OF assms(2) wf(1)] wf(1) by (simp add: wf_topic_def)
qed

lemma pub_stats_step:
  assumes rel: "reach_rel S topic seg w1 w2"
  shows "agree S topic seg (api_step S d1 topic (A_PubStats k) w1) (api_step S d2 topic (A_PubStats k) w2)"
proof (cases "handle_at (ap_pubs w1) k")
  case None
  then have "handle_at (ap_pubs w2) k = None" using reach_handles(1) [OF rel, of k] by (auto simp: pub_pair_def)
  then show ?thesis using None rel
    by (simp add: agree_def Handle_PublishCount_def Handle_RefusedCount_def Publisher_MatchedCount_def split: prod.splits)
next
  case (Some h)
  have ok: "site_ok S" using rel by (simp add: reach_rel_def)
  have hk: "handle_at (ap_pubs w1) k \<noteq> None \<or> handle_at (ap_subs w1) k \<noteq> None" using Some by simp
  obtain ds fs0 ds0 fs t ob links where w: "ap_carrier w1 = (ds, fs0)" "ap_carrier w2 = (ds0, fs)"
    "topic_at ds topic = Some (TopicE t)" "fs seg = Some ob" "twin S t ob" "owned S topic seg t ob (ap_pubs w1) (ap_pubs w2)"
    "linked S topic seg t ob links (ap_subs w1) (ap_subs w2)" by (rule reach_wired [OF rel hk])
  have "pub_pair S topic seg (handle_at (ap_pubs w1) k) (handle_at (ap_pubs w2) k)" by (rule reach_handles(1) [OF rel])
  then show ?thesis using rel Some w(1-4) matched_pub [OF w(5,7) ok]
    by (auto simp: pub_pair_def agree_def Handle_PublishCount_def Handle_RefusedCount_def Publisher_MatchedCount_def MatchedCount_def
      PublishCount_def RefusedCount_def Pub_MatchedCount_def)
qed

lemma sub_stats_step:
  assumes rel: "reach_rel S topic seg w1 w2"
  shows "agree S topic seg (api_step S d1 topic (A_SubStats k) w1) (api_step S d2 topic (A_SubStats k) w2)"
proof (cases "handle_at (ap_subs w1) k")
  case None
  then have "handle_at (ap_subs w2) k = None" using reach_handles(2) [OF rel] by simp
  then show ?thesis using None rel
    by (simp add: agree_def Handle_TakeCount_def Handle_DropCount_def Handle_OverwriteCount_def handle_counter_def Subscriber_MatchedCount_def split: prod.splits)
next
  case (Some h)
  have ok: "site_ok S" using rel by (simp add: reach_rel_def)
  have hk: "handle_at (ap_pubs w1) k \<noteq> None \<or> handle_at (ap_subs w1) k \<noteq> None" using Some by simp
  obtain ds fs0 ds0 fs t ob links where w: "ap_carrier w1 = (ds, fs0)" "ap_carrier w2 = (ds0, fs)"
    "topic_at ds topic = Some (TopicE t)" "fs seg = Some ob" "twin S t ob" "owned S topic seg t ob (ap_pubs w1) (ap_pubs w2)"
    "linked S topic seg t ob links (ap_subs w1) (ap_subs w2)" by (rule reach_wired [OF rel hk])
  show ?thesis
  proof (cases rule: handle_pair [OF w(7), of k])
    case (2 p i)
    from 2(3) obtain ep sub where h: "handle_at (ap_subs w1) k = Some (SubIP ep)" "handle_at (ap_subs w2) k = Some (SubShm Subscribe_kOk seg sub)"
      "ep_kind ep = SubImpl (Some (Retained p))" "ep_topic ep = Some topic" "\<not> is_publisher ep"
      "consistent (st_base S) sub i ob" "shm_core sub i ob = strip (sub_retained t ! p)" by (auto simp: sub_pair_def)
    have slot: "su_slot sub = Some i" using h(6) by (simp add: consistent_def holds_slot_def)
    have cs: "take_count (shm_core sub i ob) = take_count (sub_retained t ! p)" "drop_count (shm_core sub i ob) = drop_count (sub_retained t ! p)"
      "overwrite_count (shm_core sub i ob) = overwrite_count (sub_retained t ! p)" unfolding h(7) by (simp_all add: strip_def)
    have counts: "ss_take_count (slot_at ob i) = take_count (sub_retained t ! p)" "ss_drop_count (slot_at ob i) = drop_count (sub_retained t ! p)"
      "ss_overwrite_count (slot_at ob i) = overwrite_count (sub_retained t ! p)" using cs by (simp_all add: shm_core_def region_core_def region_def)
    have "publisher_count t = (if ProcessAlive (st_alive S) (h_pub_pid (header ob)) then 1 else 0)"
    proof (cases "cnt wired_pub (ap_pubs w1) = 0")
      case True
      then show ?thesis using w(6) by (simp add: owned_def ProcessAlive_def)
    next
      case False
      then have "cnt wired_pub (ap_pubs w1) = 1" using w(6) by (simp add: owned_def)
      then show ?thesis using w(6) ok by (simp add: owned_def site_ok_def)
    qed
    then have "R_SubStats (Handle_TakeCount (handle_at (ap_subs w1) k) (ap_carrier w1)) (Handle_DropCount (handle_at (ap_subs w1) k) (ap_carrier w1))
        (Handle_OverwriteCount (handle_at (ap_subs w1) k) (ap_carrier w1)) (Subscriber_MatchedCount S (handle_at (ap_subs w1) k) (ap_carrier w1)) =
      R_SubStats (Handle_TakeCount (handle_at (ap_subs w2) k) (ap_carrier w2)) (Handle_DropCount (handle_at (ap_subs w2) k) (ap_carrier w2))
        (Handle_OverwriteCount (handle_at (ap_subs w2) k) (ap_carrier w2)) (Subscriber_MatchedCount S (handle_at (ap_subs w2) k) (ap_carrier w2))"
      using h(1-5) w(1-4) slot counts
      by (simp add: Handle_TakeCount_def Handle_DropCount_def Handle_OverwriteCount_def handle_counter_def Subscriber_MatchedCount_def
        TakeCount_def DropCount_def OverwriteCount_def sub_core_def ReadCounter_def MatchedCount_def Sub_MatchedCount_def)
    then show ?thesis using rel by (simp add: agree_def Let_def)
  qed (use Some in simp)
qed

text \<open>A handle that was refused, or moved from, takes nothing with it.\<close>

lemma idle_dtor:
  assumes "pub_pair S topic seg h1 h2" "\<And>p. h1 = Some p \<Longrightarrow> \<not> wired_pub p"
  shows "Publisher_dtor S h1 cr = Some cr" "Publisher_dtor S h2 cr = Some cr"
  using assms by (cases cr; auto simp: pub_pair_def wired_pub_def Publisher_dtor_def EndpointImpl_dtor_def ShmPubImpl_dtor_def upd_fs_def
    fun_upd_idem split: option.splits)+

lemma drop_idle:
  assumes rel: "reach_rel S topic seg w1 w2" and idle: "\<And>p. handle_at (ap_pubs w1) k = Some p \<Longrightarrow> \<not> wired_pub p"
  shows "reach_rel S topic seg (put_pub k None (ap_carrier w1) w1) (put_pub k None (ap_carrier w2) w2)"
proof (cases "handle_at (ap_pubs w1) k")
  case None
  have "pub_pair S topic seg None None" by (simp add: pub_pair_def)
  from put_same [OF rel this] None show ?thesis by (simp add: kin_def)
next
  case (Some p)
  have ok: "site_ok S" using rel by (simp add: reach_rel_def)
  have hk: "handle_at (ap_pubs w1) k \<noteq> None \<or> handle_at (ap_subs w1) k \<noteq> None" using Some by simp
  obtain ds fs0 ds0 fs t ob links where w: "ap_carrier w1 = (ds, fs0)" "ap_carrier w2 = (ds0, fs)"
    "topic_at ds topic = Some (TopicE t)" "fs seg = Some ob" "twin S t ob" "owned S topic seg t ob (ap_pubs w1) (ap_pubs w2)"
    "linked S topic seg t ob links (ap_subs w1) (ap_subs w2)" by (rule reach_wired [OF rel hk])
  have "cnt wired_pub ((ap_pubs w1)[k := None]) = cnt wired_pub (ap_pubs w1)"
    using cnt_remove [of k "ap_pubs w1" p wired_pub] handle_at_Some [OF Some] idle [OF Some] by simp
  moreover have "list_all2 (pub_pair S topic seg) ((ap_pubs w1)[k := None]) ((ap_pubs w2)[k := None])"
    by (rule list_all2_update_cong) (use w(6) in \<open>simp_all add: owned_def pub_pair_def\<close>)
  ultimately have "owned S topic seg t ob ((ap_pubs w1)[k := None]) ((ap_pubs w2)[k := None])" using w(6) by (simp add: owned_def)
  then show ?thesis by (intro reach_relI [OF ok, where ds = ds and fs = fs and t = t and ob = ob and links = links])
    (use w in \<open>simp_all add: put_pub_def\<close>)
qed

lemma drop_pub_step:
  assumes rel: "reach_rel S topic seg w1 w2"
  shows "agree S topic seg (api_step S d1 topic (A_DropPub k) w1) (api_step S d2 topic (A_DropPub k) w2)"
proof (cases "\<exists>p. handle_at (ap_pubs w1) k = Some p \<and> wired_pub p")
  case False
  then have idle: "handle_at (ap_pubs w1) k = Some p \<Longrightarrow> \<not> wired_pub p" for p by blast
  note d = idle_dtor [OF reach_handles(1) [OF rel, of k] idle]
  have "reach_rel S topic seg (put_pub k None (ap_carrier w1) w1) (put_pub k None (ap_carrier w2) w2)" by (rule drop_idle [OF rel idle])
  then show ?thesis by (simp add: agree_def d)
next
  case True
  have ok: "site_ok S" using rel by (simp add: reach_rel_def)
  have hk: "handle_at (ap_pubs w1) k \<noteq> None \<or> handle_at (ap_subs w1) k \<noteq> None" using True by auto
  obtain ds fs0 ds0 fs t ob links where w: "ap_carrier w1 = (ds, fs0)" "ap_carrier w2 = (ds0, fs)"
    "topic_at ds topic = Some (TopicE t)" "fs seg = Some ob" "twin S t ob" "owned S topic seg t ob (ap_pubs w1) (ap_pubs w2)"
    "linked S topic seg t ob links (ap_subs w1) (ap_subs w2)" by (rule reach_wired [OF rel hk])
  from True reach_handles(1) [OF rel, of k] obtain ep pub pool core where h: "handle_at (ap_pubs w1) k = Some (PubIP ep)"
    "handle_at (ap_pubs w2) k = Some (PubShm (advertise_status ep) seg pub pool)" "ep_kind ep = PubImpl (Some core)" "ep_topic ep = Some topic"
    "sp_attached pub" "sp_owns_publisher_slot pub" "type_id t = ep_type ep" using w(5) by (auto simp: pub_pair_def wired_pub_def twin_def)
  note r = withdraw_related [OF w(5,6,7) ok h(1,4,5,6)]
  let ?t = "RemovePublisher t" and ?ob = "ShmPubImpl_dtor (st_pid S) pub ob"
  let ?ds = "unregister topic (TopicE ?t) ds" and ?fs = "upd_fs seg ?ob fs"
  have ip: "api_step S d1 topic (A_DropPub k) w1 = Some (R_Dropped, put_pub k None (?ds, fs0) w1)"
    using h(1,3,4,7) w(1,3) by (simp add: Publisher_dtor_def EndpointImpl_dtor_def)
  have shm: "api_step S d2 topic (A_DropPub k) w2 = Some (R_Dropped, put_pub k None (ds0, ?fs) w2)" using h(2) w(2,4) by (simp add: Publisher_dtor_def)
  show ?thesis
    by (intro agreeI [OF ip shm] reach_relI [OF ok, where ds = ?ds and fs = ?fs and t = ?t and ob = ?ob and links = links])
      (use r in \<open>simp_all add: put_pub_def upd_fs_def\<close>)
qed

lemma drop_sub_step:
  assumes rel: "reach_rel S topic seg w1 w2"
  shows "agree S topic seg (api_step S d1 topic (A_DropSub k) w1) (api_step S d2 topic (A_DropSub k) w2)"
proof (cases "handle_at (ap_subs w1) k")
  case None
  then have "handle_at (ap_subs w2) k = None" using reach_handles(2) [OF rel] by simp
  then show ?thesis using None rel by (simp add: agree_def Subscriber_dtor_def put_sub_absent split: prod.splits)
next
  case (Some h)
  have ok: "site_ok S" using rel by (simp add: reach_rel_def)
  have hk: "handle_at (ap_pubs w1) k \<noteq> None \<or> handle_at (ap_subs w1) k \<noteq> None" using Some by simp
  obtain ds fs0 ds0 fs t ob links where w: "ap_carrier w1 = (ds, fs0)" "ap_carrier w2 = (ds0, fs)"
    "topic_at ds topic = Some (TopicE t)" "fs seg = Some ob" "twin S t ob" "owned S topic seg t ob (ap_pubs w1) (ap_pubs w2)"
    "linked S topic seg t ob links (ap_subs w1) (ap_subs w2)" by (rule reach_wired [OF rel hk])
  show ?thesis
  proof (cases rule: handle_pair [OF w(7), of k])
    case (2 p i)
    from 2(3) obtain ep sub where h: "handle_at (ap_subs w1) k = Some (SubIP ep)" "handle_at (ap_subs w2) k = Some (SubShm Subscribe_kOk seg sub)"
      "ep_kind ep = SubImpl (Some (Retained p))" "ep_topic ep = Some topic" "consistent (st_base S) sub i ob" "type_id t = ep_type ep" using w(5) by (auto simp: sub_pair_def twin_def)
    have slot: "su_slot sub = Some i" using h(5) by (simp add: consistent_def holds_slot_def)
    note r = leave_related [OF w(5,7) 2(1,2) slot]
    let ?t = "RemoveSubscriber (Retained p) t" and ?ob = "ShmSubImpl_dtor sub ob"
    let ?ds = "unregister topic (TopicE ?t) ds" and ?fs = "upd_fs seg ?ob fs"
    have ip: "api_step S d1 topic (A_DropSub k) w1 = Some (R_Dropped, put_sub k None (?ds, fs0) w1)"
      using h(1,3,4,6) w(1,3) by (simp add: Subscriber_dtor_def EndpointImpl_dtor_def)
    have shm: "api_step S d2 topic (A_DropSub k) w2 = Some (R_Dropped, put_sub k None (ds0, ?fs) w2)" using h(2) w(2,4) by (simp add: Subscriber_dtor_def)
    show ?thesis
      by (intro agreeI [OF ip shm] reach_relI [OF ok, where ds = ?ds and fs = ?fs and t = ?t and ob = ?ob and links = "links[k := None]"])
        (use r owned_frame [OF w(6) r(3,4)] in \<open>simp_all add: put_sub_def upd_fs_def\<close>)
  qed (use Some in simp)
qed

section \<open>Portability\<close>

lemma call_agrees:
  assumes rel: "reach_rel S topic (ShmSegmentName key topic) w1 w2" and key: "key \<noteq> []" and ok: "portable_call c w1"
  shows "agree S topic (ShmSegmentName key topic) (api_step S (in_process_domain n) topic c w1) (api_step S (posix_shm_domain key) topic c w2)"
proof (cases c)
  case (A_Advertise qos)
  then show ?thesis using advertise_agrees [OF rel key] ok by simp
next
  case (A_Subscribe qos)
  then show ?thesis using subscribe_agrees [OF rel key] ok by simp
qed (use publish_step [OF rel] loan_step [OF rel] take_step [OF rel] pub_stats_step [OF rel] sub_stats_step [OF rel] drop_pub_step [OF rel]
  drop_sub_step [OF rel] in \<open>simp_all only:\<close>)

interpretation portable: lockstep "api_step S (in_process_domain n) topic" "api_step S (posix_shm_domain key) topic" portable_call
  "\<lambda>w1 w2. key \<noteq> [] \<and> reach_rel S topic (ShmSegmentName key topic) w1 w2" for S n key topic
  by unfold_locales (use call_agrees in \<open>fastforce simp: agree_def\<close>)

lemma factories:
  "\<exists>i. last (doms (Domain_InProcess euid nm pr)) = in_process_domain i"
  "last (doms (Domain_PosixShm True euid nm pr)) = posix_shm_domain (DeriveIsolationKey euid nm)" "DeriveIsolationKey euid nm \<noteq> []"
  by (auto simp: Domain_InProcess_def Domain_PosixShm_def in_process_domain_def posix_shm_domain_def DeriveIsolationKey_def split: prod.splits)

text \<open>C1. The verbs are portable. Take any program over one topic: publishers and subscribers wired and dropped in any order, publishes by value
  and by loan, both take verbs on every handle, counters and matched counts. If its declarations are ones the shared-memory reach supports
  (exclusive best-effort publishers, latest-only or at most 16 deep queues, at most 16 subscribers at a time), then running it on the domain
  of \<^verbatim>\<open>Domain::InProcess\<close> and on that of \<^verbatim>\<open>Domain::PosixShm\<close> gives the same results, call by call (while no writer dies in a store and the
  operating system grants the segment).\<close>

theorem reach_portable:
  assumes "site_ok S" "topic_at ds topic = None" "fs (ShmSegmentName (DeriveIsolationKey euid nm) topic) = None"
    and "d1 = last (doms (Domain_InProcess euid nm pr))" "d2 = last (doms (Domain_PosixShm True euid nm pr))"
    and "w = \<lparr>ap_carrier = (ds, fs), ap_pubs = [], ap_subs = []\<rparr>" "admissible portable_call (api_step S d1 topic) cs w"
  shows "\<exists>rs w1 w2. run_calls (api_step S d1 topic) cs w = Some (rs, w1) \<and> run_calls (api_step S d2 topic) cs w = Some (rs, w2)"
proof -
  obtain i where d1: "d1 = in_process_domain i" using factories(1) assms(4) by metis
  have "reach_rel S topic (ShmSegmentName (DeriveIsolationKey euid nm) topic) w w" using assms(1-3,6) by (simp add: reach_rel_def)
  then show ?thesis using portable.same_results [of "DeriveIsolationKey euid nm" S topic w w i cs] assms(5,7) factories(2,3) d1 by auto
qed

definition demo_site :: "(nat, nat MailRecord option, nat \<times> nat MailRecord list, ref_context) site" where
  "demo_site = \<lparr>st_base = XmBase_nat, st_crash = SlotCrash_ref, st_os = (\<lambda>exists. demo_os (if exists then Exists else Created)), st_alive = (\<lambda>_. True),
     st_pid = 77, st_id = demo_id 5, st_type = ''Pose'', st_default = 0, st_blank = demo_blank, st_trivially_copyable = True, st_has_posix_shm = True\<rparr>"

lemma demo_site_ok: "site_ok demo_site"
proof -
  have "\<exists>items capacity. xmbase XmBase_nat items capacity" using ref.xmbase_axioms by blast
  then show ?thesis
    by (simp add: site_ok_def demo_site_def never_stalls_def SlotCrash_ref_def demo_os_def demo_id_def demo_blank_def kHeaderSize_def ProcessAlive_def)
qed

lemma deliver_none: "fold (deliver_slot X r) (replicate n None) cs = cs"
  by (induction n arbitrary: cs) (simp_all add: deliver_slot_def)

definition demo_program :: "(nat, ref_context) api_call list" where
  "demo_program = [A_Advertise Qos_default, A_Publish 0 (1, 2, 3) 1000 7, A_Subscribe Qos_default, A_TakeLatest 0 1500]"

definition demo_start :: "(nat, nat MailRecord option, nat \<times> nat MailRecord list, unit, unit) app" where
  "demo_start = \<lparr>ap_carrier = (DomainState_init, Map.empty), ap_pubs = [], ap_subs = []\<rparr>"

lemma demo_in_process:
  "admissible portable_call (api_step demo_site (in_process_domain i) ''nav'') demo_program demo_start"
  "\<exists>smp w. run_calls (api_step demo_site (in_process_domain i) ''nav'') demo_program demo_start =
     Some ([R_Advertise Advertise_kOk, R_Publish Publish_kOk, R_Subscribe Subscribe_kOk, R_Sample smp], w) \<and> smp_value smp = Some 7"
proof -
  have scan: "scan kMaxSubscribers (\<lambda>i. replicate kMaxSubscribers None ! i = None) = Some 0" by (simp add: scan_Some_iff kMaxSubscribers_def)
  note simps = demo_program_def demo_start_def demo_site_def in_process_domain_def Domain_Advertise_def Domain_Subscribe_def shm_route_def Advertise_def Subscribe_def
    find_or_make_def AddPublisher_def AddSubscriber_def attach_core_def free_slot_def scan Topic_init_def DomainState_init_def topic_at_def Let_def EndpointImpl_init_def
    Publisher_status_def Subscriber_status_def handle_at_def put_pub_def put_sub_def Handle_Publish_def Publisher_Publish_def Deliver_def deliver_none
    Qos_default_def LatestOnly_def register_def UpdateGauges_def put_topic_def PubCore_init_def demo_id_def seed_core_def SubCore_init_def
    Handle_TakeLatest_def handle_take_def Subscriber_TakeLatest_def on_core_def TakeLatest_def fill_sample_def
  show "admissible portable_call (api_step demo_site (in_process_domain i) ''nav'') demo_program demo_start"
    by (simp add: simps cnt_def kShmMaxSubscribers_def)
  show "\<exists>smp w. run_calls (api_step demo_site (in_process_domain i) ''nav'') demo_program demo_start =
     Some ([R_Advertise Advertise_kOk, R_Publish Publish_kOk, R_Subscribe Subscribe_kOk, R_Sample smp], w) \<and> smp_value smp = Some 7"
    by (simp add: simps)
qed

theorem reach_portable_witness:
  "\<exists>smp w. run_calls (api_step demo_site (last (doms (Domain_PosixShm True 1000 ''lab'' process_init))) ''nav'') demo_program demo_start =
     Some ([R_Advertise Advertise_kOk, R_Publish Publish_kOk, R_Subscribe Subscribe_kOk, R_Sample smp], w) \<and> smp_value smp = Some 7"
proof -
  let ?d1 = "last (doms (Domain_InProcess 1000 ''lab'' process_init))"
  obtain i where i: "?d1 = in_process_domain i" using factories(1) by blast
  have "\<exists>rs w1 w2. run_calls (api_step demo_site ?d1 ''nav'') demo_program demo_start = Some (rs, w1) \<and>
      run_calls (api_step demo_site (last (doms (Domain_PosixShm True 1000 ''lab'' process_init))) ''nav'') demo_program demo_start = Some (rs, w2)"
    by (rule reach_portable [OF demo_site_ok _ _ refl refl demo_start_def])
      (use demo_in_process(1) [of i] in \<open>simp_all add: i DomainState_init_def topic_at_def\<close>)
  then show ?thesis using demo_in_process(2) [of i] unfolding i by auto
qed

section \<open>Reliable publishers\<close>

text \<open>Outside that fragment the reaches differ. A reliable publisher that declares latest-only history is accepted on shared memory, and there its
  publishes are never refused: a subscriber whose queue is full loses the value, where the in-process reach reports \<^verbatim>\<open>kWouldBlock\<close> and
  delivers to nobody.\<close>

lemma reliable_latest_diverges:
  assumes "site_ok S" "key \<noteq> []" "ownership qos = kExclusive" "reliability qos = kReliable" "hist_kind (history qos) = kLatestOnly"
    and "reach_rel S topic (ShmSegmentName key topic) w w" "ap_pubs w = []"
  shows "\<exists>w'. api_step S (posix_shm_domain key) topic (A_Advertise qos) w = Some (R_Advertise Advertise_kOk, w')"
    "fst (Shm_Publish X sz ctx now val derived pub ob) = Publish_kOk"
    "any_full X t \<Longrightarrow> Deliver X sz ctx now (PubCore_init qos) val derived t = (Publish_kWouldBlock, note_refused (PubCore_init qos), t)"
proof -
  obtain ds fs where c: "ap_carrier w = (ds, fs)" by fastforce
  from attach_related [OF assms(6) c c, of qos] assms(7) obtain t0 ob0 fs1 where a:
    "Attach (st_base S) (st_os S (fs (ShmSegmentName key topic) \<noteq> None)) (ShmSegmentName key topic) (st_pid S) (st_id S) qos (st_blank S) fs = (Attach_kOk, fs1)"
    "fs1 (ShmSegmentName key topic) = Some ob0" "owned S topic (ShmSegmentName key topic) t0 ob0 [] []" by metis
  have "h_pub_pid (header ob0) = 0" using a(3) by (simp add: owned_def)
  moreover have "st_has_posix_shm S" "st_trivially_copyable S" using assms(1) by (simp_all add: site_ok_def)
  ultimately show "\<exists>w'. api_step S (posix_shm_domain key) topic (A_Advertise qos) w = Some (R_Advertise Advertise_kOk, w')"
    using a(1,2) assms(2,3,5)
    by (simp add: Domain_Advertise_def c shm_route_def posix_shm_domain_def ShmAdvertiseImpl_def Publisher_status_def Let_def ClaimPublisherSlot_def)
  show "fst (Shm_Publish X sz ctx now val derived pub ob) = Publish_kOk" by (simp add: Shm_Publish_def Let_def)
  show "any_full X t \<Longrightarrow> Deliver X sz ctx now (PubCore_init qos) val derived t = (Publish_kWouldBlock, note_refused (PubCore_init qos), t)"
    using assms(4) by (simp add: Deliver_def PubCore_init_def)
qed

section \<open>The support matrix\<close>

text \<open>What the factories give each reach.\<close>

lemma factory_shape:
  "process_reachable euid has_shm pr \<Longrightarrow> Some d \<in> set (doms pr) \<Longrightarrow>
     (reach d = Reach_kInProcess \<longrightarrow> impl_state d \<noteq> None \<and> shm_key d = []) \<and>
     (reach d \<noteq> Reach_kInProcess \<longrightarrow> impl_state d = None \<and> (shm_key d \<noteq> [] \<longleftrightarrow> reach d = Reach_kPosixShm \<and> has_shm))"
proof (induction arbitrary: d rule: process_reachable.induct)
  case (assign pr h g)
  then have "Some d \<in> set (doms pr)" unfolding Domain_assign_def
    by (auto simp: drop_ref_def dest!: subsetD [OF set_update_subset_insert] split: if_splits option.splits)
  then show ?case by (rule assign.IH)
next
  case (move pr g)
  then have "Some d \<in> set (doms pr)" by (auto simp: Domain_move_def dest!: subsetD [OF set_update_subset_insert])
  then show ?case by (rule move.IH)
next
  case (dtor pr h)
  then have "Some d \<in> set (doms pr)" by (auto simp: Domain_dtor_def drop_ref_def dest!: subsetD [OF set_update_subset_insert] split: option.splits)
  then show ?case by (rule dtor.IH)
next
  case (in_process pr nm)
  obtain i pr' where a: "AcquireDomainState (DeriveIsolationKey euid nm) pr = (i, pr')" by fastforce
  then have "doms pr' = doms pr" by (auto simp: AcquireDomainState_def Let_def split: option.splits if_splits)
  then show ?case using in_process a by (auto simp: Domain_InProcess_def)
qed (auto simp: process_init_def Domain_PosixShm_def Domain_Iceoryx2_def Domain_Zenoh_def wire_def unwire_def drop_ref_def factories(3) split: option.splits if_splits)

lemmas unwired_simps = Domain_Serve_def Domain_Connect_def Domain_Advertise_def Domain_Subscribe_def shm_route_def EndpointImpl_init_def
  Publisher_status_def Subscriber_status_def Let_def

text \<open>Zero-copy loans are the one denied contract that wiring does not refuse: on shared memory \<^verbatim>\<open>Supports(kZeroCopyLoan)\<close> is false, and
  a publisher that was wired lends cells all the same.\<close>

lemma loan_denied_but_wired:
  assumes "Domain_Advertise S (posix_shm_domain key) topic qos cr = Some (h, cr')" "Publisher_status (Some h) = Advertise_kOk" "key \<noteq> []"
  shows "\<not> Supports (posix_shm_domain key) kZeroCopyLoan \<and> (\<exists>slot h'. Handle_Loan (Some h) = (Some slot, h'))"
proof -
  from assms obtain seg pub where h: "h = PubShm Advertise_kOk seg pub LoanPool_init"
    by (auto simp: Domain_Advertise_def shm_route_def posix_shm_domain_def Publisher_status_def EndpointImpl_init_def Let_def ShmAdvertiseImpl_def
      split: if_splits prod.splits option.splits ShmAttachStatus.splits)
  obtain i pool where "Acquire (LoanPool_init :: 'a LoanPool) = (Some i, pool)"
    using wf_pool_init by (cases rule: Acquire_cases) (auto simp: held_def LoanPool_init_def kSlots_def lessThan_empty_iff eq_commute [of "{}"])
  then show ?thesis by (auto simp: h Handle_Loan_def handle_pool_def Supports_def posix_shm_domain_def available_def)
qed

text \<open>C12. Wiring refuses what the support matrix denies, but for the loan. On any domain a process can hold, moved-from ones included: where
  \<^verbatim>\<open>Supports\<close> denies them, request/response endpoints, publishers of shared ownership, publishers of reliable queues and, where not
  even latest-only is supported, all endpoints are refused with \<^verbatim>\<open>kUnsupportedReach\<close> and touch neither registry nor segments;
  and a domain that supports latest-only denies no contract beyond these three and \<^verbatim>\<open>kZeroCopyLoan\<close>, which wiring
  does not ask about.\<close>

theorem unsupported_refused:
  assumes "process_reachable euid (st_has_posix_shm S) pr" "impl \<in> set (doms pr)"
  shows "(\<not> Supports impl kRequestResponse \<longrightarrow>
       (\<exists>ep. Domain_Serve hash ty impl topic ds = Some (ep, ds) \<and> advertise_status ep = Advertise_kUnsupportedReach) \<and>
       (\<exists>ep. Domain_Connect hash ty impl topic ds = Some (ep, ds) \<and> subscribe_status ep = Subscribe_kUnsupportedReach)) \<and>
     (\<not> Supports impl kSharedOwnership \<and> ownership qos = kShared \<or>
      \<not> Supports impl kReliableQueue \<and> reliability qos = kReliable \<and> hist_kind (history qos) = kQueue \<or> \<not> Supports impl kLatestOnly_c \<longrightarrow>
       (\<exists>h. Domain_Advertise S impl topic qos (ds, fs) = Some (h, ds, fs) \<and> Publisher_status (Some h) = Advertise_kUnsupportedReach)) \<and>
     (\<not> Supports impl kLatestOnly_c \<longrightarrow>
       (\<exists>h. Domain_Subscribe S impl topic qos (ds, fs) = Some (h, ds, fs) \<and> Subscriber_status (Some h) = Subscribe_kUnsupportedReach)) \<and>
     (Supports impl kLatestOnly_c \<and> \<not> Supports impl contract \<longrightarrow> contract \<in> {kRequestResponse, kSharedOwnership, kReliableQueue, kZeroCopyLoan})"
proof (cases impl)
  case None
  then show ?thesis by (simp add: unwired_simps Supports_def)
next
  case (Some d)
  then have d: "Some d \<in> set (doms pr)" using assms(2) by simp
  note f = factory_shape [OF assms(1) d]
  consider (ip) "impl_state d \<noteq> None" "shm_key d = []" "reach d = Reach_kInProcess"
    | (shm) "impl_state d = None" "shm_key d \<noteq> []" "reach d = Reach_kPosixShm" "st_has_posix_shm S" | (none) "impl_state d = None" "shm_key d = []"
    using f by (cases "reach d = Reach_kInProcess"; cases "shm_key d = []") auto
  then show ?thesis
  proof cases
    case ip
    then show ?thesis by (simp add: Supports_def available_def Some)
  next
    case shm
    then have "Domain_Advertise S impl topic qos (ds, fs) = Some (h, ds, fs) \<and> Publisher_status (Some h) = Advertise_kUnsupportedReach"
      if "ownership qos = kShared \<or> reliability qos = kReliable \<and> hist_kind (history qos) = kQueue"
        "h = (if st_trivially_copyable S then PubShm Advertise_kUnsupportedReach (ShmSegmentName (shm_key d) topic) ShmPubImpl_init LoanPool_init
          else PubIP ((EndpointImpl_init (PubImpl None) (st_type S))\<lparr>is_publisher := True\<rparr>))" for h
      using that by (auto simp: Domain_Advertise_def shm_route_def Publisher_status_def Let_def Some ShmAdvertiseImpl_def EndpointImpl_init_def)
    moreover have "Supports impl kLatestOnly_c" using shm by (simp add: Supports_def available_def Some)
    moreover have "contract \<in> {kRequestResponse, kSharedOwnership, kReliableQueue, kZeroCopyLoan}" if "\<not> Supports impl contract"
      using that shm by (cases contract) (simp_all add: Supports_def available_def Some)
    ultimately show ?thesis using shm by (auto simp: Domain_Serve_def Domain_Connect_def Some EndpointImpl_init_def)
  next
    case none
    then show ?thesis by (simp add: unwired_simps Supports_def available_def Some)
  qed
qed

theorem unsupported_refused_witness:
  "\<not> Supports (last (doms (Domain_PosixShm True 1000 ''lab'' process_init))) kRequestResponse \<and>
   (\<exists>ep. (Domain_Serve 9 ''Add'' (last (doms (Domain_PosixShm True 1000 ''lab'' process_init))) ''add'' (fst (ap_carrier demo_start))) =
      Some (ep :: (nat, nat MailRecord option, nat \<times> nat MailRecord list) EndpointImpl, fst (ap_carrier demo_start)) \<and>
      advertise_status ep = Advertise_kUnsupportedReach)"
proof -
  let ?pr = "Domain_PosixShm True 1000 ''lab'' process_init"
  have r: "process_reachable 1000 (st_has_posix_shm demo_site) ?pr"
    using process_reachable.posix_shm [OF process_reachable.start] by (simp add: demo_site_def)
  have m: "last (doms ?pr) \<in> set (doms ?pr)" by (simp add: Domain_PosixShm_def)
  have n: "\<not> Supports (last (doms ?pr)) kRequestResponse" by (simp add: factories(2) posix_shm_domain_def Supports_def)
  show ?thesis using unsupported_refused [OF r m] n by blast
qed

end
