(* ===== verification/Handles.thy ===== *)
theory Handles
  imports Domain_State Shm_Segment "HOL-Library.Multiset"
begin

text \<open>
  The move-only handles of the library: the endpoint base class, the segment mapping and the introspection reader. Each owns at most
  one resource, an endpoint implementation on the heap or a mapping of the address space, and releases it in its destructor and when
  it is assigned to. A program over a table of such handles releases every resource exactly once; the argument is made once, in a
  locale that the three classes interpret.
\<close>

section \<open>Programs over handles of one class\<close>

text \<open>What a class provides: the resource a handle owns, the default constructor, the move constructor (the new handle and the
  moved-from one), move assignment to a different object and the destructor with what they release, and the setting up of a fresh
  resource where the class allows it.\<close>

record ('h, 'r) handle_class =
  hc_res :: "'h \<Rightarrow> 'r option"
  hc_default :: 'h
  hc_move :: "'h \<Rightarrow> 'h \<times> 'h"
  hc_assign :: "bool \<Rightarrow> 'h \<Rightarrow> 'h \<Rightarrow> 'r option \<times> 'h \<times> 'h"
  hc_dtor :: "'h \<Rightarrow> 'r option"
  hc_fillable :: "'h \<Rightarrow> bool"
  hc_fill :: "'r \<Rightarrow> 'h \<Rightarrow> 'r option \<times> 'h"

record ('h, 'r) handles =
  vars :: "'h option list"
  minted :: "'r list"
  released :: "'r list"

datatype 'r hop = Declare | Fill nat 'r | MoveNew nat | MoveAssign nat nat | Destroy nat

definition var :: "('h, 'r) handles \<Rightarrow> nat \<Rightarrow> 'h option" where
  "var s v = (if v < length (vars s) then vars s ! v else None)"

definition set_var :: "nat \<Rightarrow> 'h option \<Rightarrow> ('h, 'r) handles \<Rightarrow> ('h, 'r) handles" where
  "set_var v x s = s\<lparr>vars := (vars s)[v := x]\<rparr>"

definition release :: "'r option \<Rightarrow> ('h, 'r) handles \<Rightarrow> ('h, 'r) handles" where
  "release r s = (case r of None \<Rightarrow> s | Some x \<Rightarrow> s\<lparr>released := x # released s\<rparr>)"

text \<open>\<open>None\<close>: the program uses a variable that is not alive, or sets up a handle that does not allow it. An assignment is told
  whether \<^verbatim>\<open>this\<close> and \<^verbatim>\<open>other\<close> are the same object.\<close>

fun hexec :: "('h, 'r) handle_class \<Rightarrow> 'r hop \<Rightarrow> ('h, 'r) handles \<Rightarrow> ('h, 'r) handles option" where
  "hexec C Declare s = Some (s\<lparr>vars := vars s @ [Some (hc_default C)]\<rparr>)"
| "hexec C (Fill v r) s = (case var s v of
     None \<Rightarrow> None
   | Some h \<Rightarrow> if hc_fillable C h
       then let (old, h') = hc_fill C r h in Some (release old (set_var v (Some h') (s\<lparr>minted := r # minted s\<rparr>))) else None)"
| "hexec C (MoveNew v) s = (case var s v of
     None \<Rightarrow> None
   | Some h \<Rightarrow> let (new, old) = hc_move C h in Some ((set_var v (Some old) s)\<lparr>vars := (vars s)[v := Some old] @ [Some new]\<rparr>))"
| "hexec C (MoveAssign v w) s = (case (var s v, var s w) of
     (Some this, Some other) \<Rightarrow>
       let (old, this', other') = hc_assign C (v = w) this other in Some (release old (set_var w (Some other') (set_var v (Some this') s)))
   | _ \<Rightarrow> None)"
| "hexec C (Destroy v) s = (case var s v of None \<Rightarrow> None | Some h \<Rightarrow> Some (release (hc_dtor C h) (set_var v None s)))"

fun hrun :: "('h, 'r) handle_class \<Rightarrow> 'r hop list \<Rightarrow> ('h, 'r) handles \<Rightarrow> ('h, 'r) handles option" where
  "hrun C [] s = Some s"
| "hrun C (a # as) s = Option.bind (hexec C a s) (hrun C as)"

definition no_handles :: "('h, 'r) handles" where
  "no_handles = \<lparr>vars = [], minted = [], released = []\<rparr>"

definition owned_by :: "('h, 'r) handle_class \<Rightarrow> 'h option \<Rightarrow> 'r multiset" where
  "owned_by C x = (case Option.bind x (hc_res C) of None \<Rightarrow> {#} | Some r \<Rightarrow> {#r#})"

fun held_res :: "('h, 'r) handle_class \<Rightarrow> 'h option list \<Rightarrow> 'r multiset" where
  "held_res C [] = {#}"
| "held_res C (x # xs) = owned_by C x + held_res C xs"

lemma held_append [simp]: "held_res C (xs @ ys) = held_res C xs + held_res C ys"
  by (induction xs) (simp_all add: ac_simps)

lemma held_update: "v < length xs \<Longrightarrow> held_res C (xs[v := x]) + owned_by C (xs ! v) = held_res C xs + owned_by C x"
proof (induction xs arbitrary: v)
  case (Cons y ys)
  show ?case
  proof (cases v)
    case (Suc n)
    then show ?thesis using Cons.IH [of n] Cons.prems by (simp add: add.assoc)
  qed (simp add: ac_simps)
qed simp

lemma owned_by_simps [simp]: "owned_by C None = {#}" "hc_res C h = None \<Longrightarrow> owned_by C (Some h) = {#}"
  "hc_res C h = Some r \<Longrightarrow> owned_by C (Some h) = {#r#}"
  by (simp_all add: owned_by_def)

text \<open>The laws: moving hands the resource over and leaves nothing behind, assignment releases what the target owned, a destructor what
  its object owned.\<close>

locale move_only =
  fixes C :: "('h, 'r) handle_class"
  assumes default_empty: "hc_res C (hc_default C) = None"
    and move_res: "hc_move C h = (new, old) \<Longrightarrow> hc_res C new = hc_res C h \<and> hc_res C old = None"
    and assign_self: "hc_assign C True h h = (None, h, h)"
    and assign_res: "hc_assign C False this other = (freed, this', other') \<Longrightarrow>
      freed = hc_res C this \<and> hc_res C this' = hc_res C other \<and> hc_res C other' = None"
    and dtor_res: "hc_dtor C h = hc_res C h"
    and fill_res: "hc_fillable C h \<Longrightarrow> hc_fill C r h = (freed, h') \<Longrightarrow> freed = hc_res C h \<and> hc_res C h' = Some r"
begin

definition accounted :: "('h, 'r) handles \<Rightarrow> bool" where
  "accounted s \<longleftrightarrow> mset (minted s) = mset (released s) + held_res C (vars s)"

lemma owned_cong: "hc_res C h = hc_res C k \<Longrightarrow> owned_by C (Some h) = owned_by C (Some k)"
  by (simp add: owned_by_def)

lemma released_release: "mset (released (release (hc_res C h) s)) = owned_by C (Some h) + mset (released s)"
  by (simp add: release_def owned_by_def split: option.splits)

lemma release_frame [simp]: "vars (release r s) = vars s" "minted (release r s) = minted s"
  by (simp_all add: release_def split: option.splits)

lemma held_set: "var s v = Some h \<Longrightarrow> held_res C ((vars s)[v := x]) + owned_by C (Some h) = held_res C (vars s) + owned_by C x"
  using held_update [of v "vars s" C x] by (simp add: var_def split: if_splits)

lemma fill_accounted:
  assumes "accounted s" "hexec C (Fill v r) s = Some s'"
  shows "accounted s'"
proof -
  obtain h h' where h: "var s v = Some h" "hc_res C h' = Some r"
    and s': "s' = release (hc_res C h) (set_var v (Some h') (s\<lparr>minted := r # minted s\<rparr>))"
    using assms(2) by (auto split: option.splits if_splits prod.splits dest!: fill_res)
  show ?thesis using assms(1) held_set [OF h(1), of "Some h'"] h(2)
    by (simp add: accounted_def s' released_release set_var_def ac_simps)
qed

lemma move_accounted:
  assumes "accounted s" "hexec C (MoveNew v) s = Some s'"
  shows "accounted s'"
proof -
  obtain h new old where h: "var s v = Some h" "hc_move C h = (new, old)" and s': "s' = (set_var v (Some old) s)\<lparr>vars := (vars s)[v := Some old] @ [Some new]\<rparr>"
    using assms(2) by (auto split: option.splits prod.splits)
  show ?thesis using assms(1) held_set [OF h(1), of "Some old"] move_res [OF h(2)] owned_cong [of new h]
    by (simp add: accounted_def s' set_var_def ac_simps)
qed

lemma assign_accounted:
  assumes "accounted s" "hexec C (MoveAssign v w) s = Some s'"
  shows "accounted s'"
proof (cases "v = w")
  case True
  have "set_var v (Some h) (set_var v (Some h) s) = s" if "var s v = Some h" for h
    using that by (auto simp: set_var_def var_def split: if_splits) (metis list_update_id handles.surjective handles.update_convs(1))
  then show ?thesis using assms True by (auto simp: assign_self release_def split: option.splits)
next
  case False
  obtain this oth r this' oth' where h: "var s v = Some this" "var s w = Some oth" "hc_assign C False this oth = (r, this', oth')"
    and s': "s' = release r (set_var w (Some oth') (set_var v (Some this') s))"
    using assms(2) False by (auto split: option.splits prod.splits)
  note a = assign_res [OF h(3)]
  have "var (set_var v (Some this') s) w = Some oth" using h(2) False by (simp add: var_def set_var_def split: if_splits)
  from held_set [OF this, of "Some oth'"] held_set [OF h(1), of "Some this'"]
  have eq: "held_res C (vars s') + owned_by C (Some oth) = held_res C ((vars s)[v := Some this'])"
    "held_res C ((vars s)[v := Some this']) + owned_by C (Some this) = held_res C (vars s) + owned_by C (Some oth)"
    using a owned_cong [of this' oth] by (simp_all add: s' set_var_def)
  have "(owned_by C (Some this) + held_res C (vars s')) + owned_by C (Some oth) = held_res C (vars s) + owned_by C (Some oth)"
    unfolding add.assoc eq(1) using eq(2) by (simp add: add.commute)
  then have "held_res C (vars s') + owned_by C (Some this) = held_res C (vars s)"
    unfolding add_right_cancel by (simp add: add.commute)
  then show ?thesis using assms(1) a by (simp add: accounted_def s' released_release set_var_def ac_simps)
qed

lemma destroy_accounted:
  assumes "accounted s" "hexec C (Destroy v) s = Some s'"
  shows "accounted s'"
proof -
  obtain h where h: "var s v = Some h" and s': "s' = release (hc_res C h) (set_var v None s)"
    using assms(2) by (auto simp: dtor_res split: option.splits)
  show ?thesis using assms(1) held_set [OF h, of None] by (simp add: accounted_def s' released_release set_var_def ac_simps)
qed

lemma exec_accounted:
  assumes "accounted s" "hexec C a s = Some s'"
  shows "accounted s'"
proof (cases a)
  case Declare
  then show ?thesis using assms default_empty by (auto simp: accounted_def)
qed (use assms fill_accounted move_accounted assign_accounted destroy_accounted in blast)+

lemma run_accounted: "hrun C as s = Some s' \<Longrightarrow> accounted s \<Longrightarrow> accounted s'"
  by (induction as arbitrary: s) (auto split: Option.bind_splits dest: exec_accounted)

lemma handles_exact: "hrun C as no_handles = Some s \<Longrightarrow> mset (minted s) = mset (released s) + held_res C (vars s)"
  using run_accounted [of as no_handles s] by (simp add: accounted_def no_handles_def)

end

section \<open>Endpoint\<close>

record Endpoint =
  ep_impl :: "nat option"

definition Endpoint_ctor :: Endpoint where
  "Endpoint_ctor = \<lparr>ep_impl = None\<rparr>"

definition Endpoint_move :: "Endpoint \<Rightarrow> Endpoint \<times> Endpoint" where
  "Endpoint_move other = (\<lparr>ep_impl = ep_impl other\<rparr>, other\<lparr>ep_impl := None\<rparr>)"

text \<open>\<open>same\<close>: \<^verbatim>\<open>this == &other\<close>.\<close>

definition Endpoint_assign :: "bool \<Rightarrow> Endpoint \<Rightarrow> Endpoint \<Rightarrow> nat option \<times> Endpoint \<times> Endpoint" where
  "Endpoint_assign same this other =
     (if \<not> same then (ep_impl this, this\<lparr>ep_impl := ep_impl other\<rparr>, other\<lparr>ep_impl := None\<rparr>) else (None, this, other))"

definition Endpoint_dtor :: "Endpoint \<Rightarrow> nat option" where
  "Endpoint_dtor this = ep_impl this"

definition Endpoint_MatchedCount :: "(nat \<Rightarrow> u64) \<Rightarrow> Endpoint \<Rightarrow> u64" where
  "Endpoint_MatchedCount matched this = (case ep_impl this of None \<Rightarrow> 0 | Some p \<Rightarrow> matched p)"

definition Server_status :: "(nat \<Rightarrow> AdvertiseStatus) \<Rightarrow> Endpoint \<Rightarrow> AdvertiseStatus" where
  "Server_status st this = (case ep_impl this of None \<Rightarrow> Advertise_kUnsupportedReach | Some p \<Rightarrow> st p)"

definition Client_status :: "(nat \<Rightarrow> SubscribeStatus) \<Rightarrow> Endpoint \<Rightarrow> SubscribeStatus" where
  "Client_status st this = (case ep_impl this of None \<Rightarrow> Subscribe_kUnsupportedReach | Some p \<Rightarrow> st p)"

definition Endpoint_class :: "(Endpoint, nat) handle_class" where
  "Endpoint_class = \<lparr>hc_res = ep_impl, hc_default = Endpoint_ctor, hc_move = Endpoint_move, hc_assign = Endpoint_assign,
     hc_dtor = Endpoint_dtor, hc_fillable = (\<lambda>h. ep_impl h = None), hc_fill = (\<lambda>p h. (None, h\<lparr>ep_impl := Some p\<rparr>))\<rparr>"

interpretation endpoint: move_only Endpoint_class
  by unfold_locales (auto simp: Endpoint_class_def Endpoint_ctor_def Endpoint_move_def Endpoint_assign_def Endpoint_dtor_def)

text \<open>A moved-from endpoint answers like one that never came to anything.\<close>

lemma moved_from_inert:
  assumes "Endpoint_move h = (new, old)"
  shows "Endpoint_MatchedCount matched old = 0" "Server_status sa old = Advertise_kUnsupportedReach"
    "Client_status ss old = Subscribe_kUnsupportedReach" "Endpoint_MatchedCount matched new = Endpoint_MatchedCount matched h"
    "Server_status sa new = Server_status sa h" "Client_status ss new = Client_status ss h"
  using assms by (auto simp: Endpoint_move_def Endpoint_MatchedCount_def Server_status_def Client_status_def)

section \<open>ShmMapping\<close>

text \<open>The resource of a mapping is its address with its length: \<^verbatim>\<open>munmap\<close> has to be given both as \<^verbatim>\<open>mmap\<close> had them.\<close>

record ShmMapping =
  sm_base :: "nat option"
  sm_size :: nat
  sm_created :: bool

definition sm_res :: "ShmMapping \<Rightarrow> (nat \<times> nat) option" where
  "sm_res m = map_option (\<lambda>b. (b, sm_size m)) (sm_base m)"

definition ShmMapping_ctor :: ShmMapping where
  "ShmMapping_ctor = \<lparr>sm_base = None, sm_size = 0, sm_created = False\<rparr>"

definition ShmMapping_Unmap :: "ShmMapping \<Rightarrow> (nat \<times> nat) option \<times> ShmMapping" where
  "ShmMapping_Unmap m = (case sm_base m of None \<Rightarrow> (None, m) | Some b \<Rightarrow> (Some (b, sm_size m), m\<lparr>sm_base := None\<rparr>))"

definition ShmMapping_move :: "ShmMapping \<Rightarrow> ShmMapping \<times> ShmMapping" where
  "ShmMapping_move other = (\<lparr>sm_base = sm_base other, sm_size = sm_size other, sm_created = sm_created other\<rparr>,
     other\<lparr>sm_base := None, sm_size := 0\<rparr>)"

definition ShmMapping_assign :: "bool \<Rightarrow> ShmMapping \<Rightarrow> ShmMapping \<Rightarrow> (nat \<times> nat) option \<times> ShmMapping \<times> ShmMapping" where
  "ShmMapping_assign same this other = (if \<not> same then let (freed, this') = ShmMapping_Unmap this in
     (freed, this'\<lparr>sm_base := sm_base other, sm_size := sm_size other, sm_created := sm_created other\<rparr>,
      other\<lparr>sm_base := None, sm_size := 0\<rparr>) else (None, this, other))"

definition ShmMapping_dtor :: "ShmMapping \<Rightarrow> (nat \<times> nat) option" where
  "ShmMapping_dtor m = fst (ShmMapping_Unmap m)"

text \<open>How \<^verbatim>\<open>OpenOrCreate\<close> fills its out-parameter; it is only called with a mapping that holds nothing.\<close>

definition ShmMapping_out :: "bool \<Rightarrow> nat \<times> nat \<Rightarrow> ShmMapping \<Rightarrow> ShmMapping" where
  "ShmMapping_out created r m = m\<lparr>sm_base := Some (fst r), sm_size := snd r, sm_created := created\<rparr>"

definition ShmMapping_class :: "bool \<Rightarrow> (ShmMapping, nat \<times> nat) handle_class" where
  "ShmMapping_class created = \<lparr>hc_res = sm_res, hc_default = ShmMapping_ctor, hc_move = ShmMapping_move, hc_assign = ShmMapping_assign,
     hc_dtor = ShmMapping_dtor, hc_fillable = (\<lambda>m. sm_base m = None), hc_fill = (\<lambda>r m. (None, ShmMapping_out created r m))\<rparr>"

lemmas mapping_defs = ShmMapping_class_def sm_res_def ShmMapping_ctor_def ShmMapping_Unmap_def ShmMapping_move_def ShmMapping_assign_def
  ShmMapping_dtor_def ShmMapping_out_def

interpretation mapping: move_only "ShmMapping_class created"
  by unfold_locales (auto simp: mapping_defs split: option.splits)

section \<open>IntrospectReader\<close>

record ReaderHandle =
  rd_base :: "nat option"
  rd_size :: nat
  rd_name :: string

definition rd_res :: "ReaderHandle \<Rightarrow> (nat \<times> nat) option" where
  "rd_res m = map_option (\<lambda>b. (b, rd_size m)) (rd_base m)"

definition Reader_ctor :: ReaderHandle where
  "Reader_ctor = \<lparr>rd_base = None, rd_size = 0, rd_name = []\<rparr>"

definition Reader_Unmap :: "ReaderHandle \<Rightarrow> (nat \<times> nat) option \<times> ReaderHandle" where
  "Reader_Unmap m = (case rd_base m of None \<Rightarrow> (None, m) | Some b \<Rightarrow> (Some (b, rd_size m), m\<lparr>rd_base := None, rd_size := 0\<rparr>))"

text \<open>A moved-from string is left in a valid but unspecified state: \<open>rest\<close>.\<close>

definition Reader_move :: "string \<Rightarrow> ReaderHandle \<Rightarrow> ReaderHandle \<times> ReaderHandle" where
  "Reader_move rest other = (\<lparr>rd_base = rd_base other, rd_size = rd_size other, rd_name = rd_name other\<rparr>,
     \<lparr>rd_base = None, rd_size = 0, rd_name = rest\<rparr>)"

definition Reader_assign :: "string \<Rightarrow> bool \<Rightarrow> ReaderHandle \<Rightarrow> ReaderHandle \<Rightarrow> (nat \<times> nat) option \<times> ReaderHandle \<times> ReaderHandle" where
  "Reader_assign rest same this other = (if \<not> same then let (freed, this') = Reader_Unmap this in
     (freed, this'\<lparr>rd_base := rd_base other, rd_size := rd_size other, rd_name := rd_name other\<rparr>,
      \<lparr>rd_base = None, rd_size = 0, rd_name = rest\<rparr>) else (None, this, other))"

definition Reader_dtor :: "ReaderHandle \<Rightarrow> (nat \<times> nat) option" where
  "Reader_dtor m = fst (Reader_Unmap m)"

text \<open>The end of a successful \<^verbatim>\<open>Open\<close>: whatever the reader had mapped is unmapped first.\<close>

definition Reader_out :: "string \<Rightarrow> nat \<times> nat \<Rightarrow> ReaderHandle \<Rightarrow> (nat \<times> nat) option \<times> ReaderHandle" where
  "Reader_out nm r m = (let (freed, m') = Reader_Unmap m in (freed, m'\<lparr>rd_base := Some (fst r), rd_size := snd r, rd_name := nm\<rparr>))"

definition Reader_class :: "string \<Rightarrow> string \<Rightarrow> (ReaderHandle, nat \<times> nat) handle_class" where
  "Reader_class rest nm = \<lparr>hc_res = rd_res, hc_default = Reader_ctor, hc_move = Reader_move rest, hc_assign = Reader_assign rest,
     hc_dtor = Reader_dtor, hc_fillable = (\<lambda>_. True), hc_fill = Reader_out nm\<rparr>"

lemmas reader_defs = Reader_class_def rd_res_def Reader_ctor_def Reader_Unmap_def Reader_move_def Reader_assign_def Reader_dtor_def
  Reader_out_def

interpretation reader: move_only "Reader_class rest nm"
  by unfold_locales (auto simp: reader_defs split: option.splits)

section \<open>Every resource is released exactly once\<close>

text \<open>C38. Handles neither leak nor release twice: after any program of declarations, set-ups, moves, assignments (to themselves
  included) and destructions over endpoint handles, segment mappings and introspection readers, the resources set up are exactly those
  released together with those still held, each as often as it was set up, and a mapping is unmapped with the length it was
  mapped with.\<close>

theorem handle_ownership_exact:
  "(hrun Endpoint_class ps no_handles = Some s \<longrightarrow> mset (minted s) = mset (released s) + held_res Endpoint_class (vars s)) \<and>
   (hrun (ShmMapping_class created) qs no_handles = Some t \<longrightarrow>
      mset (minted t) = mset (released t) + held_res (ShmMapping_class created) (vars t)) \<and>
   (hrun (Reader_class rest nm) rs no_handles = Some u \<longrightarrow>
      mset (minted u) = mset (released u) + held_res (Reader_class rest nm) (vars u))"
  using endpoint.handles_exact mapping.handles_exact reader.handles_exact by blast

text \<open>Two endpoints, the second assigned to the first, then to itself, and both destroyed.\<close>

definition demo_hops :: "nat hop list" where
  "demo_hops = [Declare, Fill 0 7, Declare, Fill 1 8, MoveAssign 0 1, MoveAssign 0 0, MoveNew 0, Destroy 1, Destroy 0, Destroy 2]"

definition demo_maps :: "(nat \<times> nat) hop list" where
  "demo_maps = [Declare, Fill 0 (4096, 80), MoveNew 0, Declare, MoveAssign 2 1, Destroy 2]"

theorem handle_ownership_exact_witness:
  "\<exists>s t u. hrun Endpoint_class demo_hops no_handles = Some s \<and> mset (released s) = {#7, 8#} \<and>
     hrun (ShmMapping_class True) demo_maps no_handles = Some t \<and> mset (released t) = {#(4096, 80)#} \<and>
     hrun (Reader_class [] ''a'') demo_maps no_handles = Some u \<and> mset (released u) = {#(4096, 80)#}"
proof -
  have 1: "hrun Endpoint_class demo_hops no_handles = Some \<lparr>vars = [None, None, None], minted = [8, 7], released = [8, 7]\<rparr>"
    by code_simp
  have 2: "hrun (ShmMapping_class True) demo_maps no_handles =
      Some \<lparr>vars = [Some \<lparr>sm_base = None, sm_size = 0, sm_created = True\<rparr>, Some \<lparr>sm_base = None, sm_size = 0, sm_created = True\<rparr>, None],
        minted = [(4096, 80)], released = [(4096, 80)]\<rparr>" by code_simp
  have 3: "hrun (Reader_class [] ''a'') demo_maps no_handles =
      Some \<lparr>vars = [Some \<lparr>rd_base = None, rd_size = 0, rd_name = []\<rparr>, Some \<lparr>rd_base = None, rd_size = 0, rd_name = []\<rparr>, None],
        minted = [(4096, 80)], released = [(4096, 80)]\<rparr>" by code_simp
  show ?thesis
    using handle_ownership_exact [of demo_hops _ True demo_maps _ "[]" "''a''" demo_maps] 1 2 3
    by (simp add: mapping_defs reader_defs)
qed

end
