(* ===== verification/Bench.thy ===== *)
theory Bench
  imports Text_Format Xm_Vocabulary
begin

text \<open>
  The benchmark suite (\<^verbatim>\<open>bench/xmmsg_bench.cpp\<close>): its options, the scaling of its sample counts, the row every benchmark records, the allocation gate and the exit code; and the two loops of a path measurement, the paced producer and the
  consumer that records one latency per new value. Measured quantities (statistics, allocation counts, clock readings) are
  arguments; of the jitter statistics a row keeps two figures, here all of them. The measuring loops and the benchmarks that run on the
  modelled library are in \<open>Bench_Measure\<close>, \<open>Bench_Queue\<close> and \<open>Bench_Latest\<close>.
\<close>

section \<open>Options\<close>

record bench_options =
  out_path :: string
  g_smoke :: bool
  g_filter :: string

definition bench_options_init :: bench_options where
  "bench_options_init = \<lparr>out_path = [], g_smoke = False, g_filter = []\<rparr>"

text \<open>The argument loop of \<^verbatim>\<open>main\<close>; \<open>None\<close> is the usage error.\<close>

fun bench_args :: "string list \<Rightarrow> bench_options \<Rightarrow> bench_options option" where
  "bench_args [] opts = Some opts"
| "bench_args [arg] opts = (if arg = ''--smoke'' then Some (opts\<lparr>g_smoke := True\<rparr>) else None)"
| "bench_args (arg # val # as) opts =
     (if arg = ''--out'' then bench_args as (opts\<lparr>out_path := val\<rparr>)
      else if arg = ''--smoke'' then bench_args (val # as) (opts\<lparr>g_smoke := True\<rparr>)
      else if arg = ''--filter'' then bench_args as (opts\<lparr>g_filter := val\<rparr>)
      else None)"

definition contains :: "string \<Rightarrow> string \<Rightarrow> bool" where
  "contains name sub \<longleftrightarrow> list_ex (\<lambda>i. take (length sub) (drop i name) = sub) [0..<Suc (length name)]"

definition Enabled :: "bench_options \<Rightarrow> string \<Rightarrow> bool" where
  "Enabled opts name \<longleftrightarrow> g_filter opts = [] \<or> contains name (g_filter opts)"

lemma contains_iff: "contains name sub \<longleftrightarrow> (\<exists>xs ys. name = xs @ sub @ ys)"
proof
  assume "contains name sub"
  then obtain i where "take (length sub) (drop i name) = sub" by (auto simp: contains_def list_ex_iff)
  then have "name = take i name @ sub @ drop (length sub) (drop i name)" by (metis append_take_drop_id)
  then show "\<exists>xs ys. name = xs @ sub @ ys" by blast
next
  assume "\<exists>xs ys. name = xs @ sub @ ys"
  then obtain xs ys where "name = xs @ sub @ ys" by blast
  then show "contains name sub" unfolding contains_def list_ex_iff by (intro bexI [of _ "length xs"]) auto
qed

section \<open>Scaling\<close>

text \<open>\<^verbatim>\<open>g_scale\<close> is 1.0, or 0.15 in a smoke run. The double nearest to 0.15 is \<open>5404319552844595 / 2\<^sup>5\<^sup>5\<close>; the product is rounded to 53
  significant bits, half to even, and the conversion to an integer truncates. (Arguments are below \<open>2\<^sup>5\<^sup>3\<close>, hence exact.)\<close>

fun bit_len :: "nat \<Rightarrow> nat" where
  "bit_len n = (if n = 0 then 0 else Suc (bit_len (n div 2)))"

declare bit_len.simps [simp del]

definition round_even :: "nat \<Rightarrow> nat \<Rightarrow> nat" where
  "round_even p s = (let q = p div 2 ^ s; r = p mod 2 ^ s; h = 2 ^ (s - 1) in if r > h \<or> r = h \<and> odd q then Suc q else q)"

definition times_smoke :: "nat \<Rightarrow> nat" where
  "times_smoke n = (let p = n * 5404319552844595; b = bit_len p
     in (if b \<le> 53 then p else round_even p (b - 53) * 2 ^ (b - 53)) div 2 ^ 55)"

definition scaled :: "bool \<Rightarrow> nat \<Rightarrow> nat" where
  "scaled smoke n = (if smoke then times_smoke n else n)"

definition ScaledSamples :: "bool \<Rightarrow> nat \<Rightarrow> nat" where
  "ScaledSamples smoke samples = (let s = scaled smoke samples in if s < 50 then 50 else s)"

definition ScaledDuration :: "bool \<Rightarrow> nat \<Rightarrow> nat" where
  "ScaledDuration smoke d = (let s = scaled smoke d in if s < 500000000 then 500000000 else s)"

definition MicroBatch :: "nat \<Rightarrow> nat" where
  "MicroBatch kBytes = (if kBytes \<ge> 65536 then 32 else 256)"

definition MicroSamples :: "bool \<Rightarrow> nat \<Rightarrow> nat" where
  "MicroSamples smoke kBytes = ScaledSamples smoke (if kBytes \<ge> 65536 then 300 else 400)"

lemma bit_len_eval: "bit_len 0 = 0" "bit_len (numeral k) = Suc (bit_len (numeral k div 2))" "bit_len (Suc 0) = 1"
  using bit_len.simps [of 0] bit_len.simps [of "numeral k"] bit_len.simps [of 1] by simp_all

lemma smoke_samples:
  "ScaledSamples True 300 = 50" "ScaledSamples True 400 = 60" "ScaledSamples True 1500 = 225" "ScaledSamples True 2500 = 375"
  "ScaledDuration True 3000000000 = 500000000" "ScaledDuration True 4000000000 = 600000000" "ScaledDuration True 5000000000 = 750000000"
  by (simp_all add: ScaledSamples_def ScaledDuration_def scaled_def times_smoke_def round_even_def bit_len_eval Let_def)

section \<open>Rows and the allocation gate\<close>

definition SizeLabel :: "nat \<Rightarrow> string" where
  "SizeLabel bytes = (if bytes = 64 then ''64B'' else if bytes = 1024 then ''1KiB'' else if bytes = 65536 then ''64KiB'' else ''?'')"

record 'st BenchResult =
  br_name :: string
  br_layer :: string
  br_payload_bytes :: nat
  br_contended :: bool
  br_batch :: nat
  br_stats :: 'st
  br_allocations :: u64
  br_alloc_gated :: bool
  br_jitter :: "'st option"
  br_notes :: string

record 'st registry =
  g_results :: "'st BenchResult list"
  g_gate_failures :: "string list"

definition registry_init :: "'st registry" where
  "registry_init = \<lparr>g_results = [], g_gate_failures = []\<rparr>"

definition gate_failure :: "'st BenchResult \<Rightarrow> string list" where
  "gate_failure r = (if br_alloc_gated r \<and> br_allocations r \<noteq> 0
     then [br_name r @ '': '' @ decimal (unat (br_allocations r)) @ '' allocation(s) in the measured section''] else [])"

definition Record :: "'st BenchResult \<Rightarrow> 'st registry \<Rightarrow> 'st registry" where
  "Record r g = g\<lparr>g_gate_failures := g_gate_failures g @ gate_failure r, g_results := g_results g @ [r]\<rparr>"

section \<open>The benchmarks and their rows\<close>

datatype bench =
  PublishLatest nat bool | LoanPublish nat | TakeLatestHit nat bool | TakeLatestMiss | QueuePublish nat | QueueTryTake nat
| QueueContended nat bool | RpcRoundTrip nat bool

definition PublishLatest_name :: "nat \<Rightarrow> bool \<Rightarrow> string" where
  "PublishLatest_name kBytes contended =
     (if contended then ''contended/publish_latest_1w4r/'' else ''micro/publish_latest/'') @ SizeLabel kBytes"

definition LoanPublish_name :: "nat \<Rightarrow> string" where
  "LoanPublish_name kBytes = ''micro/loan_publish/'' @ SizeLabel kBytes"

definition TakeLatestHit_name :: "nat \<Rightarrow> bool \<Rightarrow> string" where
  "TakeLatestHit_name kBytes contended =
     (if contended then ''contended/take_latest_1w4r/'' else ''micro/take_latest_hit/'') @ SizeLabel kBytes"

definition QueuePublish_name :: "nat \<Rightarrow> string" where
  "QueuePublish_name kBytes = ''micro/queue_publish/'' @ SizeLabel kBytes"

definition QueueTryTake_name :: "nat \<Rightarrow> string" where
  "QueueTryTake_name kBytes = ''micro/queue_trytake/'' @ SizeLabel kBytes"

definition QueueContended_name :: "nat \<Rightarrow> bool \<Rightarrow> string" where
  "QueueContended_name kBytes measure_publish =
     (if measure_publish then ''contended/queue_publish_spsc_race/'' else ''contended/queue_trytake_spsc_race/'') @ SizeLabel kBytes"

definition RpcRoundTrip_name :: "nat \<Rightarrow> bool \<Rightarrow> string" where
  "RpcRoundTrip_name kBytes contended =
     (if contended then ''contended/rpc_call_4clients/'' else ''micro/rpc_call_roundtrip/'') @ SizeLabel kBytes"

definition kQueueDepth :: nat where
  "kQueueDepth = 1024"

definition kQueueBatch :: nat where
  "kQueueBatch = 512"

text \<open>The row a benchmark records, from the statistics and the allocation count of its measured section. RPC calls are recorded but not
  gated.\<close>

definition micro_row :: "string \<Rightarrow> bool \<Rightarrow> nat \<Rightarrow> nat \<Rightarrow> bool \<Rightarrow> 'st \<Rightarrow> u64 \<Rightarrow> 'st BenchResult" where
  "micro_row name contended kBytes batch gated stats allocs = \<lparr>br_name = name, br_layer = (if contended then ''contended'' else ''micro''),
     br_payload_bytes = kBytes, br_contended = contended, br_batch = batch, br_stats = stats, br_allocations = allocs, br_alloc_gated = gated,
     br_jitter = None, br_notes = []\<rparr>"

fun bench_row :: "bench \<Rightarrow> 'st \<Rightarrow> u64 \<Rightarrow> 'st BenchResult" where
  "bench_row (PublishLatest kBytes contended) = micro_row (PublishLatest_name kBytes contended) contended kBytes (MicroBatch kBytes) True"
| "bench_row (LoanPublish kBytes) = micro_row (LoanPublish_name kBytes) False kBytes (MicroBatch kBytes) True"
| "bench_row (TakeLatestHit kBytes contended) = micro_row (TakeLatestHit_name kBytes contended) contended kBytes (MicroBatch kBytes) True"
| "bench_row TakeLatestMiss = micro_row ''micro/take_latest_miss/64B'' False 64 (MicroBatch 64) True"
| "bench_row (QueuePublish kBytes) = micro_row (QueuePublish_name kBytes) False kBytes kQueueBatch True"
| "bench_row (QueueTryTake kBytes) = micro_row (QueueTryTake_name kBytes) False kBytes kQueueBatch True"
| "bench_row (QueueContended kBytes pub) = micro_row (QueueContended_name kBytes pub) True kBytes (MicroBatch kBytes) True"
| "bench_row (RpcRoundTrip kBytes contended) = micro_row (RpcRoundTrip_name kBytes contended) contended kBytes 1 False"

text \<open>One call of a benchmark function: nothing when the filter excludes it.\<close>

definition run_bench :: "bench_options \<Rightarrow> (bench \<Rightarrow> 'st \<times> u64) \<Rightarrow> bench \<Rightarrow> 'st registry \<Rightarrow> 'st registry" where
  "run_bench opts measured b g = (let (stats, allocs) = measured b; r = bench_row b stats allocs
     in if Enabled opts (br_name r) then Record r g else g)"

section \<open>Path measurements\<close>

text \<open>The producer thread: \<open>nows\<close> are the clock readings of its loop condition, one per iteration. An iteration sleeps until the next
  tick when it is paced, and publishes the next sequence number.\<close>

fun path_producer :: "nanos \<Rightarrow> nanos \<Rightarrow> nanos \<Rightarrow> u64 \<Rightarrow> nanos list \<Rightarrow> (nanos option \<times> u64) list" where
  "path_producer period end_at next_tick seq [] = []"
| "path_producer period end_at next_tick seq (now # nows) = (if now < end_at
     then (if period > 0 then Some (next_tick + period) else None, seq + 1) #
       path_producer period end_at (if period > 0 then next_tick + period else next_tick) (seq + 1) nows
     else [])"

record path_state =
  last_seq :: u64
  last_arrival :: nanos
  latency_ns :: "nanos list"
  arrival_ns :: "nanos list"

definition path_state_init :: path_state where
  "path_state_init = \<lparr>last_seq = 0, last_arrival = 0, latency_ns = [], arrival_ns = []\<rparr>"

text \<open>One turn of the consumer's loop, on what its take returned (sequence number and publish stamp, or nothing) and on the clock, which
  it reads only for a new value.\<close>

definition path_consume :: "nanos \<Rightarrow> nat \<Rightarrow> (u64 \<times> nanos) option \<times> nanos \<Rightarrow> path_state \<Rightarrow> path_state" where
  "path_consume period max_samples turn st = (case fst turn of
     None \<Rightarrow> st
   | Some (seq, stamp) \<Rightarrow>
       if seq = last_seq st then st
       else let now = snd turn;
                st1 = st\<lparr>last_seq := seq\<rparr>;
                st2 = (if length (latency_ns st1) < max_samples then st1\<lparr>latency_ns := latency_ns st1 @ [now - stamp]\<rparr> else st1)
            in if period > 0
               then (if last_arrival st2 \<noteq> 0 \<and> length (arrival_ns st2) < max_samples
                     then st2\<lparr>arrival_ns := arrival_ns st2 @ [now - last_arrival st2]\<rparr> else st2)\<lparr>last_arrival := now\<rparr>
               else st2)"

record 'st PathOutcome =
  po_latency :: 'st
  po_jitter :: "'st option"
  producer_allocations :: u64
  consumer_allocations :: u64

definition path_outcome :: "(nanos list \<Rightarrow> 'st) \<Rightarrow> nanos \<Rightarrow> u64 \<Rightarrow> u64 \<Rightarrow> path_state \<Rightarrow> 'st PathOutcome" where
  "path_outcome ComputeStats period pa ca st = \<lparr>po_latency = ComputeStats (latency_ns st),
     po_jitter = (if period > 0 \<and> arrival_ns st \<noteq> [] then Some (ComputeStats (map (\<lambda>a. \<bar>a - period\<bar>) (arrival_ns st))) else None),
     producer_allocations = pa, consumer_allocations = ca\<rparr>"

definition RecordPath :: "string \<Rightarrow> nat \<Rightarrow> bool \<Rightarrow> 'st PathOutcome \<Rightarrow> string \<Rightarrow> 'st registry \<Rightarrow> 'st registry" where
  "RecordPath name payload_bytes contended oc notes g = Record \<lparr>br_name = name, br_layer = (if contended then ''contended'' else ''path''),
     br_payload_bytes = payload_bytes, br_contended = contended, br_batch = 1, br_stats = po_latency oc,
     br_allocations = producer_allocations oc + consumer_allocations oc, br_alloc_gated = True, br_jitter = po_jitter oc, br_notes = notes\<rparr> g"

text \<open>\<open>run kBytes isolation period run_for max_samples\<close> is the outcome of \<^verbatim>\<open>RunPath\<close>.\<close>

definition BenchPathLayer :: "bench_options \<Rightarrow> (nat \<Rightarrow> string \<Rightarrow> nat \<Rightarrow> nat \<Rightarrow> nat \<Rightarrow> 'st PathOutcome) \<Rightarrow> 'st registry \<Rightarrow> 'st registry" where
  "BenchPathLayer opts run g =
     (let g1 = (if Enabled opts ''path/hop_latency_10hz/1KiB''
            then RecordPath ''path/hop_latency_10hz/1KiB'' 1024 False
              (run 1024 ''bench_path_10hz'' 100000000 (ScaledDuration (g_smoke opts) 3000000000) 4096)
              ''M1 plan leg; low sample count is inherent at 10 Hz'' g else g);
          g2 = (if Enabled opts ''path/hop_latency_1khz/64B''
            then RecordPath ''path/hop_latency_1khz/64B'' 64 False
              (run 64 ''bench_path_1khz'' 1000000 (ScaledDuration (g_smoke opts) 4000000000) 65536) ''M1 control leg'' g1 else g1)
      in if Enabled opts ''path/hop_latency_saturation/64B''
         then RecordPath ''path/hop_latency_saturation/64B'' 64 False
              (run 64 ''bench_path_sat'' 0 (ScaledDuration (g_smoke opts) 2000000000) 400000)
              ''unpaced writer; latest-only overwrites are expected'' g2 else g2)"

definition BenchControlUnderFlood :: "bench_options \<Rightarrow> (nat \<Rightarrow> string \<Rightarrow> nat \<Rightarrow> nat \<Rightarrow> nat \<Rightarrow> 'st PathOutcome) \<Rightarrow> 'st registry \<Rightarrow> 'st registry" where
  "BenchControlUnderFlood opts run g = (if \<not> Enabled opts ''contended/control_hop_1khz_under_flood/64B'' then g
     else RecordPath ''contended/control_hop_1khz_under_flood/64B'' 64 True
       (run 64 ''bench_control_under_flood'' 1000000 (ScaledDuration (g_smoke opts) 4000000000) 65536)
       ''M3 flood profile (queue overflow + latest flood) concurrent; compare path/hop_latency_1khz/64B'' g)"

section \<open>The robot profile\<close>

record RateClass =
  rc_label :: string
  rc_period :: nat
  rc_topics :: nat

definition kClasses :: "RateClass list" where
  "kClasses = [\<lparr>rc_label = ''1khz'', rc_period = 1000000, rc_topics = 6\<rparr>, \<lparr>rc_label = ''100hz'', rc_period = 10000000, rc_topics = 8\<rparr>,
     \<lparr>rc_label = ''10hz'', rc_period = 100000000, rc_topics = 16\<rparr>]"

text \<open>\<^verbatim>\<open>%02d\<close>, the names of the topics of a class, and the capacity reserved for the latencies of one topic.\<close>

definition two_digits :: "nat \<Rightarrow> string" where
  "two_digits i = (if i < 10 then ''0'' else []) @ decimal i"

definition robot_topic :: "RateClass \<Rightarrow> nat \<Rightarrow> string" where
  "robot_topic rc i = ''bench.sys.'' @ rc_label rc @ ''.t'' @ two_digits i"

definition expected :: "nat \<Rightarrow> RateClass \<Rightarrow> nat" where
  "expected run_for rc = run_for div rc_period rc + 64"

text \<open>A consumer's turn on one topic: the latency is kept while it fits the reserved capacity.\<close>

definition robot_consume :: "nat \<Rightarrow> (u64 \<times> nanos) option \<times> nanos \<Rightarrow> u64 \<times> nanos list \<Rightarrow> u64 \<times> nanos list" where
  "robot_consume capacity turn st = (case fst turn of None \<Rightarrow> st
   | Some (seq, stamp) \<Rightarrow> if seq = fst st then st
       else (seq, if length (snd st) < capacity then snd st @ [snd turn - stamp] else snd st))"

text \<open>The rows: one per topic, recorded without the gate, then the row of the class; the first class carries the allocations.\<close>

definition robot_topic_row :: "(nanos list \<Rightarrow> 'st) \<Rightarrow> RateClass \<Rightarrow> nat \<Rightarrow> nanos list \<Rightarrow> 'st BenchResult" where
  "robot_topic_row ComputeStats rc i lat = \<lparr>br_name = ''system/robot30/'' @ rc_label rc @ ''/t'' @ two_digits i @ ''/64B'', br_layer = ''system'',
     br_payload_bytes = 64, br_contended = False, br_batch = 1, br_stats = ComputeStats lat, br_allocations = 0, br_alloc_gated = False,
     br_jitter = None, br_notes = []\<rparr>"

definition robot_class_row :: "(nanos list \<Rightarrow> 'st) \<Rightarrow> nat \<Rightarrow> RateClass \<Rightarrow> nanos list \<Rightarrow> u64 \<Rightarrow> 'st BenchResult" where
  "robot_class_row ComputeStats c rc lats allocs = \<lparr>br_name = ''system/robot30/'' @ rc_label rc @ ''_class/64B'', br_layer = ''system'',
     br_payload_bytes = 64, br_contended = False, br_batch = 1, br_stats = ComputeStats lats,
     br_allocations = (if c = 0 then allocs else 0), br_alloc_gated = (c = 0),
     br_jitter = None, br_notes = decimal (rc_topics rc) @ '' topics under the combined 30-topic load''\<rparr>"

definition robot_class :: "(nanos list \<Rightarrow> 'st) \<Rightarrow> (nat \<Rightarrow> nat \<Rightarrow> nanos list) \<Rightarrow> u64 \<Rightarrow> nat \<Rightarrow> 'st registry \<Rightarrow> 'st registry" where
  "robot_class ComputeStats lats allocs c g = (let rc = kClasses ! c; ixs = [0..<rc_topics rc];
     g1 = g\<lparr>g_results := g_results g @ map (\<lambda>i. robot_topic_row ComputeStats rc i (lats c i)) ixs\<rparr>
     in Record (robot_class_row ComputeStats c rc (concat (map (lats c) ixs)) allocs) g1)"

definition BenchSystemRobotProfile :: "bench_options \<Rightarrow> (nanos list \<Rightarrow> 'st) \<Rightarrow> (nat \<Rightarrow> nat \<Rightarrow> nanos list) \<Rightarrow> u64 \<Rightarrow> u64 \<Rightarrow>
  'st registry \<Rightarrow> 'st registry" where
  "BenchSystemRobotProfile opts ComputeStats lats pa ca g = (if \<not> Enabled opts ''system/robot30'' then g
     else fold (robot_class ComputeStats lats (pa + ca)) [0..<3] g)"

section \<open>The whole run\<close>

definition micro_plan :: "bench list" where
  "micro_plan = [PublishLatest 64 False, PublishLatest 1024 False, PublishLatest 65536 False, LoanPublish 64, LoanPublish 1024, LoanPublish 65536,
     TakeLatestHit 64 False, TakeLatestHit 1024 False, TakeLatestHit 65536 False, TakeLatestMiss, QueuePublish 64, QueuePublish 1024, QueuePublish 65536,
     QueueTryTake 64, QueueTryTake 1024, QueueTryTake 65536, RpcRoundTrip 64 False, RpcRoundTrip 1024 False, RpcRoundTrip 65536 False]"

definition contended_plan :: "bench list" where
  "contended_plan = [PublishLatest 64 True, PublishLatest 65536 True, TakeLatestHit 64 True, TakeLatestHit 65536 True, QueueContended 64 True,
     QueueContended 64 False, RpcRoundTrip 64 True]"

text \<open>What the measurements of one run give.\<close>

record 'st run_data =
  rd_stats :: "nanos list \<Rightarrow> 'st"
  rd_micro :: "bench \<Rightarrow> 'st \<times> u64"
  rd_path :: "nat \<Rightarrow> string \<Rightarrow> nat \<Rightarrow> nat \<Rightarrow> nat \<Rightarrow> 'st PathOutcome"
  rd_lats :: "nat \<Rightarrow> nat \<Rightarrow> nanos list"
  rd_pub_allocs :: u64
  rd_sub_allocs :: u64
  rd_written :: bool

definition bench_run :: "bench_options \<Rightarrow> 'st run_data \<Rightarrow> 'st registry" where
  "bench_run opts d =
     (let g1 = fold (run_bench opts (rd_micro d)) micro_plan registry_init;
          g2 = BenchPathLayer opts (rd_path d) g1;
          g3 = BenchSystemRobotProfile opts (rd_stats d) (rd_lats d) (rd_pub_allocs d) (rd_sub_allocs d) g2;
          g4 = fold (run_bench opts (rd_micro d)) contended_plan g3
      in BenchControlUnderFlood opts (rd_path d) g4)"

definition bench_exit :: "bench_options \<Rightarrow> bool \<Rightarrow> 'st registry \<Rightarrow> int" where
  "bench_exit opts written g = (if out_path opts \<noteq> [] \<and> \<not> written then 1 else if g_gate_failures g \<noteq> [] then 1 else 0)"

definition bench_main :: "string list \<Rightarrow> 'st run_data \<Rightarrow> int" where
  "bench_main args d = (case bench_args args bench_options_init of None \<Rightarrow> 2
   | Some opts \<Rightarrow> bench_exit opts (rd_written d) (bench_run opts d))"

section \<open>The gate\<close>

text \<open>The failures collected are those of the rows recorded, and a row once recorded stays.\<close>

definition gate_ok :: "'st registry \<Rightarrow> bool" where
  "gate_ok g \<longleftrightarrow> g_gate_failures g = concat (map gate_failure (g_results g))"

lemma Record_simps [simp]: "gate_ok g \<Longrightarrow> gate_ok (Record r g)" "g_results (Record r g) = g_results g @ [r]"
  by (simp_all add: gate_ok_def Record_def)

lemma run_bench_fold:
  assumes "gate_ok g"
  shows "gate_ok (fold (run_bench opts m) bs g) \<and> set (g_results g) \<subseteq> set (g_results (fold (run_bench opts m) bs g)) \<and>
    (\<forall>b\<in>set bs. Enabled opts (br_name (bench_row b (fst (m b)) (snd (m b)))) \<longrightarrow>
      bench_row b (fst (m b)) (snd (m b)) \<in> set (g_results (fold (run_bench opts m) bs g)))"
  using assms
proof (induction bs arbitrary: g)
  case (Cons b bs)
  let ?g = "run_bench opts m b g"
  have "gate_ok ?g" "set (g_results g) \<subseteq> set (g_results ?g)"
    "Enabled opts (br_name (bench_row b (fst (m b)) (snd (m b)))) \<Longrightarrow> bench_row b (fst (m b)) (snd (m b)) \<in> set (g_results ?g)"
    using Cons.prems by (auto simp: run_bench_def Let_def split: prod.splits)
  with Cons.IH [of ?g] show ?case by fastforce
qed simp

lemma path_layer_ok:
  assumes "gate_ok g"
  shows "gate_ok (BenchPathLayer opts run g) \<and> set (g_results g) \<subseteq> set (g_results (BenchPathLayer opts run g))"
  using assms by (auto simp: BenchPathLayer_def RecordPath_def Let_def)

lemma flood_ok:
  assumes "gate_ok g"
  shows "gate_ok (BenchControlUnderFlood opts run g) \<and> set (g_results g) \<subseteq> set (g_results (BenchControlUnderFlood opts run g))"
  using assms by (auto simp: BenchControlUnderFlood_def RecordPath_def)

lemma gate_ok_ungated:
  "gate_ok g \<Longrightarrow> (\<And>r. r \<in> set rs \<Longrightarrow> \<not> br_alloc_gated r) \<Longrightarrow> gate_ok (g\<lparr>g_results := g_results g @ rs\<rparr>)"
  by (auto simp: gate_ok_def gate_failure_def)

lemma robot_class_ok: "gate_ok g \<Longrightarrow> gate_ok (robot_class cs lats allocs c g) \<and> set (g_results g) \<subseteq> set (g_results (robot_class cs lats allocs c g))"
  by (auto simp: robot_class_def Let_def robot_topic_row_def intro!: Record_simps(1) gate_ok_ungated)

lemma robot_ok:
  assumes "gate_ok g"
  shows "gate_ok (BenchSystemRobotProfile opts cs lats pa ca g) \<and> set (g_results g) \<subseteq> set (g_results (BenchSystemRobotProfile opts cs lats pa ca g))"
proof -
  have "gate_ok (fold (robot_class cs lats allocs) is g) \<and> set (g_results g) \<subseteq> set (g_results (fold (robot_class cs lats allocs) is g))" for allocs "is"
    using assms
  proof (induction "is" arbitrary: g)
    case (Cons c js)
    then show ?case using robot_class_ok [of g cs lats allocs c] by (simp, meson order_trans)
  qed simp
  then show ?thesis using assms by (simp add: BenchSystemRobotProfile_def)
qed

lemma bench_run_ok:
  "gate_ok (bench_run opts d) \<and> (\<forall>b\<in>set (micro_plan @ contended_plan). Enabled opts (br_name (bench_row b (fst (rd_micro d b)) (snd (rd_micro d b)))) \<longrightarrow>
     bench_row b (fst (rd_micro d b)) (snd (rd_micro d b)) \<in> set (g_results (bench_run opts d)))"
proof -
  let ?m = "rd_micro d"
  define g1 where "g1 = fold (run_bench opts ?m) micro_plan registry_init"
  define g2 where "g2 = BenchPathLayer opts (rd_path d) g1"
  define g3 where "g3 = BenchSystemRobotProfile opts (rd_stats d) (rd_lats d) (rd_pub_allocs d) (rd_sub_allocs d) g2"
  define g4 where "g4 = fold (run_bench opts ?m) contended_plan g3"
  have run: "bench_run opts d = BenchControlUnderFlood opts (rd_path d) g4" by (simp add: bench_run_def g1_def g2_def g3_def g4_def Let_def)
  have 1: "gate_ok g1" "\<forall>b\<in>set micro_plan. Enabled opts (br_name (bench_row b (fst (?m b)) (snd (?m b)))) \<longrightarrow> bench_row b (fst (?m b)) (snd (?m b)) \<in> set (g_results g1)"
    using run_bench_fold [of registry_init opts ?m micro_plan] unfolding g1_def by (simp_all add: gate_ok_def registry_init_def)
  have 2: "gate_ok g3" "set (g_results g1) \<subseteq> set (g_results g3)"
    using path_layer_ok [OF 1(1)] robot_ok unfolding g3_def g2_def by (blast, meson 1(1) order_trans path_layer_ok robot_ok)
  note 3 = run_bench_fold [OF 2(1), of opts ?m contended_plan, folded g4_def]
  have 4: "gate_ok (bench_run opts d)" "set (g_results g4) \<subseteq> set (g_results (bench_run opts d))" using flood_ok 3 unfolding run by blast+
  show ?thesis using 1(2) 2(2) 3 4 by fastforce
qed

lemma no_failures: "gate_ok g \<Longrightarrow> g_gate_failures g = [] \<longleftrightarrow> (\<forall>r\<in>set (g_results g). br_alloc_gated r \<longrightarrow> br_allocations r = 0)"
  by (auto simp: gate_ok_def gate_failure_def)

text \<open>The allocation gate of the benchmark: the run exits with 0 exactly when its arguments are accepted, a requested report was
  written, and no gated row counted an allocation; with 2 exactly on a usage error; and every micro benchmark the filter lets
  through has its row among those the gate looked at.\<close>

lemma bench_gate_exact:
  "(bench_main args d = 0 \<longleftrightarrow> (\<exists>opts. bench_args args bench_options_init = Some opts \<and> (out_path opts = [] \<or> rd_written d) \<and>
      (\<forall>r\<in>set (g_results (bench_run opts d)). br_alloc_gated r \<longrightarrow> br_allocations r = 0))) \<and>
   (bench_main args d = 2 \<longleftrightarrow> bench_args args bench_options_init = None) \<and>
   (bench_args args bench_options_init = Some opts \<longrightarrow> b \<in> set (micro_plan @ contended_plan) \<longrightarrow>
      Enabled opts (br_name (bench_row b (fst (rd_micro d b)) (snd (rd_micro d b)))) \<longrightarrow>
      bench_row b (fst (rd_micro d b)) (snd (rd_micro d b)) \<in> set (g_results (bench_run opts d)))"
proof -
  have "bench_exit o' w (bench_run o' d) = 0 \<longleftrightarrow> (out_path o' = [] \<or> w) \<and>
      (\<forall>r\<in>set (g_results (bench_run o' d)). br_alloc_gated r \<longrightarrow> br_allocations r = 0)" for o' w
    using no_failures [OF conjunct1 [OF bench_run_ok], of o' d] by (auto simp: bench_exit_def)
  moreover have "bench_exit o' w g \<noteq> 2" for o' w and g :: "'a registry" by (simp add: bench_exit_def)
  ultimately show ?thesis using bench_run_ok [of opts d] by (auto simp: bench_main_def split: option.splits)
qed

text \<open>A smoke run of the queue benchmarks in which one take allocated.\<close>

definition demo_data :: "nat run_data" where
  "demo_data = \<lparr>rd_stats = length, rd_micro = (\<lambda>b. (0, if b = QueueTryTake 1024 then 1 else 0)),
     rd_path = (\<lambda>_ _ _ _ _. \<lparr>po_latency = 0, po_jitter = None, producer_allocations = 0, consumer_allocations = 0\<rparr>),
     rd_lats = (\<lambda>_ _. []), rd_pub_allocs = 0, rd_sub_allocs = 0, rd_written = True\<rparr>"

definition demo_options :: bench_options where
  "demo_options = \<lparr>out_path = [], g_smoke = True, g_filter = ''queue_trytake/''\<rparr>"

lemma bench_gate_exact_example:
  "bench_row (QueueTryTake 1024) 0 1 \<in> set (g_results (bench_run demo_options demo_data)) \<and>
   bench_main [''--smoke'', ''--filter'', ''queue_trytake/''] demo_data \<noteq> 0"
proof -
  let ?args = "[''--smoke'', ''--filter'', ''queue_trytake/'']" and ?b = "QueueTryTake 1024"
  have args: "bench_args ?args bench_options_init = Some demo_options" by (simp add: bench_options_init_def demo_options_def)
  have row: "rd_micro demo_data ?b = (0, 1)" by (simp add: demo_data_def)
  have "br_name (bench_row ?b (0 :: nat) 1) = ''micro/'' @ ''queue_trytake/'' @ ''1KiB''"
    by (simp add: micro_row_def QueueTryTake_name_def SizeLabel_def)
  moreover have "contains (''micro/'' @ ''queue_trytake/'' @ ''1KiB'') ''queue_trytake/''" unfolding contains_iff by blast
  ultimately have "Enabled demo_options (br_name (bench_row ?b (0 :: nat) 1))" by (simp add: Enabled_def demo_options_def)
  moreover have "?b \<in> set (micro_plan @ contended_plan)" by (simp add: micro_plan_def)
  ultimately have "bench_row ?b 0 1 \<in> set (g_results (bench_run demo_options demo_data))"
    using bench_gate_exact [of ?args demo_data demo_options ?b] args row by simp
  moreover have "br_alloc_gated (bench_row ?b (0 :: nat) 1)" "br_allocations (bench_row ?b (0 :: nat) 1) \<noteq> 0" by (simp_all add: micro_row_def)
  ultimately show ?thesis using bench_gate_exact [of ?args demo_data demo_options ?b] args by auto
qed

section \<open>What a path measurement keeps\<close>

text \<open>The buffers are reserved before the measured section and never grow beyond that.\<close>

lemma path_consume_bound:
  "length (latency_ns st) \<le> m \<Longrightarrow> length (arrival_ns st) \<le> m \<Longrightarrow>
   length (latency_ns (path_consume period m turn st)) \<le> m \<and> length (arrival_ns (path_consume period m turn st)) \<le> m"
  by (auto simp: path_consume_def Let_def split: option.splits prod.splits)

lemma path_buffers_bounded:
  "length (latency_ns (fold (path_consume period m) turns path_state_init)) \<le> m \<and>
   length (arrival_ns (fold (path_consume period m) turns path_state_init)) \<le> m"
proof -
  have "length (latency_ns st) \<le> m \<Longrightarrow> length (arrival_ns st) \<le> m \<Longrightarrow>
      length (latency_ns (fold (path_consume period m) turns st)) \<le> m \<and> length (arrival_ns (fold (path_consume period m) turns st)) \<le> m" for st
    by (induction turns arbitrary: st) (simp_all add: path_consume_bound)
  then show ?thesis by (simp add: path_state_init_def)
qed

text \<open>The sequence numbers a consumer saw, and how often they changed.\<close>

definition seen :: "((u64 \<times> nanos) option \<times> nanos) list \<Rightarrow> u64 list" where
  "seen turns = List.map_filter (\<lambda>t. map_option fst (fst t)) turns"

fun changes :: "u64 \<Rightarrow> u64 list \<Rightarrow> nat" where
  "changes l [] = 0"
| "changes l (x # xs) = (if x = l then changes l xs else Suc (changes x xs))"

lemma robot_consume_length:
  "length (snd st) \<le> cap \<Longrightarrow>
   length (snd (fold (robot_consume cap) turns st)) = min cap (length (snd st) + changes (fst st) (seen turns))"
proof (induction turns arbitrary: st)
  case (Cons t turns)
  have "length (snd (robot_consume cap t st)) \<le> cap" using Cons.prems by (simp add: robot_consume_def split: option.splits prod.splits)
  from Cons.IH [OF this] Cons.prems show ?case
    by (auto simp: robot_consume_def seen_def split: option.splits prod.splits)
qed (simp add: seen_def)

lemma changes_sorted: "sorted (l # xs) \<Longrightarrow> changes l xs = card (set xs - {l})"
proof (induction xs arbitrary: l)
  case (Cons x xs)
  show ?case
  proof (cases "x = l")
    case True
    then show ?thesis using Cons by (simp add: insert_Diff_if)
  next
    case False
    then have "l \<notin> set xs" using Cons.prems by auto
    then have "set (x # xs) - {l} = insert x (set xs - {x})" using False by auto
    moreover have "card (insert x (set xs - {x})) = Suc (card (set xs - {x}))" by (rule card_insert_disjoint) simp_all
    ultimately show ?thesis using Cons.IH [of x] Cons.prems False by (simp del: insert_Diff_single)
  qed
qed simp

section \<open>A paced producer\<close>

lemma producer_seqs: "map snd (path_producer period end_at tick seq nows) =
   map (\<lambda>k. seq + of_nat (Suc k)) [0..<length (path_producer period end_at tick seq nows)]"
proof (induction nows arbitrary: tick seq)
  case (Cons n nows)
  show ?case
    using Cons.IH [of "if period > 0 then tick + period else tick" "seq + 1"]
    by (simp add: upt_conv_Cons map_Suc_upt [symmetric] comp_def add.assoc del: upt_Suc)
qed simp

text \<open>\<^verbatim>\<open>sleep_until\<close> returns at its deadline or later, so a reading of the loop condition is not before the last tick.\<close>

definition after_sleeps :: "nanos \<Rightarrow> nanos \<Rightarrow> nanos list \<Rightarrow> bool" where
  "after_sleeps period tick nows \<longleftrightarrow> (\<forall>k<length nows. k > 0 \<longrightarrow> nows ! k \<ge> tick + int k * period)"

lemma producer_bound:
  assumes "period > 0" "after_sleeps period tick nows" "path_producer period end_at tick seq nows \<noteq> []"
  shows "int (length (path_producer period end_at tick seq nows) - 1) * period < max 1 (end_at - tick)"
  using assms(2,3)
proof (induction nows arbitrary: tick seq)
  case (Cons n nows)
  let ?rest = "path_producer period end_at (tick + period) (seq + 1) nows"
  have len: "length (path_producer period end_at tick seq (n # nows)) = Suc (length ?rest)" using Cons.prems assms(1) by (auto split: if_splits)
  have a: "after_sleeps period (tick + period) nows"
    unfolding after_sleeps_def
  proof (intro allI impI)
    fix k assume "k < length nows" "0 < k"
    then have "(n # nows) ! Suc k \<ge> tick + int (Suc k) * period" using Cons.prems(1) unfolding after_sleeps_def by (metis Suc_less_eq length_Cons zero_less_Suc)
    then show "nows ! k \<ge> tick + period + int k * period" by (simp add: algebra_simps)
  qed
  show ?case
  proof (cases "?rest = []")
    case True
    then show ?thesis unfolding len by simp
  next
    case False
    then obtain m ms where ms: "nows = m # ms" "m < end_at" by (cases nows) (auto split: if_splits)
    then have "tick + period \<le> m" using Cons.prems(1) unfolding after_sleeps_def by (auto dest: spec [of _ 1])
    then have "tick + period < end_at" using ms(2) by simp
    moreover have "int (length ?rest - 1) * period < max 1 (end_at - (tick + period))" by (rule Cons.IH [OF a False])
    moreover have "int (length ?rest) * period = int (length ?rest - 1) * period + period"
      using False by (cases "length ?rest") (simp_all add: algebra_simps)
    ultimately show ?thesis unfolding len by simp
  qed
qed simp

text \<open>A paced measurement keeps every value: a producer that sleeps until its ticks publishes at most one value per period and one
  more within its run time, and a consumer of the robot profile that sees those values in order records exactly one latency for
  each value it saw, since the reserved capacity is never exhausted.\<close>

lemma paced_samples_fit:
  assumes "rc_period rc > 0" "after_sleeps (int (rc_period rc)) tick nows" "start \<le> tick" "run_for div rc_period rc + 1 < 2 ^ 64"
    and "sorted (seen turns)" "set (seen turns) \<subseteq> snd ` set (path_producer (int (rc_period rc)) (start + int run_for) tick 0 nows)"
  shows "length (path_producer (int (rc_period rc)) (start + int run_for) tick 0 nows) \<le> run_for div rc_period rc + 1 \<and>
    length (snd (fold (robot_consume (expected run_for rc)) turns (0, []))) = card (set (seen turns))"
proof -
  let ?ps = "path_producer (int (rc_period rc)) (start + int run_for) tick 0 nows"
  have len: "length ?ps \<le> run_for div rc_period rc + 1"
  proof (cases "?ps = []")
    case False
    then have "int (length ?ps - 1) * int (rc_period rc) < max 1 (start + int run_for - tick)"
      using producer_bound [OF _ assms(2)] assms(1) by simp
    also have "\<dots> \<le> int run_for + 1" using assms(3) by simp
    finally have "int ((length ?ps - 1) * rc_period rc) < int run_for + 1" by simp
    then have "(length ?ps - 1) * rc_period rc \<le> run_for" by linarith
    then have "length ?ps - 1 \<le> run_for div rc_period rc" using assms(1) by (simp add: less_eq_div_iff_mult_less_eq)
    then show ?thesis by simp
  qed simp
  have seqs: "snd ` set ?ps = (\<lambda>k. of_nat (Suc k)) ` {0..<length ?ps}"
    using arg_cong [OF producer_seqs [of "int (rc_period rc)" "start + int run_for" tick 0 nows], of set] by simp
  have nz: "0 \<notin> set (seen turns)"
  proof
    assume "0 \<in> set (seen turns)"
    then obtain k where "k < length ?ps" "of_nat (Suc k) = (0 :: u64)" using assms(6) unfolding seqs by fastforce
    moreover have "Suc k < 2 ^ LENGTH(64)" using \<open>k < length ?ps\<close> len assms(4) by simp
    then have "unat (of_nat (Suc k) :: u64) = Suc k" unfolding unat_of_nat take_bit_eq_mod by (rule mod_less)
    ultimately show False by simp
  qed
  have "card (set (seen turns)) \<le> length ?ps"
    using card_mono [OF _ assms(6)] card_image_le [of "set ?ps" snd] card_length [of ?ps] by simp
  moreover have "changes 0 (seen turns) = card (set (seen turns))" using changes_sorted [of 0 "seen turns"] assms(5) nz by simp
  ultimately show ?thesis using len robot_consume_length [of "(0, [])" "expected run_for rc" turns] by (simp add: expected_def)
qed

text \<open>Three ticks of the 1 kHz class, of which the consumer sees the first and the third.\<close>

lemma paced_samples_fit_example:
  "length (snd (fold (robot_consume (expected 3000000 (kClasses ! 0)))
     [(None, 0), (Some (1, 1000050), 1000060), (Some (1, 1000050), 1000070), (Some (3, 3000010), 3000090)] (0, []))) = 2"
proof -
  let ?turns = "[(None, 0), (Some (1 :: u64, 1000050), 1000060), (Some (1, 1000050), 1000070), (Some (3, 3000010), 3000090 :: nanos)]"
  let ?nows = "[0, 1000020, 2000020, 3000020]"
  have seen: "seen ?turns = [1, 1, 3]" by (simp add: seen_def)
  have rc: "rc_period (kClasses ! 0) = 1000000" by (simp add: kClasses_def)
  have "after_sleeps 1000000 0 ?nows" by (auto simp: after_sleeps_def less_Suc_eq)
  from paced_samples_fit [of "kClasses ! 0" 0 ?nows 0 3000000 ?turns] this show ?thesis unfolding seen rc by simp
qed

end
