(* ===== verification/Bench_Measure.thy ===== *)
theory Bench_Measure
  imports Bench Domain_Properties "HOL-Library.Monad_Syntax"
begin

text \<open>
  The measuring loops of the benchmark over programs that may not return, and the state of a micro benchmark on the modelled library: a
  fresh domain with one publisher and one subscriber of one topic, the clock and the sink.
\<close>

section \<open>The measuring loops\<close>

text \<open>\<open>now\<close> reads the clock, \<open>allocs\<close> is the count an allocation probe reads, \<open>fdiv\<close> the floating-point quotient of a duration by the batch
  size.\<close>

fun iterate :: "nat \<Rightarrow> ('w \<Rightarrow> 'w option) \<Rightarrow> 'w \<Rightarrow> 'w option" where
  "iterate 0 op w = Some w"
| "iterate (Suc n) op w = do { w' \<leftarrow> op w; iterate n op w' }"

definition timed_batch :: "('w \<Rightarrow> nanos \<times> 'w) \<Rightarrow> (nanos \<Rightarrow> nat \<Rightarrow> 'd) \<Rightarrow> ('w \<Rightarrow> 'w option) \<Rightarrow> nat \<Rightarrow> 'w \<Rightarrow> ('d \<times> 'w) option" where
  "timed_batch now fdiv op batch w = (let (t0, w1) = now w in
     do { w2 \<leftarrow> iterate batch op w1; let (t1, w3) = now w2 in Some (fdiv (t1 - t0) batch, w3) })"

fun micro_samples :: "('w \<Rightarrow> nanos \<times> 'w) \<Rightarrow> (nanos \<Rightarrow> nat \<Rightarrow> 'd) \<Rightarrow> ('w \<Rightarrow> 'w option) \<Rightarrow> nat \<Rightarrow> nat \<Rightarrow> 'w \<Rightarrow> ('d list \<times> 'w) option" where
  "micro_samples now fdiv op batch 0 w = Some ([], w)"
| "micro_samples now fdiv op batch (Suc s) w = do { (x, w1) \<leftarrow> timed_batch now fdiv op batch w;
     (xs, w2) \<leftarrow> micro_samples now fdiv op batch s w1; Some (x # xs, w2) }"

definition MeasureMicro :: "('w \<Rightarrow> nanos \<times> 'w) \<Rightarrow> ('w \<Rightarrow> u64) \<Rightarrow> (nanos \<Rightarrow> nat \<Rightarrow> 'd) \<Rightarrow> ('w \<Rightarrow> 'w option) \<Rightarrow> nat \<Rightarrow> nat \<Rightarrow> 'w \<Rightarrow>
  ('d list \<times> u64 \<times> 'w) option" where
  "MeasureMicro now allocs fdiv op batch samples w = do { w1 \<leftarrow> iterate (batch * 4) op w;
     (xs, w2) \<leftarrow> micro_samples now fdiv op batch samples w1; Some (xs, allocs w2 - allocs w1, w2) }"

fun setup_samples :: "('w \<Rightarrow> nanos \<times> 'w) \<Rightarrow> ('w \<Rightarrow> u64) \<Rightarrow> (nanos \<Rightarrow> nat \<Rightarrow> 'd) \<Rightarrow> ('w \<Rightarrow> 'w option) \<Rightarrow> ('w \<Rightarrow> 'w option) \<Rightarrow> nat \<Rightarrow> nat \<Rightarrow> 'w \<Rightarrow>
  ('d list \<times> u64 \<times> 'w) option" where
  "setup_samples now allocs fdiv prep op batch 0 w = Some ([], 0, w)"
| "setup_samples now allocs fdiv prep op batch (Suc s) w = do { w1 \<leftarrow> prep w; (x, w2) \<leftarrow> timed_batch now fdiv op batch w1;
     (xs, total, w3) \<leftarrow> setup_samples now allocs fdiv prep op batch s w2; Some (x # xs, (allocs w2 - allocs w1) + total, w3) }"

definition MeasureMicroWithSetup :: "('w \<Rightarrow> nanos \<times> 'w) \<Rightarrow> ('w \<Rightarrow> u64) \<Rightarrow> (nanos \<Rightarrow> nat \<Rightarrow> 'd) \<Rightarrow> ('w \<Rightarrow> 'w option) \<Rightarrow> ('w \<Rightarrow> 'w option) \<Rightarrow>
  nat \<Rightarrow> nat \<Rightarrow> 'w \<Rightarrow> ('d list \<times> u64 \<times> 'w) option" where
  "MeasureMicroWithSetup now allocs fdiv prep op batch samples w = do { w1 \<leftarrow> prep w; w2 \<leftarrow> iterate batch op w1;
     setup_samples now allocs fdiv prep op batch samples w2 }"

text \<open>What a benchmark has to show of its set-up and its operation: \<open>A r\<close> holds after \<open>r\<close> rounds, \<open>B r k\<close> after \<open>k\<close> operations of the round that
  follows.\<close>

locale measured_rounds =
  fixes now :: "'w \<Rightarrow> nanos \<times> 'w"
    and prep :: "'w \<Rightarrow> 'w option"
    and op :: "'w \<Rightarrow> 'w option"
    and batch :: nat
    and A :: "nat \<Rightarrow> 'w \<Rightarrow> bool"
    and B :: "nat \<Rightarrow> nat \<Rightarrow> 'w \<Rightarrow> bool"
  assumes setup_round: "A r w \<Longrightarrow> \<exists>w'. prep w = Some w' \<and> B r 0 w'"
    and op_round: "k < batch \<Longrightarrow> B r k w \<Longrightarrow> \<exists>w'. op w = Some w' \<and> B r (Suc k) w'"
    and now_round: "B r k w \<Longrightarrow> B r k (snd (now w))"
    and end_round: "B r batch w \<Longrightarrow> A (Suc r) w"
begin

lemma iterate_round: "k + n \<le> batch \<Longrightarrow> B r k w \<Longrightarrow> \<exists>w'. iterate n op w = Some w' \<and> B r (k + n) w'"
proof (induction n arbitrary: k w)
  case (Suc n)
  then obtain w1 where "op w = Some w1" "B r (Suc k) w1" using op_round [of k r w] by auto
  with Suc.IH [of "Suc k" w1] Suc.prems show ?case by simp
qed simp

lemma timed_round:
  assumes "B r 0 w"
  shows "\<exists>x w'. timed_batch now fdiv op batch w = Some (x, w') \<and> A (Suc r) w'"
proof -
  obtain w2 where w2: "iterate batch op (snd (now w)) = Some w2" "B r batch w2"
    using iterate_round [OF _ now_round [OF assms], of batch] unfolding add_0 by blast
  have "A (Suc r) (snd (now w2))" by (rule end_round [OF now_round [OF w2(2)]])
  then show ?thesis using w2(1) by (simp add: timed_batch_def split_beta)
qed

lemma samples_rounds: "A r w \<Longrightarrow> \<exists>xs total w'. setup_samples now allocs fdiv prep op batch s w = Some (xs, total, w') \<and> length xs = s \<and> A (r + s) w'"
proof (induction s arbitrary: r w)
  case (Suc s)
  from setup_round [OF Suc.prems] obtain w1 where w1: "prep w = Some w1" "B r 0 w1" by blast
  from timed_round [OF w1(2), of fdiv] obtain x w2 where w2: "timed_batch now fdiv op batch w1 = Some (x, w2)" "A (Suc r) w2" by blast
  from Suc.IH [OF w2(2)] obtain xs total w3 where "setup_samples now allocs fdiv prep op batch s w2 = Some (xs, total, w3)" "length xs = s" "A (Suc r + s) w3" by blast
  with w1 w2 show ?case by simp
qed simp

lemma measured:
  assumes "A 0 w"
  shows "\<exists>xs total w'. MeasureMicroWithSetup now allocs fdiv prep op batch s w = Some (xs, total, w') \<and> length xs = s \<and> A (Suc s) w'"
proof -
  from setup_round [OF assms] obtain w1 where w1: "prep w = Some w1" "B 0 0 w1" by blast
  from iterate_round [OF _ w1(2), of batch] obtain w2 where w2: "iterate batch op w1 = Some w2" "B 0 batch w2"
    unfolding add_0 by blast
  from samples_rounds [OF end_round [OF w2(2)], of allocs fdiv s] w1 w2 show ?thesis by (simp add: MeasureMicroWithSetup_def)
qed

end

text \<open>The plain loop: a count of operations is all there is to follow.\<close>

locale measured_loop =
  fixes now :: "'w \<Rightarrow> nanos \<times> 'w"
    and op :: "'w \<Rightarrow> 'w option"
    and I :: "nat \<Rightarrow> 'w \<Rightarrow> bool"
  assumes op_step: "I k w \<Longrightarrow> \<exists>w'. op w = Some w' \<and> I (Suc k) w'"
    and now_step: "I k w \<Longrightarrow> I k (snd (now w))"
begin

lemma iterate_steps: "I k w \<Longrightarrow> \<exists>w'. iterate n op w = Some w' \<and> I (k + n) w'"
proof (induction n arbitrary: k w)
  case (Suc n)
  from op_step [OF Suc.prems] obtain w1 where "op w = Some w1" "I (Suc k) w1" by blast
  with Suc.IH [of "Suc k" w1] show ?case by simp
qed simp

lemma samples_steps: "I k w \<Longrightarrow> \<exists>xs w'. micro_samples now fdiv op batch s w = Some (xs, w') \<and> length xs = s \<and> I (k + s * batch) w'"
proof (induction s arbitrary: k w)
  case (Suc s)
  from iterate_steps [OF now_step [OF Suc.prems], of batch] obtain w2 where w2: "iterate batch op (snd (now w)) = Some w2" "I (k + batch) w2" by blast
  from Suc.IH [OF now_step [OF w2(2)]] w2(1) show ?case by (auto simp: timed_batch_def split_beta add.assoc)
qed simp

lemma micro_steps:
  assumes "I 0 w"
  shows "\<exists>xs total w'. MeasureMicro now allocs fdiv op batch s w = Some (xs, total, w') \<and> length xs = s \<and> I ((4 + s) * batch) w'"
proof -
  from iterate_steps [OF assms, of "batch * 4"] obtain w1 where w1: "iterate (batch * 4) op w = Some w1" "I (batch * 4) w1" by auto
  from samples_steps [OF w1(2), of fdiv batch s] w1(1) show ?thesis by (auto simp: MeasureMicro_def add_mult_distrib2 mult.commute [of _ batch])
qed

end

section \<open>The state of a micro benchmark\<close>

text \<open>The domain, its one publisher and one subscriber, the last sequence number, the sink and the number of
  clock readings. A payload is its sequence number; its padding is never looked at.\<close>

record ('s, 'q, 'req, 'rsp) qbench =
  qb_ds :: "('s, 'q, 'req, 'rsp) DomainState"
  qb_pub :: "(u64, 's, 'q) EndpointImpl"
  qb_sub :: "(u64, 's, 'q) EndpointImpl"
  qb_seq :: u64
  g_sink :: u64
  qb_reads :: nat

definition qb_now :: "(nat \<Rightarrow> nanos) \<Rightarrow> ('s, 'q, 'req, 'rsp) qbench \<Rightarrow> nanos \<times> ('s, 'q, 'req, 'rsp) qbench" where
  "qb_now clock w = (clock (qb_reads w), w\<lparr>qb_reads := Suc (qb_reads w)\<rparr>)"

definition bench_start :: "(u64, 's, 'q, 'c) XmBase \<Rightarrow> Qos \<Rightarrow> u64 \<Rightarrow> string \<Rightarrow> string \<Rightarrow> ('s, 'q, 'req, 'rsp) qbench option" where
  "bench_start X qos hash ty nm = do { (p, ds1) \<leftarrow> Advertise X hash ty nm qos DomainState_init; (s, ds2) \<leftarrow> Subscribe X hash ty nm qos ds1;
     Some \<lparr>qb_ds = ds2, qb_pub = p, qb_sub = s, qb_seq = 0, g_sink = 0, qb_reads = 0\<rparr> }"

text \<open>\<^verbatim>\<open>value.seq = ++seq; (void)pub.Publish(value);\<close>\<close>

definition bench_publish :: "(u64, 's, 'q, 'c) XmBase \<Rightarrow> nat \<Rightarrow> 'c \<Rightarrow> (nat \<Rightarrow> nanos) \<Rightarrow> ('s, 'q, 'req, 'rsp) qbench \<Rightarrow> ('s, 'q, 'req, 'rsp) qbench option" where
  "bench_publish X kBytes ctx clock w = (let seq = qb_seq w + 1; (now, w1) = qb_now clock w in
     do { (st, p, ds) \<leftarrow> Publisher_Publish X (of_nat kBytes) ctx now seq None (qb_pub w1) (qb_ds w1);
          Some (w1\<lparr>qb_seq := seq, qb_pub := p, qb_ds := ds\<rparr>) })"

section \<open>Wiring the pair\<close>

lemma Deliver_type: "Deliver X sz ctx now core val derived t = (st, core', t') \<Longrightarrow> type_id t' = type_id t"
  using Deliver_shape [of X sz ctx now core val derived t st core' t'] by simp

text \<open>Advertising and subscribing in a fresh domain give one wired publisher and one connected subscriber, both with their initial cores.\<close>

lemma bench_start_wires:
  fixes X :: "(u64, 's, 'q, 'c) XmBase"
  assumes "xmbase X items capacity"
  shows "\<exists>(w :: ('s, 'q, 'req, 'rsp) qbench) t. bench_start X qos hash ty nm = Some w \<and> ep_topic (qb_pub w) = Some nm \<and> ep_topic (qb_sub w) = Some nm \<and>
    ep_kind (qb_pub w) = PubImpl (Some (PubCore_init qos)) \<and> ep_kind (qb_sub w) = SubImpl (Some (Retained 0)) \<and> qb_seq w = 0 \<and> g_sink w = 0 \<and>
    topic_at (qb_ds w) nm = Some (TopicE t) \<and> type_id t = ep_type (qb_pub w) \<and> wf_topic t \<and> connected t 0 \<and> sub_retained t = [SubCore_init X qos]"
proof -
  let ?init = "DomainState_init :: ('s, 'q, 'req, 'rsp) DomainState"
  define t where "t = (Topic_init X nm hash ty)\<lparr>declared_ownership := ownership qos, publisher_count := 1\<rparr>"
  have t: "wf_topic t" "type_id t = ty" "schema_hash t = hash" "sub_retained t = []" "sub_slots t = replicate kMaxSubscribers None" "master t = slot_new X"
    using wf_topic_init [of X nm hash ty] by (simp_all add: t_def wf_topic_def) (simp_all add: Topic_init_def)
  have "AddPublisher qos (Topic_init X nm hash ty) = (Advertise_kOk, Some (PubCore_init qos :: u64 PubCore), t)"
    by (simp add: AddPublisher_def t_def Topic_init_def)
  moreover have "e_hash (TopicE (Topic_init X nm hash ty)) = hash" "e_type (TopicE (Topic_init X nm hash ty)) = ty" by (simp_all add: Topic_init_def)
  moreover have "topic_at ?init nm = None" by (simp add: topic_at_def DomainState_init_def)
  ultimately have "\<exists>p ds1. Advertise X hash ty nm qos ?init = Some (p, ds1) \<and> topic_at ds1 nm = Some (TopicE t) \<and>
    ep_topic p = Some nm \<and> ep_kind p = PubImpl (Some (PubCore_init qos)) \<and> ep_type p = ty"
    by (simp add: Advertise_def find_or_make_def EndpointImpl_init_def)
  then obtain p and ds1 :: "('s, 'q, 'req, 'rsp) DomainState" where adv: "Advertise X hash ty nm qos DomainState_init = Some (p, ds1)"
    "topic_at ds1 nm = Some (TopicE t)" "ep_topic p = Some nm" "ep_kind p = PubImpl (Some (PubCore_init qos))" "ep_type p = ty" by blast
  have "seed_core X t (SubCore_init X qos) = SubCore_init X qos"
    using t(6) message_slot.load_new [OF xmbase.axioms(1) [OF assms]] by (simp add: seed_core_def split: option.split)
  moreover have "free_slot t = Some 0" using t(5) by (simp add: free_slot_def scan_Some_iff kMaxSubscribers_def)
  moreover have "0 < length (sub_slots t)" using t(5) by (simp add: kMaxSubscribers_def)
  ultimately obtain t' where at: "AddSubscriber X qos t = (Retained 0, t')" "sub_retained t' = [SubCore_init X qos]" "connected t' 0" "type_id t' = ty"
    using t(2,4) by (force simp: AddSubscriber_def attach_core_def connected_def set_update_memI)
  moreover have "wf_topic t'" by (rule AddSubscriber_cases(3) [OF at(1) t(1)])
  ultimately show ?thesis using adv t
    by (simp add: bench_start_def Subscribe_def find_or_make_def EndpointImpl_init_def)
qed

end
