(* ===== verification/Bench_Queue.thy ===== *)
theory Bench_Queue
  imports Bench_Measure
begin

text \<open>
  The two uncontended queue benchmarks with their drain and refill set-ups. The comment on the batch size (``no overflow inside a sample'')
  becomes a theorem: no sample of either benchmark ever measures a drop or a miss.
\<close>

section \<open>The queue benchmarks\<close>

definition queue_qos :: Qos where
  "queue_qos = Qos_default\<lparr>history := Queue (of_nat kQueueDepth)\<rparr>"

definition queue_try :: "(u64, 's, 'q, 'c) XmBase \<Rightarrow> (nat \<Rightarrow> nanos) \<Rightarrow> ('s, 'q, 'req, 'rsp) qbench \<Rightarrow>
  ((u64, 'c) Sample \<times> ('s, 'q, 'req, 'rsp) qbench) option" where
  "queue_try X clock w = (let (now, w1) = qb_now clock w in
     do { (smp, s, ds) \<leftarrow> Subscriber_TryTake X now (qb_sub w1) (qb_ds w1); Some (smp, w1\<lparr>qb_sub := s, qb_ds := ds\<rparr>) })"

text \<open>\<^verbatim>\<open>while (sub.TryTake().freshness() != kNone) {}\<close>, which may not end for all one can see in the loop.\<close>

partial_function (option) queue_drain :: "(u64, 's, 'q, 'c) XmBase \<Rightarrow> (nat \<Rightarrow> nanos) \<Rightarrow> ('s, 'q, 'req, 'rsp) qbench \<Rightarrow> ('s, 'q, 'req, 'rsp) qbench option" where
  "queue_drain X clock w = do { (smp, w') \<leftarrow> queue_try X clock w; if smp_freshness smp \<noteq> kNone then queue_drain X clock w' else Some w' }"

definition queue_refill :: "(u64, 's, 'q, 'c) XmBase \<Rightarrow> nat \<Rightarrow> 'c \<Rightarrow> (nat \<Rightarrow> nanos) \<Rightarrow> ('s, 'q, 'req, 'rsp) qbench \<Rightarrow> ('s, 'q, 'req, 'rsp) qbench option" where
  "queue_refill X kBytes ctx clock w = do { w1 \<leftarrow> queue_drain X clock w; iterate kQueueBatch (bench_publish X kBytes ctx clock) w1 }"

text \<open>The measured operation; the arrow on a sample without a value would be undefined behaviour, here \<open>None\<close>.\<close>

definition queue_take :: "(u64, 's, 'q, 'c) XmBase \<Rightarrow> (nat \<Rightarrow> nanos) \<Rightarrow> ('s, 'q, 'req, 'rsp) qbench \<Rightarrow> ('s, 'q, 'req, 'rsp) qbench option" where
  "queue_take X clock w = do { (smp, w') \<leftarrow> queue_try X clock w;
     if smp_freshness smp = kNone then Some w' else do { seq \<leftarrow> smp_value smp; Some (w'\<lparr>g_sink := g_sink w' + seq\<rparr>) } }"

definition queue_samples :: "bool \<Rightarrow> nat \<Rightarrow> nat" where
  "queue_samples smoke kBytes = ScaledSamples smoke (if kBytes \<ge> 65536 then 100 else 200)"

definition BenchQueuePublish :: "(u64, 's, 'q, 'c) XmBase \<Rightarrow> (('s, 'q, 'req, 'rsp) qbench \<Rightarrow> u64) \<Rightarrow> (nanos \<Rightarrow> nat \<Rightarrow> 'd) \<Rightarrow> (nat \<Rightarrow> nanos) \<Rightarrow>
  bool \<Rightarrow> nat \<Rightarrow> 'c \<Rightarrow> u64 \<Rightarrow> string \<Rightarrow> ('d list \<times> u64 \<times> ('s, 'q, 'req, 'rsp) qbench) option" where
  "BenchQueuePublish X allocs fdiv clock smoke kBytes ctx hash ty = do { w \<leftarrow> bench_start X queue_qos hash ty ''bench.qpub'';
     MeasureMicroWithSetup (qb_now clock) allocs fdiv (queue_drain X clock) (bench_publish X kBytes ctx clock) kQueueBatch (queue_samples smoke kBytes) w }"

definition BenchQueueTryTake :: "(u64, 's, 'q, 'c) XmBase \<Rightarrow> (('s, 'q, 'req, 'rsp) qbench \<Rightarrow> u64) \<Rightarrow> (nanos \<Rightarrow> nat \<Rightarrow> 'd) \<Rightarrow> (nat \<Rightarrow> nanos) \<Rightarrow>
  bool \<Rightarrow> nat \<Rightarrow> 'c \<Rightarrow> u64 \<Rightarrow> string \<Rightarrow> ('d list \<times> u64 \<times> ('s, 'q, 'req, 'rsp) qbench) option" where
  "BenchQueueTryTake X allocs fdiv clock smoke kBytes ctx hash ty = do { w \<leftarrow> bench_start X queue_qos hash ty ''bench.qtake'';
     MeasureMicroWithSetup (qb_now clock) allocs fdiv (queue_refill X kBytes ctx clock) (queue_take X clock) kQueueBatch (queue_samples smoke kBytes) w }"

section \<open>One publisher and one queue\<close>

text \<open>The publisher and the subscriber of topic \<open>nm\<close> are wired, \<open>n\<close> values wait in the ring, nothing was dropped, \<open>np\<close> values were published and
  \<open>tk\<close> taken.\<close>

definition linked_core :: "('q \<Rightarrow> 'a MailRecord list) \<Rightarrow> ('q \<Rightarrow> nat) \<Rightarrow> nat \<Rightarrow> nat \<Rightarrow> ('s, 'q) SubCore \<Rightarrow> bool" where
  "linked_core items capacity n tk c \<longleftrightarrow> latest c = None \<and> drop_count c = 0 \<and> take_count c = of_nat tk \<and>
     (\<exists>q. queue c = Some q \<and> length (items q) = n \<and> capacity q = kQueueDepth)"

definition linked_topic :: "('q \<Rightarrow> 'a MailRecord list) \<Rightarrow> ('q \<Rightarrow> nat) \<Rightarrow> nat \<Rightarrow> nat \<Rightarrow> ('s, 'q) Topic \<Rightarrow> bool" where
  "linked_topic items capacity n tk t \<longleftrightarrow> wf_topic t \<and> connected t 0 \<and> length (sub_retained t) = 1 \<and> linked_core items capacity n tk (sub_retained t ! 0)"

definition wired_pair :: "('q \<Rightarrow> u64 MailRecord list) \<Rightarrow> ('q \<Rightarrow> nat) \<Rightarrow> string \<Rightarrow> nat \<Rightarrow> nat \<Rightarrow> nat \<Rightarrow> ('s, 'q, 'req, 'rsp) qbench \<Rightarrow> bool" where
  "wired_pair items capacity nm n np tk w \<longleftrightarrow> ep_topic (qb_pub w) = Some nm \<and> ep_topic (qb_sub w) = Some nm \<and>
     ep_kind (qb_sub w) = SubImpl (Some (Retained 0)) \<and>
     (\<exists>core. ep_kind (qb_pub w) = PubImpl (Some core) \<and> pub_reliability core = kBestEffort \<and> publish_count core = of_nat np) \<and>
     (\<exists>t. topic_at (qb_ds w) nm = Some (TopicE t) \<and> type_id t = ep_type (qb_pub w) \<and> linked_topic items capacity n tk t)"

lemma wired_now [simp]: "wired_pair items capacity nm n np tk (w\<lparr>qb_reads := k\<rparr>) = wired_pair items capacity nm n np tk w"
  by (simp add: wired_pair_def)

context xmbase
begin

lemma linked_deliver:
  assumes "linked_core items capacity n tk c" "n < kQueueDepth"
  shows "linked_core items capacity (Suc n) tk (deliver_core X r c)"
proof -
  obtain q where q: "queue c = Some q" "length (items q) = n" "capacity q = kQueueDepth" using assms(1) by (auto simp: linked_core_def)
  then obtain q' where "ring_push X q r = Some q'" "items q' = items q @ [r]" "capacity q' = capacity q"
    using push_cases [of q r] assms(2) by (metis linorder_not_le)
  then show ?thesis using assms(1) q by (simp add: linked_core_def deliver_core_def)
qed

lemma linked_take:
  assumes "linked_core items capacity n tk c" "TryTake X now c = (smp, c')"
  shows "if n = 0 then smp_freshness smp = kNone \<and> linked_core items capacity 0 tk c'
    else smp_freshness smp \<noteq> kNone \<and> smp_value smp \<noteq> None \<and> linked_core items capacity (n - 1) (Suc tk) c'"
proof -
  obtain q where q: "queue c = Some q" "length (items q) = n" "capacity q = kQueueDepth" using assms(1) by (auto simp: linked_core_def)
  show ?thesis
  proof (cases rule: pop_cases [of q])
    case empty
    then show ?thesis using assms q by (auto simp: TryTake_def linked_core_def Sample_init_def)
  next
    case (item r q')
    then show ?thesis using assms q by (auto simp: TryTake_def linked_core_def fill_sample_def split: if_splits)
  qed
qed

lemma linked_publish:
  assumes "linked_topic items capacity n tk t" "n < kQueueDepth" "pub_reliability core = kBestEffort"
    and "Deliver X sz ctx now core val derived t = (st, core', t')"
  shows "linked_topic items capacity (Suc n) tk t' \<and> core' = note_publish sz core"
proof -
  have t: "wf_topic t" "connected t 0" "length (sub_retained t) = 1" "linked_core items capacity n tk (sub_retained t ! 0)"
    using assms(1) by (simp_all add: linked_topic_def)
  from Deliver_fanout [OF t(1) assms(3), of X sz ctx now val derived] assms(4) obtain r where
    "core' = note_publish sz core" "wf_topic t'" "length (sub_retained t') = 1" "sub_retained t' ! 0 = deliver_core X r (sub_retained t ! 0)"
    using t by auto
  moreover have "sub_slots t' = sub_slots t" using assms(4) by (auto simp: Deliver_def Let_def split: if_splits)
  ultimately show ?thesis using linked_deliver [OF t(4) assms(2)] t(2) by (simp add: linked_topic_def connected_def)
qed

end

lemma queue_publish_step:
  assumes X: "xmbase X items capacity" and "wired_pair items capacity nm n np tk w" "n < kQueueDepth"
  shows "\<exists>w'. bench_publish X kBytes ctx clock w = Some w' \<and> wired_pair items capacity nm (Suc n) (Suc np) tk w'"
proof -
  obtain core t where w: "ep_kind (qb_pub w) = PubImpl (Some core)" "pub_reliability core = kBestEffort" "publish_count core = of_nat np"
    "topic_at (qb_ds w) nm = Some (TopicE t)" "linked_topic items capacity n tk t" "ep_topic (qb_pub w) = Some nm"
    "type_id t = ep_type (qb_pub w)" using assms(2) by (auto simp: wired_pair_def)
  obtain st core' t' where d: "Deliver X (of_nat kBytes) ctx (clock (qb_reads w)) core (qb_seq w + 1) None t = (st, core', t')" by (rule prod_cases3)
  from xmbase.linked_publish [OF X w(5) assms(3) w(2) d] Deliver_type [OF d] w d assms(2) show ?thesis
    by (auto simp: bench_publish_def qb_now_def Publisher_Publish_def wired_pair_def note_publish_def)
qed

lemma queue_try_step:
  assumes X: "xmbase X items capacity" and "wired_pair items capacity nm n np tk w"
  shows "\<exists>smp w'. queue_try X clock w = Some (smp, w') \<and>
    (if n = 0 then smp_freshness smp = kNone \<and> wired_pair items capacity nm 0 np tk w'
     else smp_freshness smp \<noteq> kNone \<and> smp_value smp \<noteq> None \<and> wired_pair items capacity nm (n - 1) np (Suc tk) w')"
proof -
  obtain t where w: "topic_at (qb_ds w) nm = Some (TopicE t)" "linked_topic items capacity n tk t" "ep_kind (qb_sub w) = SubImpl (Some (Retained 0))"
    "ep_topic (qb_sub w) = Some nm" "type_id t = ep_type (qb_pub w)" using assms(2) by (auto simp: wired_pair_def)
  obtain smp c' where c: "TryTake X (clock (qb_reads w)) (sub_retained t ! 0) = (smp, c')" by fastforce
  have l: "linked_core items capacity n tk (sub_retained t ! 0)" "wf_topic t" "length (sub_retained t) = 1" using w(2) by (simp_all add: linked_topic_def)
  note tk = xmbase.linked_take [OF X l(1) c]
  have "wf_core c'" using wf_core_TryTake [OF wf_topic_core [OF l(2), of 0], of X "clock (qb_reads w)"] c l(3) by simp
  then have "wf_topic (t\<lparr>sub_retained := (sub_retained t)[0 := c']\<rparr>)" using wf_topic_set_core [OF l(2), of c' 0] by (simp add: set_core_def)
  then have "linked_topic items capacity m u (t\<lparr>sub_retained := (sub_retained t)[0 := c']\<rparr>)" if "linked_core items capacity m u c'" for m u
    using that w(2) l(3) by (simp add: linked_topic_def connected_def)
  then show ?thesis using c w tk assms(2)
    by (auto simp: queue_try_def qb_now_def Subscriber_TryTake_def on_core_def wired_pair_def split: if_splits)
qed

lemma queue_drain_step:
  assumes X: "xmbase X items capacity" and "wired_pair items capacity nm n np tk w"
  shows "\<exists>w'. queue_drain X clock w = Some w' \<and> wired_pair items capacity nm 0 np (tk + n) w'"
  using assms(2)
proof (induction n arbitrary: tk w)
  case 0
  from queue_try_step [OF X this, of clock] show ?case by (subst queue_drain.simps) auto
next
  case (Suc n)
  from queue_try_step [OF X Suc.prems, of clock] obtain smp w' where
    w': "queue_try X clock w = Some (smp, w')" "smp_freshness smp \<noteq> kNone" "wired_pair items capacity nm n np (Suc tk) w'" by auto
  from Suc.IH [OF w'(3)] w'(1,2) show ?case by (subst queue_drain.simps) simp
qed

lemma publish_many:
  assumes X: "xmbase X items capacity" and "wired_pair items capacity nm n np tk w" "n + m \<le> kQueueDepth"
  shows "\<exists>w'. iterate m (bench_publish X kBytes ctx clock) w = Some w' \<and> wired_pair items capacity nm (n + m) (np + m) tk w'"
  using assms(2,3)
proof (induction m arbitrary: n np w)
  case (Suc m)
  from queue_publish_step [OF X Suc.prems(1), of kBytes ctx clock] Suc.prems(2) obtain w' where
    w': "bench_publish X kBytes ctx clock w = Some w'" "wired_pair items capacity nm (Suc n) (Suc np) tk w'" by auto
  from Suc.IH [OF w'(2)] Suc.prems(2) w'(1) show ?case by simp
qed simp

lemma queue_take_step:
  assumes X: "xmbase X items capacity" and "wired_pair items capacity nm (Suc n) np tk w"
  shows "\<exists>w'. queue_take X clock w = Some w' \<and> wired_pair items capacity nm n np (Suc tk) w'"
proof -
  from queue_try_step [OF X assms(2), of clock] obtain smp w' seq where
    "queue_try X clock w = Some (smp, w')" "smp_freshness smp \<noteq> kNone" "smp_value smp = Some seq" "wired_pair items capacity nm n np (Suc tk) w'" by auto
  then show ?thesis by (simp add: queue_take_def wired_pair_def)
qed

lemma queue_start_wired:
  fixes X :: "(u64, 'b, 'c, 'x) XmBase"
  assumes "xmbase X items capacity"
  shows "\<exists>w :: ('b, 'c, 'd, 'e) qbench. bench_start X queue_qos hash ty nm = Some w \<and> wired_pair items capacity nm 0 0 0 w"
proof -
  have ring: "items (ring_new X 1024) = []" "capacity (ring_new X 1024) = 1024"
    using spsc_ring.items_new [OF xmbase.axioms(2) [OF assms], of 1024] spsc_ring.capacity_new [OF xmbase.axioms(2) [OF assms], of 1024] by simp_all
  have "reliability queue_qos = kBestEffort" by (simp add: queue_qos_def Qos_default_def)
  moreover have "linked_core items capacity 0 0 (SubCore_init X queue_qos)"
    by (simp add: linked_core_def SubCore_init_def queue_qos_def Queue_def kQueueDepth_def ring)
  ultimately show ?thesis using bench_start_wires [OF assms, of queue_qos hash ty nm, where ?'req = 'd and ?'rsp = 'e]
    by (fastforce simp: wired_pair_def linked_topic_def PubCore_init_def)
qed

section \<open>No sample measures a drop or a miss\<close>

text \<open>After \<open>r\<close> rounds of the publish benchmark the last batch waits in the ring; after \<open>r\<close> rounds of the take benchmark the ring is empty.\<close>

definition publish_round :: "(u64, 's, 'q, 'c) XmBase \<Rightarrow> ('q \<Rightarrow> u64 MailRecord list) \<Rightarrow> ('q \<Rightarrow> nat) \<Rightarrow> string \<Rightarrow> nat \<Rightarrow> nat \<Rightarrow> ('s, 'q, 'req, 'rsp) qbench \<Rightarrow> bool" where
  "publish_round X items capacity nm r k w \<longleftrightarrow> xmbase X items capacity \<and> wired_pair items capacity nm k (r * kQueueBatch + k) (r * kQueueBatch) w"

definition publish_rounds :: "(u64, 's, 'q, 'c) XmBase \<Rightarrow> ('q \<Rightarrow> u64 MailRecord list) \<Rightarrow> ('q \<Rightarrow> nat) \<Rightarrow> string \<Rightarrow> nat \<Rightarrow> ('s, 'q, 'req, 'rsp) qbench \<Rightarrow> bool" where
  "publish_rounds X items capacity nm r w \<longleftrightarrow> (case r of 0 \<Rightarrow> publish_round X items capacity nm 0 0 w | Suc r' \<Rightarrow> publish_round X items capacity nm r' kQueueBatch w)"

definition take_round :: "(u64, 's, 'q, 'c) XmBase \<Rightarrow> ('q \<Rightarrow> u64 MailRecord list) \<Rightarrow> ('q \<Rightarrow> nat) \<Rightarrow> string \<Rightarrow> nat \<Rightarrow> nat \<Rightarrow> ('s, 'q, 'req, 'rsp) qbench \<Rightarrow> bool" where
  "take_round X items capacity nm r k w \<longleftrightarrow> xmbase X items capacity \<and> k \<le> kQueueBatch \<and>
     wired_pair items capacity nm (kQueueBatch - k) (Suc r * kQueueBatch) (r * kQueueBatch + k) w"

definition take_rounds :: "(u64, 's, 'q, 'c) XmBase \<Rightarrow> ('q \<Rightarrow> u64 MailRecord list) \<Rightarrow> ('q \<Rightarrow> nat) \<Rightarrow> string \<Rightarrow> nat \<Rightarrow> ('s, 'q, 'req, 'rsp) qbench \<Rightarrow> bool" where
  "take_rounds X items capacity nm r w \<longleftrightarrow> xmbase X items capacity \<and> wired_pair items capacity nm 0 (r * kQueueBatch) (r * kQueueBatch) w"

lemmas round_defs = publish_round_def publish_rounds_def take_round_def take_rounds_def

lemma qb_now_wired: "snd (qb_now clock w) = w\<lparr>qb_reads := Suc (qb_reads w)\<rparr>"
  by (simp add: qb_now_def)

interpretation publishing: measured_rounds "qb_now clock" "queue_drain X clock" "bench_publish X kBytes ctx clock" kQueueBatch
  "publish_rounds X items capacity nm" "publish_round X items capacity nm" for clock X kBytes ctx items capacity nm
proof
  show "\<exists>w'. queue_drain X clock w = Some w' \<and> publish_round X items capacity nm r 0 w'" if "publish_rounds X items capacity nm r w" for r w
    using that queue_drain_step [of X items capacity nm _ "r * kQueueBatch" _ w clock] by (cases r) (fastforce simp: round_defs add.commute)+
  show "\<exists>w'. bench_publish X kBytes ctx clock w = Some w' \<and> publish_round X items capacity nm r (Suc k) w'" if "k < kQueueBatch" "publish_round X items capacity nm r k w" for k r w
    using that queue_publish_step [of X items capacity nm k "r * kQueueBatch + k" "r * kQueueBatch" w kBytes ctx clock] by (simp add: round_defs kQueueBatch_def kQueueDepth_def)
qed (simp_all add: round_defs qb_now_wired)

interpretation taking: measured_rounds "qb_now clock" "queue_refill X kBytes ctx clock" "queue_take X clock" kQueueBatch
  "take_rounds X items capacity nm" "take_round X items capacity nm" for clock X kBytes ctx items capacity nm
proof
  show "\<exists>w'. queue_refill X kBytes ctx clock w = Some w' \<and> take_round X items capacity nm r 0 w'" if A: "take_rounds X items capacity nm r w" for r w
  proof -
    have X: "xmbase X items capacity" using A by (simp add: round_defs)
    from A queue_drain_step [OF X, of nm 0 "r * kQueueBatch" "r * kQueueBatch" w clock] obtain w1 where
      w1: "queue_drain X clock w = Some w1" "wired_pair items capacity nm 0 (r * kQueueBatch) (r * kQueueBatch) w1" by (auto simp: round_defs)
    from publish_many [OF X w1(2), of kQueueBatch kBytes ctx clock] w1(1) X show ?thesis
      by (auto simp: queue_refill_def round_defs kQueueBatch_def kQueueDepth_def add.commute)
  qed
  show "\<exists>w'. queue_take X clock w = Some w' \<and> take_round X items capacity nm r (Suc k) w'" if "k < kQueueBatch" "take_round X items capacity nm r k w" for k r w
    using that queue_take_step [of X items capacity nm "kQueueBatch - Suc k" _ _ w clock] by (auto simp: round_defs Suc_diff_Suc)
qed (simp_all add: round_defs qb_now_wired add.commute)

lemma wired_counts:
  "wired_pair items capacity nm n np tk w \<Longrightarrow>
     DropCount (qb_sub w) (qb_ds w) = 0 \<and> TakeCount (qb_sub w) (qb_ds w) = of_nat tk \<and> PublishCount (qb_pub w) = of_nat np"
  by (auto simp: wired_pair_def linked_topic_def linked_core_def DropCount_def TakeCount_def PublishCount_def sub_core_def)

lemma publish_measured:
  fixes allocs :: "('s, 'q, 'req, 'rsp) qbench \<Rightarrow> u64"
  assumes "xmbase X items capacity"
  shows "\<exists>xs total w'. BenchQueuePublish X allocs fdiv clock smoke kBytes ctx hash ty = Some (xs, total, w') \<and>
    length xs = queue_samples smoke kBytes \<and> publish_rounds X items capacity ''bench.qpub'' (Suc (queue_samples smoke kBytes)) w'"
proof -
  from queue_start_wired [OF assms, of hash ty "''bench.qpub''"] obtain w :: "('s, 'q, 'req, 'rsp) qbench" where w: "bench_start X queue_qos hash ty ''bench.qpub'' = Some w"
    and "publish_rounds X items capacity ''bench.qpub'' 0 w" using assms by (auto simp: round_defs)
  from publishing.measured [OF this(2), of clock allocs fdiv kBytes ctx "queue_samples smoke kBytes"] w show ?thesis by (simp add: BenchQueuePublish_def)
qed

lemma take_measured:
  fixes allocs :: "('s, 'q, 'req, 'rsp) qbench \<Rightarrow> u64"
  assumes "xmbase X items capacity"
  shows "\<exists>xs total w'. BenchQueueTryTake X allocs fdiv clock smoke kBytes ctx hash ty = Some (xs, total, w') \<and>
    length xs = queue_samples smoke kBytes \<and> take_rounds X items capacity ''bench.qtake'' (Suc (queue_samples smoke kBytes)) w'"
proof -
  from queue_start_wired [OF assms, of hash ty "''bench.qtake''"] obtain w :: "('s, 'q, 'req, 'rsp) qbench" where w: "bench_start X queue_qos hash ty ''bench.qtake'' = Some w"
    and "take_rounds X items capacity ''bench.qtake'' 0 w" using assms by (auto simp: round_defs)
  from taking.measured [OF this(2), of clock allocs fdiv kBytes ctx "queue_samples smoke kBytes"] w show ?thesis by (simp add: BenchQueueTryTake_def)
qed

text \<open>C39. On any message slot and ring that keep their contracts, both uncontended queue benchmarks return, at every payload size, with every
  clock: they take the announced number of samples, their drain loop ends each time, no publish they measure ever drops a value and no take they
  measure ever misses. One warm-up batch and one batch per sample is what the publisher and the subscriber count.\<close>

theorem bench_queue_samples:
  assumes "xmbase X items capacity"
  shows "(\<exists>xs total w'. BenchQueuePublish X allocs fdiv clock smoke kBytes ctx hash ty = Some (xs, total, w') \<and>
      length xs = queue_samples smoke kBytes \<and> DropCount (qb_sub w') (qb_ds w') = 0 \<and>
      PublishCount (qb_pub w') = of_nat (Suc (queue_samples smoke kBytes) * kQueueBatch)) \<and>
    (\<exists>xs total w'. BenchQueueTryTake X allocs fdiv clock smoke kBytes ctx hash ty = Some (xs, total, w') \<and>
      length xs = queue_samples smoke kBytes \<and> DropCount (qb_sub w') (qb_ds w') = 0 \<and>
      TakeCount (qb_sub w') (qb_ds w') = of_nat (Suc (queue_samples smoke kBytes) * kQueueBatch) \<and>
      PublishCount (qb_pub w') = of_nat (Suc (queue_samples smoke kBytes) * kQueueBatch))"
proof
  from publish_measured [OF assms, of allocs fdiv clock smoke kBytes ctx hash ty] obtain xs total w' where
    w': "BenchQueuePublish X allocs fdiv clock smoke kBytes ctx hash ty = Some (xs, total, w')" "length xs = queue_samples smoke kBytes"
    "wired_pair items capacity ''bench.qpub'' kQueueBatch (queue_samples smoke kBytes * kQueueBatch + kQueueBatch) (queue_samples smoke kBytes * kQueueBatch) w'"
    by (auto simp: round_defs)
  with wired_counts [OF w'(3)] show "\<exists>xs total w'. BenchQueuePublish X allocs fdiv clock smoke kBytes ctx hash ty = Some (xs, total, w') \<and>
      length xs = queue_samples smoke kBytes \<and> DropCount (qb_sub w') (qb_ds w') = 0 \<and>
      PublishCount (qb_pub w') = of_nat (Suc (queue_samples smoke kBytes) * kQueueBatch)" by (simp add: add.commute)
next
  from take_measured [OF assms, of allocs fdiv clock smoke kBytes ctx hash ty] obtain xs total w' where
    w': "BenchQueueTryTake X allocs fdiv clock smoke kBytes ctx hash ty = Some (xs, total, w')" "length xs = queue_samples smoke kBytes"
    "wired_pair items capacity ''bench.qtake'' 0 (Suc (queue_samples smoke kBytes) * kQueueBatch) (Suc (queue_samples smoke kBytes) * kQueueBatch) w'"
    by (auto simp: round_defs)
  with wired_counts [OF w'(3)] show "\<exists>xs total w'. BenchQueueTryTake X allocs fdiv clock smoke kBytes ctx hash ty = Some (xs, total, w') \<and>
      length xs = queue_samples smoke kBytes \<and> DropCount (qb_sub w') (qb_ds w') = 0 \<and>
      TakeCount (qb_sub w') (qb_ds w') = of_nat (Suc (queue_samples smoke kBytes) * kQueueBatch) \<and>
      PublishCount (qb_pub w') = of_nat (Suc (queue_samples smoke kBytes) * kQueueBatch)" by simp
qed

theorem bench_queue_samples_witness:
  "\<exists>xs total w'. BenchQueueTryTake (XmBase_ref :: (u64, u64 MailRecord option, nat \<times> u64 MailRecord list, ref_context) XmBase)
      (\<lambda>_ :: (u64 MailRecord option, nat \<times> u64 MailRecord list, unit, unit) qbench. 0) (\<lambda>d n. d div int n) (\<lambda>k. 100 * int k) True 64 (1, 2, 3) 7 ''Payload<64>'' = Some (xs, total, w') \<and>
      length xs = 50 \<and> DropCount (qb_sub w') (qb_ds w') = 0 \<and> TakeCount (qb_sub w') (qb_ds w') = 26112"
proof -
  have "queue_samples True 64 = 50" by (simp add: queue_samples_def ScaledSamples_def scaled_def times_smoke_def round_even_def bit_len_eval)
  then show ?thesis using bench_queue_samples [OF ref.xmbase_axioms, of "\<lambda>_ :: (u64 MailRecord option, nat \<times> u64 MailRecord list, unit, unit) qbench. 0"
    "\<lambda>d n. d div int n" "\<lambda>k. 100 * int k" True 64 "(1, 2, 3)" 7 "''Payload<64>''"] by (auto simp: kQueueBatch_def)
qed

end
