(* ===== verification/Bench_Latest.thy ===== *)
theory Bench_Latest
  imports Bench_Measure
begin

text \<open>
  The four uncontended latest-only benchmarks: publishing, publishing through a loan, and taking with and without a value in the slot. The
  hit benchmark dereferences its sample and the loan benchmark its loan without looking at either's status; both are shown to be safe.
\<close>

section \<open>The benchmarks\<close>

definition latest_try :: "(u64, 's, 'q, 'c) XmBase \<Rightarrow> (nat \<Rightarrow> nanos) \<Rightarrow> ('s, 'q, 'req, 'rsp) qbench \<Rightarrow>
  ((u64, 'c) Sample \<times> ('s, 'q, 'req, 'rsp) qbench) option" where
  "latest_try X clock w = (let (now, w1) = qb_now clock w in
     do { (smp, s, ds) \<leftarrow> Subscriber_TakeLatest X now (qb_sub w1) (qb_ds w1); Some (smp, w1\<lparr>qb_sub := s, qb_ds := ds\<rparr>) })"

text \<open>\<^verbatim>\<open>g_sink = g_sink + sample->seq;\<close>: the arrow on an empty sample is undefined behaviour, here \<open>None\<close>.\<close>

definition latest_hit :: "(u64, 's, 'q, 'c) XmBase \<Rightarrow> (nat \<Rightarrow> nanos) \<Rightarrow> ('s, 'q, 'req, 'rsp) qbench \<Rightarrow> ('s, 'q, 'req, 'rsp) qbench option" where
  "latest_hit X clock w = do { (smp, w') \<leftarrow> latest_try X clock w; seq \<leftarrow> smp_value smp; Some (w'\<lparr>g_sink := g_sink w' + seq\<rparr>) }"

fun freshness_code :: "Freshness \<Rightarrow> u64" where
  "freshness_code kFresh = 0"
| "freshness_code kStale = 1"
| "freshness_code kNone = 2"

definition latest_miss :: "(u64, 's, 'q, 'c) XmBase \<Rightarrow> (nat \<Rightarrow> nanos) \<Rightarrow> ('s, 'q, 'req, 'rsp) qbench \<Rightarrow> ('s, 'q, 'req, 'rsp) qbench option" where
  "latest_miss X clock w = do { (smp, w') \<leftarrow> latest_try X clock w; Some (w'\<lparr>g_sink := g_sink w' + freshness_code (smp_freshness smp)\<rparr>) }"

text \<open>\<^verbatim>\<open>auto loan = pub.Loan(); loan->seq = ++seq; (void)pub.Publish(std::move(loan));\<close>: the publisher is handle 0 of its pool; writing through an
  exhausted loan is undefined behaviour.\<close>

definition loan_publish :: "(u64, 's, 'q, 'c) XmBase \<Rightarrow> nat \<Rightarrow> 'c \<Rightarrow> (nat \<Rightarrow> nanos) \<Rightarrow> ('s, 'q, 'req, 'rsp) qbench \<Rightarrow> ('s, 'q, 'req, 'rsp) qbench option" where
  "loan_publish X kBytes ctx clock w = (case ep_kind (qb_pub w) of
     PubImpl (Some core) \<Rightarrow>
       (let (loan, ps) = Publisher_Loan 0 (\<lambda>_. pub_pool core); seq = qb_seq w + 1; (now, w1) = qb_now clock w in
        do { i \<leftarrow> loan_slot loan;
             let pool = (ps 0)\<lparr>cells := (cells (ps 0))[i := Some seq]\<rparr>; p = (qb_pub w)\<lparr>ep_kind := PubImpl (Some (core\<lparr>pub_pool := pool\<rparr>))\<rparr> in
             do { (st, s) \<leftarrow> Publisher_PublishLoan X 0 (of_nat kBytes) ctx now 0 loan [] \<lparr>dom_state = qb_ds w1, eps = [Some p]\<rparr>;
                  ep \<leftarrow> ep_at s 0; Some (w1\<lparr>qb_seq := seq, qb_pub := ep, qb_ds := dom_state s\<rparr>) } })
   | _ \<Rightarrow> None)"

definition BenchPublishLatest :: "(u64, 's, 'q, 'c) XmBase \<Rightarrow> (('s, 'q, 'req, 'rsp) qbench \<Rightarrow> u64) \<Rightarrow> (nanos \<Rightarrow> nat \<Rightarrow> 'd) \<Rightarrow> (nat \<Rightarrow> nanos) \<Rightarrow>
  bool \<Rightarrow> nat \<Rightarrow> 'c \<Rightarrow> u64 \<Rightarrow> string \<Rightarrow> ('d list \<times> u64 \<times> ('s, 'q, 'req, 'rsp) qbench) option" where
  "BenchPublishLatest X allocs fdiv clock smoke kBytes ctx hash ty = do { w \<leftarrow> bench_start X Qos_default hash ty ''bench.pub'';
     MeasureMicro (qb_now clock) allocs fdiv (bench_publish X kBytes ctx clock) (MicroBatch kBytes) (MicroSamples smoke kBytes) w }"

definition BenchLoanPublish :: "(u64, 's, 'q, 'c) XmBase \<Rightarrow> (('s, 'q, 'req, 'rsp) qbench \<Rightarrow> u64) \<Rightarrow> (nanos \<Rightarrow> nat \<Rightarrow> 'd) \<Rightarrow> (nat \<Rightarrow> nanos) \<Rightarrow>
  bool \<Rightarrow> nat \<Rightarrow> 'c \<Rightarrow> u64 \<Rightarrow> string \<Rightarrow> ('d list \<times> u64 \<times> ('s, 'q, 'req, 'rsp) qbench) option" where
  "BenchLoanPublish X allocs fdiv clock smoke kBytes ctx hash ty = do { w \<leftarrow> bench_start X Qos_default hash ty ''bench.loan'';
     MeasureMicro (qb_now clock) allocs fdiv (loan_publish X kBytes ctx clock) (MicroBatch kBytes) (MicroSamples smoke kBytes) w }"

definition BenchTakeLatestHit :: "(u64, 's, 'q, 'c) XmBase \<Rightarrow> (('s, 'q, 'req, 'rsp) qbench \<Rightarrow> u64) \<Rightarrow> (nanos \<Rightarrow> nat \<Rightarrow> 'd) \<Rightarrow> (nat \<Rightarrow> nanos) \<Rightarrow>
  bool \<Rightarrow> nat \<Rightarrow> 'c \<Rightarrow> u64 \<Rightarrow> string \<Rightarrow> ('d list \<times> u64 \<times> ('s, 'q, 'req, 'rsp) qbench) option" where
  "BenchTakeLatestHit X allocs fdiv clock smoke kBytes ctx hash ty = do { w \<leftarrow> bench_start X Qos_default hash ty ''bench.take''; w1 \<leftarrow> bench_publish X kBytes ctx clock w;
     MeasureMicro (qb_now clock) allocs fdiv (latest_hit X clock) (MicroBatch kBytes) (MicroSamples smoke kBytes) w1 }"

definition BenchTakeLatestMiss :: "(u64, 's, 'q, 'c) XmBase \<Rightarrow> (('s, 'q, 'req, 'rsp) qbench \<Rightarrow> u64) \<Rightarrow> (nanos \<Rightarrow> nat \<Rightarrow> 'd) \<Rightarrow> (nat \<Rightarrow> nanos) \<Rightarrow>
  bool \<Rightarrow> u64 \<Rightarrow> string \<Rightarrow> ('d list \<times> u64 \<times> ('s, 'q, 'req, 'rsp) qbench) option" where
  "BenchTakeLatestMiss X allocs fdiv clock smoke hash ty = do { w \<leftarrow> bench_start X Qos_default hash ty ''bench.take_miss'';
     MeasureMicro (qb_now clock) allocs fdiv (latest_miss X clock) (MicroBatch 64) (MicroSamples smoke 64) w }"

section \<open>One publisher and one slot\<close>

text \<open>The publisher and the subscriber of topic \<open>nm\<close> are wired, the slot holds \<open>v\<close>, no cell is on loan, \<open>np\<close> values were published and \<open>tk\<close> taken.\<close>

definition idle_pub :: "nat \<Rightarrow> u64 PubCore \<Rightarrow> bool" where
  "idle_pub np core \<longleftrightarrow> pub_reliability core = kBestEffort \<and> publish_count core = of_nat np \<and> wf_pool (pub_pool core) \<and> held (pub_pool core) = {}"

definition slot_core :: "(u64, 's, 'q, 'c) XmBase \<Rightarrow> u64 option \<Rightarrow> nat \<Rightarrow> ('s, 'q) SubCore \<Rightarrow> bool" where
  "slot_core X v tk c \<longleftrightarrow> take_count c = of_nat tk \<and> (\<exists>m. latest c = Some m \<and> map_option payload (slot_load X m) = v)"

definition slot_topic :: "(u64, 's, 'q, 'c) XmBase \<Rightarrow> u64 option \<Rightarrow> nat \<Rightarrow> ('s, 'q) Topic \<Rightarrow> bool" where
  "slot_topic X v tk t \<longleftrightarrow> wf_topic t \<and> connected t 0 \<and> length (sub_retained t) = 1 \<and> slot_core X v tk (sub_retained t ! 0)"

definition wired_slot :: "(u64, 's, 'q, 'c) XmBase \<Rightarrow> string \<Rightarrow> u64 option \<Rightarrow> nat \<Rightarrow> nat \<Rightarrow> ('s, 'q, 'req, 'rsp) qbench \<Rightarrow> bool" where
  "wired_slot X nm v np tk w \<longleftrightarrow> ep_topic (qb_pub w) = Some nm \<and> ep_topic (qb_sub w) = Some nm \<and>
     ep_kind (qb_sub w) = SubImpl (Some (Retained 0)) \<and> (\<exists>core. ep_kind (qb_pub w) = PubImpl (Some core) \<and> idle_pub np core) \<and>
     (\<exists>t. topic_at (qb_ds w) nm = Some (TopicE t) \<and> type_id t = ep_type (qb_pub w) \<and> slot_topic X v tk t)"

lemma wired_slot_frame [simp]:
  "wired_slot X nm v np tk (w\<lparr>qb_reads := k\<rparr>) = wired_slot X nm v np tk w" "wired_slot X nm v np tk (w\<lparr>g_sink := u\<rparr>) = wired_slot X nm v np tk w"
  by (simp_all add: wired_slot_def)

lemma slot_topic_Deliver:
  assumes X: "xmbase X items capacity" and "slot_topic X v tk t" "pub_reliability core = kBestEffort"
    and d: "Deliver X sz ctx now core val derived t = (st, core', t')"
  shows "slot_topic X (Some val) tk t' \<and> core' = note_publish sz core"
proof -
  have t: "wf_topic t" "connected t 0" "length (sub_retained t) = 1" "slot_core X v tk (sub_retained t ! 0)"
    using assms(2) by (simp_all add: slot_topic_def)
  from Deliver_fanout [OF t(1) assms(3), of X sz ctx now val derived] d t obtain r where
    r: "payload r = val" "core' = note_publish sz core" "wf_topic t'" "length (sub_retained t') = 1" "sub_retained t' ! 0 = deliver_core X r (sub_retained t ! 0)" by auto
  have "slot_core X (Some val) tk (deliver_core X r (sub_retained t ! 0))"
    using t(4) r(1) message_slot.load_store [OF xmbase.axioms(1) [OF X]] by (auto simp: slot_core_def deliver_core_def stamp_baseline_def)
  moreover have "sub_slots t' = sub_slots t" using d by (auto simp: Deliver_def Let_def split: if_splits)
  ultimately show ?thesis using r t(2) by (simp add: slot_topic_def connected_def)
qed

lemma slot_publish_step:
  assumes X: "xmbase X items capacity" and w: "wired_slot X nm v np tk w"
  shows "\<exists>w'. bench_publish X kBytes ctx clock w = Some w' \<and> wired_slot X nm (Some (qb_seq w + 1)) (Suc np) tk w' \<and> qb_seq w' = qb_seq w + 1 \<and> g_sink w' = g_sink w"
proof -
  obtain core t where e: "ep_kind (qb_pub w) = PubImpl (Some core)" "idle_pub np core" "topic_at (qb_ds w) nm = Some (TopicE t)" "slot_topic X v tk t"
    "ep_topic (qb_pub w) = Some nm" "type_id t = ep_type (qb_pub w)" using w by (auto simp: wired_slot_def)
  obtain st core' t' where d: "Deliver X (of_nat kBytes) ctx (clock (qb_reads w)) core (qb_seq w + 1) None t = (st, core', t')" by (rule prod_cases3)
  have "pub_reliability core = kBestEffort" using e(2) by (simp add: idle_pub_def)
  from slot_topic_Deliver [OF X e(4) this d] Deliver_type [OF d] e w d show ?thesis
    by (auto simp: bench_publish_def qb_now_def Publisher_Publish_def wired_slot_def idle_pub_def note_publish_def)
qed

lemma slot_core_take:
  assumes "slot_core X v tk c" "TakeLatest X now c = (smp, c')"
  shows "smp_value smp = v \<and> (v = None \<longrightarrow> smp_freshness smp = kNone) \<and> slot_core X v (if v = None then tk else Suc tk) c'"
  using assms by (auto simp: slot_core_def TakeLatest_def Sample_init_def fill_sample_def split: option.splits)

lemma latest_try_step:
  assumes w: "wired_slot X nm v np tk w"
  shows "\<exists>smp w'. latest_try X clock w = Some (smp, w') \<and> smp_value smp = v \<and> (v = None \<longrightarrow> smp_freshness smp = kNone) \<and>
    wired_slot X nm v np (if v = None then tk else Suc tk) w' \<and> g_sink w' = g_sink w"
proof -
  obtain t where t: "topic_at (qb_ds w) nm = Some (TopicE t)" "slot_topic X v tk t" "ep_kind (qb_sub w) = SubImpl (Some (Retained 0))"
    "ep_topic (qb_sub w) = Some nm" "type_id t = ep_type (qb_pub w)" using w by (auto simp: wired_slot_def)
  obtain smp c' where c: "TakeLatest X (clock (qb_reads w)) (sub_retained t ! 0) = (smp, c')" by fastforce
  have l: "slot_core X v tk (sub_retained t ! 0)" "wf_topic t" "length (sub_retained t) = 1" using t(2) by (simp_all add: slot_topic_def)
  note s = slot_core_take [OF l(1) c]
  have "wf_core c'" using wf_core_TakeLatest [OF wf_topic_core [OF l(2), of 0], of X "clock (qb_reads w)"] c l(3) by simp
  then have "wf_topic (t\<lparr>sub_retained := (sub_retained t)[0 := c']\<rparr>)" using wf_topic_set_core [OF l(2), of c' 0] by (simp add: set_core_def)
  then have "slot_topic X v (if v = None then tk else Suc tk) (t\<lparr>sub_retained := (sub_retained t)[0 := c']\<rparr>)"
    using s t(2) l(3) by (simp add: slot_topic_def connected_def)
  then show ?thesis using c t s w by (simp add: latest_try_def qb_now_def Subscriber_TakeLatest_def on_core_def wired_slot_def)
qed

lemma loan_publish_step:
  assumes X: "xmbase X items capacity" and w: "wired_slot X nm v np tk w"
  shows "\<exists>w'. loan_publish X kBytes ctx clock w = Some w' \<and> wired_slot X nm (Some (qb_seq w + 1)) (Suc np) tk w' \<and> qb_seq w' = qb_seq w + 1"
proof -
  obtain core t where e: "ep_kind (qb_pub w) = PubImpl (Some core)" "idle_pub np core" "topic_at (qb_ds w) nm = Some (TopicE t)" "slot_topic X v tk t"
    "ep_topic (qb_pub w) = Some nm" "type_id t = ep_type (qb_pub w)" using w by (auto simp: wired_slot_def)
  have idle: "wf_pool (pub_pool core)" "held (pub_pool core) = {}" "pub_reliability core = kBestEffort" "publish_count core = of_nat np"
    using e(2) by (simp_all add: idle_pub_def)
  obtain i pool where a: "Acquire (pub_pool core) = (Some i, pool)" "i < kSlots" "held pool = {i}" "wf_pool pool"
    using idle(1,2) by (cases rule: Acquire_cases) (auto simp: kSlots_def lessThan_empty_iff)
  define pool1 where "pool1 = pool\<lparr>cells := (cells pool)[i := Some (qb_seq w + 1)]\<rparr>"
  have p1: "cells pool1 ! i = Some (qb_seq w + 1)" "wf_pool (Release i pool1)" "held (Release i pool1) = {}"
    using a by (auto simp: pool1_def wf_pool_def held_def Release_def bit_andnot_cell_bit)
  let ?core = "core\<lparr>pub_pool := pool1\<rparr>"
  have "pub_reliability ?core = kBestEffort" using idle(3) by simp
  moreover obtain st core' t' where d: "Deliver X (of_nat kBytes) ctx (clock (qb_reads w)) ?core (qb_seq w + 1) None t = (st, core', t')" by (rule prod_cases3)
  ultimately have "slot_topic X (Some (qb_seq w + 1)) tk t'" "core' = note_publish (of_nat kBytes) ?core" using slot_topic_Deliver [OF X e(4) _ d] by simp_all
  moreover have "i < length (cells pool)" using a(2,4) by (simp add: wf_pool_def)
  ultimately have "loan_publish X kBytes ctx clock w = Some (w\<lparr>qb_reads := Suc (qb_reads w), qb_seq := qb_seq w + 1,
      qb_pub := (qb_pub w)\<lparr>ep_kind := PubImpl (Some ((note_publish (of_nat kBytes) ?core)\<lparr>pub_pool := Release i pool1\<rparr>))\<rparr>, qb_ds := put_topic nm (TopicE t') (qb_ds w)\<rparr>)"
    using e(1,3,5,6) a(1) d by (simp add: loan_publish_def Publisher_Loan_def Publisher_PublishLoan_def pool_at_def ep_at_def set_pool_def Publisher_Publish_def
      qb_now_def derive_info_def pool1_def note_publish_def Let_def)
  moreover have "idle_pub (Suc np) ((note_publish (of_nat kBytes) ?core)\<lparr>pub_pool := Release i pool1\<rparr>)"
    using idle p1(2,3) by (simp add: idle_pub_def note_publish_def)
  ultimately show ?thesis using \<open>slot_topic X (Some (qb_seq w + 1)) tk t'\<close> Deliver_type [OF d] e w by (simp add: wired_slot_def)
qed

lemma slot_start:
  fixes X :: "(u64, 's, 'q, 'c) XmBase"
  assumes "xmbase X items capacity"
  shows "\<exists>w :: ('s, 'q, 'req, 'rsp) qbench. bench_start X Qos_default hash ty nm = Some w \<and> wired_slot X nm None 0 0 w \<and> qb_seq w = 0 \<and> g_sink w = 0"
proof -
  have "slot_core X None 0 (SubCore_init X Qos_default)" using message_slot.load_new [OF xmbase.axioms(1) [OF assms]]
    by (simp add: slot_core_def SubCore_init_def Qos_default_def LatestOnly_def)
  moreover have "idle_pub 0 (PubCore_init Qos_default)" using wf_pool_init
    by (simp add: idle_pub_def PubCore_init_def Qos_default_def held_def) (simp add: LoanPool_init_def)
  ultimately show ?thesis using bench_start_wires [OF assms, of Qos_default hash ty nm, where ?'req = 'req and ?'rsp = 'rsp]
    by (fastforce simp: wired_slot_def slot_topic_def)
qed

section \<open>What the benchmarks count\<close>

definition publish_steps :: "(u64, 's, 'q, 'c) XmBase \<Rightarrow> ('q \<Rightarrow> u64 MailRecord list) \<Rightarrow> ('q \<Rightarrow> nat) \<Rightarrow> string \<Rightarrow> nat \<Rightarrow> ('s, 'q, 'req, 'rsp) qbench \<Rightarrow> bool" where
  "publish_steps X items capacity nm k w \<longleftrightarrow> xmbase X items capacity \<and> qb_seq w = of_nat k \<and> wired_slot X nm (if k = 0 then None else Some (of_nat k)) k 0 w"

definition hit_steps :: "(u64, 's, 'q, 'c) XmBase \<Rightarrow> string \<Rightarrow> nat \<Rightarrow> ('s, 'q, 'req, 'rsp) qbench \<Rightarrow> bool" where
  "hit_steps X nm k w \<longleftrightarrow> g_sink w = of_nat k \<and> wired_slot X nm (Some 1) 1 k w"

definition miss_steps :: "(u64, 's, 'q, 'c) XmBase \<Rightarrow> string \<Rightarrow> nat \<Rightarrow> ('s, 'q, 'req, 'rsp) qbench \<Rightarrow> bool" where
  "miss_steps X nm k w \<longleftrightarrow> g_sink w = of_nat (2 * k) \<and> wired_slot X nm None 0 0 w"

lemmas steps_defs = publish_steps_def hit_steps_def miss_steps_def

interpretation publish_latest: measured_loop "qb_now clock" "bench_publish X kBytes ctx clock" "publish_steps X items capacity nm" for clock X kBytes ctx items capacity nm
proof
  show "\<exists>w'. bench_publish X kBytes ctx clock w = Some w' \<and> publish_steps X items capacity nm (Suc k) w'" if "publish_steps X items capacity nm k w" for k w
    using that slot_publish_step [of X items capacity nm _ k 0 w kBytes ctx clock] by (fastforce simp: steps_defs add.commute)
qed (simp add: steps_defs qb_now_def)

interpretation publish_loan: measured_loop "qb_now clock" "loan_publish X kBytes ctx clock" "publish_steps X items capacity nm" for clock X kBytes ctx items capacity nm
proof
  show "\<exists>w'. loan_publish X kBytes ctx clock w = Some w' \<and> publish_steps X items capacity nm (Suc k) w'" if "publish_steps X items capacity nm k w" for k w
    using that loan_publish_step [of X items capacity nm _ k 0 w kBytes ctx clock] by (fastforce simp: steps_defs add.commute)
qed (simp add: steps_defs qb_now_def)

interpretation hits: measured_loop "qb_now clock" "latest_hit X clock" "hit_steps X nm" for clock X nm
proof
  show "\<exists>w'. latest_hit X clock w = Some w' \<and> hit_steps X nm (Suc k) w'" if "hit_steps X nm k w" for k w
    using that latest_try_step [of X nm "Some 1" 1 k w clock] by (auto simp: steps_defs latest_hit_def add.commute)
qed (simp add: steps_defs qb_now_def)

interpretation misses: measured_loop "qb_now clock" "latest_miss X clock" "miss_steps X nm" for clock X nm
proof
  show "\<exists>w'. latest_miss X clock w = Some w' \<and> miss_steps X nm (Suc k) w'" if "miss_steps X nm k w" for k w
    using that latest_try_step [of X nm None 0 0 w clock] by (auto simp: steps_defs latest_miss_def algebra_simps)
qed (simp add: steps_defs qb_now_def)

lemma wired_slot_counts:
  "wired_slot X nm v np tk w \<Longrightarrow> TakeCount (qb_sub w) (qb_ds w) = of_nat tk \<and> PublishCount (qb_pub w) = of_nat np"
  by (auto simp: wired_slot_def slot_topic_def slot_core_def idle_pub_def TakeCount_def PublishCount_def sub_core_def)

lemma wired_slot_pool: "wired_slot X nm v np tk w \<Longrightarrow> \<exists>core. ep_kind (qb_pub w) = PubImpl (Some core) \<and> held (pub_pool core) = {}"
  by (auto simp: wired_slot_def idle_pub_def)

text \<open>The number of operations a plain micro benchmark runs: four warm-up batches and one batch per sample.\<close>

abbreviation micro_ops :: "bool \<Rightarrow> nat \<Rightarrow> nat" where
  "micro_ops smoke kBytes \<equiv> (4 + MicroSamples smoke kBytes) * MicroBatch kBytes"

lemma slot_started:
  fixes X :: "(u64, 's, 'q, 'c) XmBase"
  assumes "xmbase X items capacity"
  shows "\<exists>w :: ('s, 'q, 'req, 'rsp) qbench. bench_start X Qos_default hash ty nm = Some w \<and> publish_steps X items capacity nm 0 w \<and> miss_steps X nm 0 w"
  using slot_start [OF assms, of hash ty nm, where ?'req = 'req and ?'rsp = 'rsp] assms by (auto simp: steps_defs)

lemma publish_latest_counts:
  fixes allocs :: "('s, 'q, 'req, 'rsp) qbench \<Rightarrow> u64"
  assumes X: "xmbase X items capacity"
  shows "\<exists>xs total w. BenchPublishLatest X allocs fdiv clock smoke kBytes ctx hash ty = Some (xs, total, w) \<and> length xs = MicroSamples smoke kBytes \<and>
      PublishCount (qb_pub w) = of_nat (micro_ops smoke kBytes)"
  using slot_started [OF X, of hash ty "''bench.pub''", where ?'req = 'req and ?'rsp = 'rsp] wired_slot_counts
    publish_latest.micro_steps [of X items capacity "''bench.pub''" _ clock allocs fdiv kBytes ctx "MicroBatch kBytes" "MicroSamples smoke kBytes"]
  by (fastforce simp: BenchPublishLatest_def publish_steps_def)

lemma loan_publish_counts:
  fixes allocs :: "('s, 'q, 'req, 'rsp) qbench \<Rightarrow> u64"
  assumes X: "xmbase X items capacity"
  shows "\<exists>xs total w core. BenchLoanPublish X allocs fdiv clock smoke kBytes ctx hash ty = Some (xs, total, w) \<and> length xs = MicroSamples smoke kBytes \<and>
      PublishCount (qb_pub w) = of_nat (micro_ops smoke kBytes) \<and> ep_kind (qb_pub w) = PubImpl (Some core) \<and> held (pub_pool core) = {}"
proof -
  obtain w :: "('s, 'q, 'req, 'rsp) qbench" where w: "bench_start X Qos_default hash ty ''bench.loan'' = Some w" "publish_steps X items capacity ''bench.loan'' 0 w"
    using slot_started [OF X, of hash ty "''bench.loan''", where ?'req = 'req and ?'rsp = 'rsp] by blast
  from publish_loan.micro_steps [OF w(2), of clock allocs fdiv kBytes ctx "MicroBatch kBytes" "MicroSamples smoke kBytes"] obtain xs total w' where
    r: "BenchLoanPublish X allocs fdiv clock smoke kBytes ctx hash ty = Some (xs, total, w')" "length xs = MicroSamples smoke kBytes"
    and "publish_steps X items capacity ''bench.loan'' (micro_ops smoke kBytes) w'" using w(1) by (auto simp: BenchLoanPublish_def)
  then obtain v where v: "wired_slot X ''bench.loan'' v (micro_ops smoke kBytes) 0 w'" unfolding publish_steps_def by blast
  from r wired_slot_counts [OF v] wired_slot_pool [OF v] show ?thesis by blast
qed

lemma take_hit_counts:
  fixes allocs :: "('s, 'q, 'req, 'rsp) qbench \<Rightarrow> u64"
  assumes X: "xmbase X items capacity"
  shows "\<exists>xs total w. BenchTakeLatestHit X allocs fdiv clock smoke kBytes ctx hash ty = Some (xs, total, w) \<and> length xs = MicroSamples smoke kBytes \<and>
      TakeCount (qb_sub w) (qb_ds w) = of_nat (micro_ops smoke kBytes) \<and> g_sink w = of_nat (micro_ops smoke kBytes)"
proof -
  obtain w :: "('s, 'q, 'req, 'rsp) qbench" where w: "bench_start X Qos_default hash ty ''bench.take'' = Some w" "wired_slot X ''bench.take'' None 0 0 w" "qb_seq w = 0" "g_sink w = 0"
    using slot_start [OF X, of hash ty "''bench.take''", where ?'req = 'req and ?'rsp = 'rsp] by blast
  from slot_publish_step [OF X w(2), of kBytes ctx clock] w obtain w1 where
    w1: "bench_publish X kBytes ctx clock w = Some w1" "hit_steps X ''bench.take'' 0 w1" by (auto simp: hit_steps_def)
  from hits.micro_steps [OF w1(2), of clock allocs fdiv "MicroBatch kBytes" "MicroSamples smoke kBytes"] obtain xs total w' where
    r: "BenchTakeLatestHit X allocs fdiv clock smoke kBytes ctx hash ty = Some (xs, total, w')" "length xs = MicroSamples smoke kBytes"
    and h: "hit_steps X ''bench.take'' (micro_ops smoke kBytes) w'" using w(1) w1(1) by (auto simp: BenchTakeLatestHit_def)
  then have "wired_slot X ''bench.take'' (Some 1) 1 (micro_ops smoke kBytes) w'" by (simp add: hit_steps_def)
  from r h wired_slot_counts [OF this] show ?thesis unfolding hit_steps_def by blast
qed

lemma take_miss_counts:
  fixes allocs :: "('s, 'q, 'req, 'rsp) qbench \<Rightarrow> u64"
  assumes X: "xmbase X items capacity"
  shows "\<exists>xs total w. BenchTakeLatestMiss X allocs fdiv clock smoke hash ty = Some (xs, total, w) \<and> length xs = MicroSamples smoke 64 \<and>
      TakeCount (qb_sub w) (qb_ds w) = 0 \<and> g_sink w = of_nat (2 * micro_ops smoke 64)"
proof -
  obtain w :: "('s, 'q, 'req, 'rsp) qbench" where w: "bench_start X Qos_default hash ty ''bench.take_miss'' = Some w" "miss_steps X ''bench.take_miss'' 0 w"
    using slot_started [OF X, of hash ty "''bench.take_miss''", where ?'req = 'req and ?'rsp = 'rsp] by blast
  from misses.micro_steps [OF w(2), of clock allocs fdiv "MicroBatch 64" "MicroSamples smoke 64"] obtain xs total w' where
    r: "BenchTakeLatestMiss X allocs fdiv clock smoke hash ty = Some (xs, total, w')" "length xs = MicroSamples smoke 64"
    and m: "miss_steps X ''bench.take_miss'' (micro_ops smoke 64) w'" using w(1) by (auto simp: BenchTakeLatestMiss_def)
  then have "wired_slot X ''bench.take_miss'' None 0 0 w'" by (simp add: miss_steps_def)
  from r m wired_slot_counts [OF this] show ?thesis by (simp add: miss_steps_def)
qed

text \<open>C40. On any message slot and ring that keep their contracts, the four uncontended latest-only benchmarks return, at every payload size, with every
  clock, with the announced number of samples. Every publish is accepted; no loan is ever exhausted, so that the unchecked write through it is
  defined, and each cell is back in the pool at the end; every measured hit finds the one published value, so that the unchecked read is
  defined; every measured miss is a miss, counts as no take and adds the code of \<^verbatim>\<open>kNone\<close> to the sink.\<close>

theorem bench_latest_exact:
  fixes allocs :: "('s, 'q, 'req, 'rsp) qbench \<Rightarrow> u64"
  assumes X: "xmbase X items capacity"
  shows "(\<exists>xs total w. BenchPublishLatest X allocs fdiv clock smoke kBytes ctx hash ty = Some (xs, total, w) \<and> length xs = MicroSamples smoke kBytes \<and>
      PublishCount (qb_pub w) = of_nat (micro_ops smoke kBytes)) \<and>
    (\<exists>xs total w core. BenchLoanPublish X allocs fdiv clock smoke kBytes ctx hash ty = Some (xs, total, w) \<and> length xs = MicroSamples smoke kBytes \<and>
      PublishCount (qb_pub w) = of_nat (micro_ops smoke kBytes) \<and> ep_kind (qb_pub w) = PubImpl (Some core) \<and> held (pub_pool core) = {}) \<and>
    (\<exists>xs total w. BenchTakeLatestHit X allocs fdiv clock smoke kBytes ctx hash ty = Some (xs, total, w) \<and> length xs = MicroSamples smoke kBytes \<and>
      TakeCount (qb_sub w) (qb_ds w) = of_nat (micro_ops smoke kBytes) \<and> g_sink w = of_nat (micro_ops smoke kBytes)) \<and>
    (\<exists>xs total w. BenchTakeLatestMiss X allocs fdiv clock smoke hash ty = Some (xs, total, w) \<and> length xs = MicroSamples smoke 64 \<and>
      TakeCount (qb_sub w) (qb_ds w) = 0 \<and> g_sink w = of_nat (2 * micro_ops smoke 64))"
  using publish_latest_counts [OF X, of allocs fdiv clock smoke kBytes ctx hash ty] loan_publish_counts [OF X, of allocs fdiv clock smoke kBytes ctx hash ty]
    take_hit_counts [OF X, of allocs fdiv clock smoke kBytes ctx hash ty] take_miss_counts [OF X, of allocs fdiv clock smoke hash ty]
  by (intro conjI)

theorem bench_latest_exact_witness:
  "\<exists>xs total w. BenchTakeLatestMiss (XmBase_ref :: (u64, u64 MailRecord option, nat \<times> u64 MailRecord list, ref_context) XmBase)
      (\<lambda>_ :: (u64 MailRecord option, nat \<times> u64 MailRecord list, unit, unit) qbench. 0) (\<lambda>d n. d div int n) (\<lambda>k. 100 * int k) True 7 ''Payload<64>'' = Some (xs, total, w) \<and>
      length xs = 60 \<and> TakeCount (qb_sub w) (qb_ds w) = 0 \<and> g_sink w = 32768"
proof -
  have "MicroSamples True 64 = 60" "MicroBatch 64 = 256" by (simp_all add: MicroSamples_def MicroBatch_def smoke_samples)
  then show ?thesis using bench_latest_exact [OF ref.xmbase_axioms, of "\<lambda>_ :: (u64 MailRecord option, nat \<times> u64 MailRecord list, unit, unit) qbench. 0"
    "\<lambda>d n. d div int n" "\<lambda>k. 100 * int k" True 64 "(1, 2, 3)" 7 "''Payload<64>''"] by auto
qed

end
