(* ===== verification/Spec2Isabelle.thy ===== *)
theory Spec2Isabelle
  imports Topic_Race Rpc_Properties Schema_Properties Domain_Front Shm_Sub_Race Shm_Restart Cli_Properties Reach_Properties Handles Bench_Queue Bench_Latest
begin

text \<open>
  \<^bold>\<open>xmMessaging: topics, request/response and shared-memory transport.\<close>

  xmMessaging is a C++17 library of typed topics for robot software. A \<^verbatim>\<open>Domain\<close> is made by a factory for one reach (in one process, between
  processes over POSIX shared memory; iceoryx2 and Zenoh exist only as factories without a backend). \<^verbatim>\<open>Advertise\<close> and \<^verbatim>\<open>Subscribe\<close> wire publishers
  and subscribers to a topic, \<^verbatim>\<open>Serve\<close> and \<^verbatim>\<open>Client\<close> the two ends of a request/response topic. Every subscriber owns a latest-value mailbox or a
  bounded queue; a publish stamps a record, stores it in the topic's master slot and fans it out. Two endpoints talk only when the schema hash
  of their payload type agrees. On shared memory the same verbs run against a segment whose header carries ownership, liveness and counters;
  the \<^verbatim>\<open>xmmsg\<close> command reads those segments.

  \<^bold>\<open>Parts and theories.\<close> Paths are under \<^verbatim>\<open>src/\<close>. Definitions have the names of the C++ functions and types they translate.

  \<^item> \<^verbatim>\<open>Xm_Prelude\<close>: bounded scans, ownership of indices by a list of handles, word and byte lemmas; the named collections the
    components add to. \<^verbatim>\<open>Xm_Vocabulary\<close>: \<^verbatim>\<open>include/xmmsg/qos.hpp\<close>, \<^verbatim>\<open>status.hpp\<close>, \<^verbatim>\<open>sample.hpp\<close>, \<^verbatim>\<open>detail/envelope.hpp\<close>, \<^verbatim>\<open>detail/mail_record.hpp\<close> and
    the lineage of derived publications. \<^verbatim>\<open>Xm_Base\<close>: what the library uses of xmBase (seqlock mailbox, single-producer ring, telemetry
    context) as a record of operations and the locales \<open>message_slot\<close>, \<open>spsc_ring\<close> and \<open>xmbase\<close> of their laws, interpreted on a reference implementation.
  \<^item> \<^verbatim>\<open>Loan_Pool\<close>, \<^verbatim>\<open>Mailbox_Contract\<close>, \<^verbatim>\<open>Sub_Core\<close>, \<^verbatim>\<open>Topic_Fanout\<close>, \<^verbatim>\<open>Topic_Race\<close>: \<^verbatim>\<open>LoanPool\<close>, \<^verbatim>\<open>Loan\<close>, \<^verbatim>\<open>SubCore\<close>, \<^verbatim>\<open>PubCore\<close> and \<^verbatim>\<open>Topic\<close> of
    \<^verbatim>\<open>detail/in_process.hpp\<close>, each operation as one function; then the loan pool's CAS loop and the topic's publish path split into
    atomic steps, interleaved with joins, leaves and takes of other threads. The contracts of mailbox and queue are the locales
    \<open>gap_mailbox\<close> and \<open>drop_newest_queue\<close>, interpreted on \<^verbatim>\<open>SubCore\<close>.
  \<^item> \<^verbatim>\<open>Rpc_Topic\<close>, \<^verbatim>\<open>Rpc_Call\<close>, \<^verbatim>\<open>Rpc_Properties\<close>: \<^verbatim>\<open>RpcTopic\<close> of the same file, sequentially, as a step relation over any number of clients and one
    server, and \<^verbatim>\<open>RpcTopic::Call\<close> as one thread runs it, with its deadline.
  \<^item> \<^verbatim>\<open>Text_Format\<close>, \<^verbatim>\<open>Schema_Hash\<close>, \<^verbatim>\<open>Schema_Properties\<close>: \<^verbatim>\<open>detail/schema_hash.hpp\<close>, the canonical description of a payload type and its hash.
  \<^item> \<^verbatim>\<open>Domain_State\<close>, \<^verbatim>\<open>Domain_Properties\<close>: \<^verbatim>\<open>DomainState\<close>, the endpoint implementations and the in-process wiring and handle verbs.
    \<^verbatim>\<open>Domain_Front\<close>: \<^verbatim>\<open>src/domain.cpp\<close>, factories, moves, the process-wide registry, \<^verbatim>\<open>Supports\<close> and \<^verbatim>\<open>WaitUntilMatched\<close>.
  \<^item> \<^verbatim>\<open>Shm_Naming\<close>: \<^verbatim>\<open>ShmSegmentName\<close>, \<^verbatim>\<open>DeriveIsolationKey\<close>, \<^verbatim>\<open>ParseSegmentName\<close>. \<^verbatim>\<open>Shm_Segment\<close>: \<^verbatim>\<open>detail/shm_segment.hpp\<close> and \<^verbatim>\<open>ShmTopicAttachment\<close>, the header,
    the layout and \<^verbatim>\<open>OpenOrCreate\<close>. \<^verbatim>\<open>Shm_Transport\<close>: \<^verbatim>\<open>detail/posix_shm.hpp\<close>. \<^verbatim>\<open>Shm_Properties\<close>, \<^verbatim>\<open>Shm_Claim_Race\<close>, \<^verbatim>\<open>Shm_Sub_Race\<close>, \<^verbatim>\<open>Shm_Restart\<close>: its refinement of
    the in-process core, the race for the publisher slot, the race for the subscriber slots against departures, repairs and fan-outs, and crash and
    restart (locale \<open>crash_slot\<close>). \<^verbatim>\<open>Handles\<close>: the move-only classes \<^verbatim>\<open>Endpoint\<close>, \<^verbatim>\<open>ShmMapping\<close> and \<^verbatim>\<open>IntrospectReader\<close> (locale \<open>move_only\<close>).
  \<^item> \<^verbatim>\<open>Reach_Dispatch\<close>, \<^verbatim>\<open>Reach_Relation\<close>, \<^verbatim>\<open>Reach_Properties\<close>: the public verbs with both branches, the relation between a topic and its segment, and
    the lock-step simulation (locale \<open>lockstep\<close>) that makes programs portable.
  \<^item> \<^verbatim>\<open>Introspect\<close>: \<^verbatim>\<open>detail/introspect_reader.hpp\<close> (locale \<open>seqlock_history\<close>). \<^verbatim>\<open>Cli_Json\<close>, \<^verbatim>\<open>Cli\<close>, \<^verbatim>\<open>Cli_Properties\<close>: \<^verbatim>\<open>tools/xmmsg/xmmsg.cpp\<close>.
  \<^item> \<^verbatim>\<open>Bench\<close>, \<^verbatim>\<open>Bench_Measure\<close>, \<^verbatim>\<open>Bench_Queue\<close>, \<^verbatim>\<open>Bench_Latest\<close>: \<^verbatim>\<open>bench/xmmsg_bench.cpp\<close>, its options, rows, allocation gate and path loops; the measuring loops
    (locales \<open>measured_rounds\<close> and \<open>measured_loop\<close>, interpreted on each benchmark's operation); the uncontended benchmarks run on the modelled library.

  \<^bold>\<open>How the code is represented.\<close> Classes are records, enumerations datatypes, fixed-width counters words that wrap. A pointer to a
  retained core is its index, a registry entry is named by its topic, a null \<^verbatim>\<open>impl_\<close> is \<open>None\<close>. Operations take and return the state they change. The
  clock, the thread's telemetry context, the liveness probe and every answer of the operating system are arguments. \<open>None\<close> as the value of a cell
  or a response stands for \<^verbatim>\<open>T{}\<close>; \<open>None\<close> as the result of a handle verb means a cast of the code would meet an object of another
  class or payload type, and theorems show it does not occur. Operations are those of a release build: assertions are not evaluated and the code after
  them is what is modelled; the tiling assertion of \<^verbatim>\<open>CanonicalDescription\<close> is a definition of its own (\<open>tiling_assert\<close>).

  \<^bold>\<open>What the theorems show.\<close>

  \<^item> The reaches: a program within the supported declarations gets the same results on both (\<open>reach_portable\<close>); request/response, shared
    ownership, reliable queues and endpoints without a backend are refused without a trace where \<^verbatim>\<open>Supports\<close> denies them (\<open>unsupported_refused\<close>), while a
    denied loan is not refused (\<open>loan_denied_but_wired\<close>); a reliable latest-only publisher shows where the reaches part (\<open>reliable_latest_diverges\<close>).
  \<^item> Request/response: in every interleaving a successful call carries its own answer, both ends agree on the verdict and slots come back; the
    call as a thread runs it is a run of the relation and, whatever the other threads do, returns within seventeen steps of its own once its deadline is due.
  \<^item> Schema: the description determines the layout, the tiling assertion holds exactly for packed types, one-byte changes change the hash; the published
    vectors are evaluated as a test of the definitions.
  \<^item> Domain: casts meet the right class and payload type, the census and gauges are exact over any run, type mismatches change nothing, states are shared exactly
    by equal keys, and the readiness barrier returns in time.
  \<^item> Segment: for topics of the wire contract's grammar, names parse back (except at exactly 240 bytes, where code and contract differ) and are shared only by
    the same user, domain and topic, up to hash collisions of over-long names; attachment accepts only its own identity; regions do not overlap; at most one
    living process owns the publisher slot as long as no process starts with a number a claimant has just probed dead; a subscriber slot has one living holder and is not written while a waiting reclaim re-initialises it, as long as claims of
    one slot do not overlap, claims return in bounded steps; a restarted publisher resumes and a subscriber keeps its value across the crash. What overlap
    does is shown by \<open>subscriber_slot_stolen\<close>, \<open>subscriber_pid_lost\<close>, \<open>free_claim_window\<close> and \<open>claimed_slot_stuck\<close>.
  \<^item> Topics: in every interleaving overwrites are counted exactly, each at the take that follows it, and reliable publishers lose nothing; queues refine
    the reference drop-newest queue of their depth, late joiners see the current value, deadline misses are counted once per onset, telemetry and counters agree, loans are never shared or lost.
  \<^item> Observers: the bounded master read is never torn, \<^verbatim>\<open>clean\<close> unlinks exactly the segments without a living participant when no subscriber is in
    the middle of a claim (\<open>clean_ignores_claimed\<close> shows the other case), the JSON output reads back.
  \<^item> Handles and benchmarks: every resource of a move-only handle is released once; the benchmarks return, take the announced samples and measure what
    they are named after (no drop, no miss in the queue benchmarks, a hit or a miss each time in the others); the exit code is 0 only if no gated row allocated.

  \<^bold>\<open>Bounds and fuel.\<close> Theorems about ordinals hold for fewer than \<open>2^64 - 1\<close> accepted values, those about calls for fewer than
  \<open>2^60 - 1\<close> (the width of a token less its index bits), beyond any run. Retry loops of the code have its own bounds (four attempts to open, \<open>kPolls\<close>
  polls, the retry budget of the observer) and need no fuel. The readiness barrier and \<^verbatim>\<open>watch\<close> recurse on a bound of rounds; the barrier's is shown
  to suffice for a clock that advances. The drain loop of the benchmarks is a partial function, shown to return. The JSON reader's fuel is the size of the tree, which is shown to be enough.

  \<^bold>\<open>Not modelled.\<close> Interleavings are sequentially consistent: the memory orders of the atomics are not. The race for the
  subscriber slots follows the words that decide it; the contents of the regions are followed where operations are atomic (\<open>Shm_Transport\<close>). Processes are told apart by pid; the
  exclusiveness of the publisher slot holds with reused pids, but not when a process starts with the pid that a claimant has probed dead and is about to
  reclaim, as \<open>publisher_pid_reuse\<close> shows.
  Compile-time checks on payload types, rendering of floating-point numbers, sleeping, signals, the threads of the
  contended and RPC benchmarks, the benchmark's statistics and hardware report, tests and build files are left out.
\<close>

end
